(* ===== verification/Waku_Prelude.thy ===== *)
theory Waku_Prelude
  imports Main "HOL-Library.Word"
begin

text \<open>
  Shared vocabulary of the development: the machine types of the Rust sources, the
  \<open>Result\<close> type and its \<open>?\<close> operator, the string and byte-slice operations of the Rust
  standard library that several crates use, and the lemmas about them.

  A Rust \<open>String\<close> or \<open>&str\<close> is a sequence of UTF-8 bytes; an Isabelle \<^typ>\<open>char\<close> is one
  byte, so \<^typ>\<open>string\<close> is the byte sequence and \<open>as_bytes\<close> is a change of type only.
  Splitting at an ASCII separator is the same on the bytes as on the code points.
  Arithmetic is that of the release profile (\<open>overflow-checks\<close> off): \<open>+\<close>, \<open>-\<close> and
  \<open>abs\<close> wrap around.
\<close>

unbundle bit_operations_syntax

section \<open>Types\<close>

type_synonym u8 = "8 word"
type_synonym u16 = "16 word"
type_synonym u32 = "32 word"
type_synonym u64 = "64 word"
type_synonym i32 = "32 word" \<comment> \<open>read with \<open>sint\<close>\<close>
type_synonym i64 = "64 word" \<comment> \<open>read with \<open>sint\<close>\<close>
type_synonym bytes = "u8 list"

type_synonym ('e, 'a) result = "'e + 'a"

abbreviation Ok :: "'a \<Rightarrow> ('e, 'a) result" where "Ok \<equiv> Inr"
abbreviation Err :: "'e \<Rightarrow> ('e, 'a) result" where "Err \<equiv> Inl"

named_theorems byte_simps \<open>byte-level encoders and decoders\<close>
named_theorems str_simps \<open>string operations\<close>

section \<open>Result and Option combinators\<close>

fun bind_result :: "('e, 'a) result \<Rightarrow> ('a \<Rightarrow> ('e, 'b) result) \<Rightarrow> ('e, 'b) result" where
  "bind_result (Inl e) f = Inl e"
| "bind_result (Inr x) f = f x"

fun map_err :: "('e \<Rightarrow> 'f) \<Rightarrow> ('e, 'a) result \<Rightarrow> ('f, 'a) result" where
  "map_err g (Inl e) = Inl (g e)"
| "map_err g (Inr x) = Inr x"

fun ok_or :: "'e \<Rightarrow> 'a option \<Rightarrow> ('e, 'a) result" where
  "ok_or e None = Inl e"
| "ok_or e (Some x) = Inr x"

fun result_ok :: "('e, 'a) result \<Rightarrow> 'a option" where
  "result_ok (Inl e) = None"
| "result_ok (Inr x) = Some x"

definition unwrap_or :: "'a option \<Rightarrow> 'a \<Rightarrow> 'a" where
  "unwrap_or o' d = (case o' of None \<Rightarrow> d | Some x \<Rightarrow> x)"

definition option_or :: "'a option \<Rightarrow> 'a option \<Rightarrow> 'a option" where
  "option_or a b = (case a of None \<Rightarrow> b | Some x \<Rightarrow> Some x)"

text \<open>\<open>iter().map(f).collect::<Result<_, _>>()\<close>: the first error wins.\<close>

fun map_result :: "('a \<Rightarrow> ('e, 'b) result) \<Rightarrow> 'a list \<Rightarrow> ('e, 'b list) result" where
  "map_result f [] = Inr []"
| "map_result f (x # xs) =
     bind_result (f x) (\<lambda>y. bind_result (map_result f xs) (\<lambda>ys. Inr (y # ys)))"

section \<open>Strings\<close>

definition as_bytes :: "string \<Rightarrow> bytes" where
  "as_bytes s = map of_char s"

text \<open>\<open>str::strip_prefix\<close>\<close>

fun strip_prefix :: "string \<Rightarrow> string \<Rightarrow> string option" where
  "strip_prefix [] s = Some s"
| "strip_prefix (p # ps) [] = None"
| "strip_prefix (p # ps) (c # cs) = (if p = c then strip_prefix ps cs else None)"

text \<open>\<open>str::split(c)\<close>: one more piece than there are separators.\<close>

fun split_on :: "char \<Rightarrow> string \<Rightarrow> string list" where
  "split_on c [] = [[]]"
| "split_on c (x # xs) =
     (if x = c then [] # split_on c xs
      else (case split_on c xs of [] \<Rightarrow> [[x]] | p # ps \<Rightarrow> (x # p) # ps))"

text \<open>\<open>str::split_once(c)\<close>: around the first separator.\<close>

fun split_once :: "char \<Rightarrow> string \<Rightarrow> (string \<times> string) option" where
  "split_once c [] = None"
| "split_once c (x # xs) =
     (if x = c then Some ([], xs)
      else (case split_once c xs of None \<Rightarrow> None | Some (a, b) \<Rightarrow> Some (x # a, b)))"

text \<open>\<open>format!("{}", n)\<close> for an unsigned integer: decimal digits, no leading zero.\<close>

definition digit_char :: "nat \<Rightarrow> char" where
  "digit_char d = char_of (48 + d)"

fun show_nat :: "nat \<Rightarrow> string" where
  "show_nat n = (if n < 10 then [digit_char n] else show_nat (n div 10) @ [digit_char (n mod 10)])"

declare show_nat.simps [simp del]

text \<open>
  \<open>str::parse::<u16>()\<close>: an optional leading \<open>+\<close>, then at least one decimal digit; each step
  is checked against \<open>u16::MAX\<close>.
\<close>

definition digit_val :: "char \<Rightarrow> nat option" where
  "digit_val c = (let n = (of_char c :: nat) in if 48 \<le> n \<and> n \<le> 57 then Some (n - 48) else None)"

fun parse_u16_digits :: "nat \<Rightarrow> string \<Rightarrow> nat option" where
  "parse_u16_digits acc [] = Some acc"
| "parse_u16_digits acc (c # cs) =
     (case digit_val c of
        None \<Rightarrow> None
      | Some d \<Rightarrow> if 10 * acc + d > 65535 then None else parse_u16_digits (10 * acc + d) cs)"

definition parse_u16 :: "string \<Rightarrow> u16 option" where
  "parse_u16 s =
     (let ds = unwrap_or (strip_prefix ''+'' s) s
      in if ds = [] then None else map_option word_of_nat (parse_u16_digits 0 ds))"

section \<open>Big-endian byte encodings\<close>

definition u16_to_be_bytes :: "u16 \<Rightarrow> bytes" where
  "u16_to_be_bytes w = [ucast (drop_bit 8 w), ucast w]"

definition u16_from_be_bytes :: "u8 \<Rightarrow> u8 \<Rightarrow> u16" where
  "u16_from_be_bytes a b = push_bit 8 (ucast a) OR ucast b"

definition u64_to_be_bytes :: "u64 \<Rightarrow> bytes" where
  "u64_to_be_bytes w = map (\<lambda>i. ucast (drop_bit (8 * i) w)) [7, 6, 5, 4, 3, 2, 1, 0]"

definition u64_from_be_bytes :: "bytes \<Rightarrow> u64" where
  "u64_from_be_bytes bs = foldl (\<lambda>acc b. push_bit 8 acc OR ucast b) 0 bs"

section \<open>Signed 64-bit arithmetic\<close>

text \<open>\<open>i64::abs\<close> in the release profile: \<open>i64::MIN\<close> is its own absolute value.\<close>

definition i64_abs :: "i64 \<Rightarrow> i64" where
  "i64_abs w = (if sint w < 0 then - w else w)"

text \<open>\<open>a / b\<close> on \<open>i64\<close> truncates towards zero.\<close>

definition i64_div :: "i64 \<Rightarrow> i64 \<Rightarrow> i64" where
  "i64_div a b = word_of_int (sgn (sint a) * sgn (sint b) * (\<bar>sint a\<bar> div \<bar>sint b\<bar>))"

definition i64_min :: i64 where
  "i64_min = push_bit 63 1"

section \<open>Lemmas: results\<close>

lemma bind_result_Inr_iff [simp]:
  "bind_result r f = Inr y \<longleftrightarrow> (\<exists>x. r = Inr x \<and> f x = Inr y)"
  by (cases r) auto

lemma bind_result_Inl_iff:
  "bind_result r f = Inl e \<longleftrightarrow> r = Inl e \<or> (\<exists>x. r = Inr x \<and> f x = Inl e)"
  by (cases r) auto

lemma ok_or_Inr_iff [simp]: "ok_or e o' = Inr x \<longleftrightarrow> o' = Some x"
  by (cases o') auto

lemma ok_or_Inl_iff [simp]: "ok_or e o' = Inl e' \<longleftrightarrow> o' = None \<and> e' = e"
  by (cases o') auto

lemma map_err_Inr_iff [simp]: "map_err g r = Inr x \<longleftrightarrow> r = Inr x"
  by (cases r) auto

lemma result_ok_Some_iff [simp]: "result_ok r = Some x \<longleftrightarrow> r = Inr x"
  by (cases r) auto

lemma unwrap_or_simps [simp]: "unwrap_or None d = d" "unwrap_or (Some x) d = x"
  by (simp_all add: unwrap_or_def)

lemma option_or_simps [simp]: "option_or None b = b" "option_or (Some x) b = Some x"
  by (simp_all add: option_or_def)

lemma map_result_all_Ok:
  "(\<And>x. x \<in> set xs \<Longrightarrow> f x = Inr (g x)) \<Longrightarrow> map_result f xs = Inr (map g xs)"
  by (induction xs) auto

lemma map_result_Ok_set:
  "map_result f xs = Inr ys \<Longrightarrow> y \<in> set ys \<Longrightarrow> \<exists>x \<in> set xs. f x = Inr y"
  by (induction xs arbitrary: ys) auto

section \<open>Lemmas: strings\<close>

lemma of_char_u8_inj: "(of_char c :: u8) = of_char d \<longleftrightarrow> c = d"
proof
  assume *: "(of_char c :: u8) = of_char d"
  have of_char_u8: "(of_char x :: u8) = word_of_nat (of_char x)" for x
    by (simp add: of_char_def)
  have "(of_char c :: nat) < 256" "(of_char d :: nat) < 256"
    by simp_all
  moreover from * have "unat (word_of_nat (of_char c) :: u8) = unat (word_of_nat (of_char d) :: u8)"
    by (simp add: of_char_u8)
  ultimately show "c = d"
    by (simp add: unat_of_nat take_bit_eq_mod)
qed simp

lemma as_bytes_inj [simp]: "as_bytes s = as_bytes t \<longleftrightarrow> s = t"
  unfolding as_bytes_def by (rule inj_map_eq_map) (auto simp: inj_def of_char_u8_inj)

lemma length_as_bytes [simp]: "length (as_bytes s) = length s"
  by (simp add: as_bytes_def)

lemma as_bytes_append [simp]: "as_bytes (s @ t) = as_bytes s @ as_bytes t"
  by (simp add: as_bytes_def)

lemma strip_prefix_append [simp]: "strip_prefix p (p @ s) = Some s"
  by (induction p) auto

lemma strip_prefix_Some_iff: "strip_prefix p s = Some t \<longleftrightarrow> s = p @ t"
  by (induction p s rule: strip_prefix.induct) auto

lemma split_on_neq_Nil [simp]: "split_on c s \<noteq> []"
  by (cases s) (auto split: list.splits)

lemma split_on_no_sep: "c \<notin> set s \<Longrightarrow> split_on c s = [s]"
  by (induction s) auto

lemma split_on_append_sep: "c \<notin> set s \<Longrightarrow> split_on c (s @ c # t) = s # split_on c t"
  by (induction s) auto

lemma split_on_pieces: "p \<in> set (split_on c s) \<Longrightarrow> c \<notin> set p"
proof (induction s arbitrary: p)
  case Nil
  then show ?case by simp
next
  case (Cons x xs)
  show ?case
  proof (cases "x = c")
    case True
    with Cons show ?thesis by auto
  next
    case False
    obtain q qs where q: "split_on c xs = q # qs"
      by (meson neq_Nil_conv split_on_neq_Nil)
    with Cons.IH have "c \<notin> set q" and "\<And>r. r \<in> set qs \<Longrightarrow> c \<notin> set r"
      by auto
    with False q Cons.prems show ?thesis by auto
  qed
qed

text \<open>Putting the pieces back between separators gives the string again.\<close>

fun join_with :: "char \<Rightarrow> string list \<Rightarrow> string" where
  "join_with c [] = []"
| "join_with c [p] = p"
| "join_with c (p # q # ps) = p @ c # join_with c (q # ps)"

lemma join_with_Cons: "ps \<noteq> [] \<Longrightarrow> join_with c (p # ps) = p @ c # join_with c ps"
  by (cases ps) auto

lemma join_split_on: "join_with c (split_on c s) = s"
proof (induction s)
  case Nil
  then show ?case by simp
next
  case (Cons x xs)
  obtain q qs where q: "split_on c xs = q # qs"
    by (meson neq_Nil_conv split_on_neq_Nil)
  with Cons show ?case
    by (cases qs) (auto simp: join_with_Cons)
qed

lemma split_once_append [simp]: "c \<notin> set s \<Longrightarrow> split_once c (s @ c # t) = Some (s, t)"
  by (induction s) auto

lemma split_once_Some_iff:
  "split_once c s = Some (a, b) \<longleftrightarrow> s = a @ c # b \<and> c \<notin> set a"
proof
  show "split_once c s = Some (a, b) \<Longrightarrow> s = a @ c # b \<and> c \<notin> set a"
    by (induction s arbitrary: a) (auto split: if_splits option.splits)
qed auto

section \<open>Lemmas: decimal numerals\<close>

lemma digit_val_digit_char: "d < 10 \<Longrightarrow> digit_val (digit_char d) = Some d"
  by (simp add: digit_val_def digit_char_def Let_def)

lemma digit_char_range: "d < 10 \<Longrightarrow> 48 \<le> (of_char (digit_char d) :: nat) \<and> (of_char (digit_char d) :: nat) \<le> 57"
  by (simp add: digit_char_def)

lemma set_show_nat:
  "c \<in> set (show_nat n) \<Longrightarrow> 48 \<le> (of_char c :: nat) \<and> (of_char c :: nat) \<le> 57"
proof (induction n rule: show_nat.induct)
  case (1 n)
  show ?case
  proof (cases "n < 10")
    case True
    with "1.prems" show ?thesis
      by (auto simp: show_nat.simps [of n] digit_char_range)
  next
    case False
    with "1.prems" have "c \<in> set (show_nat (n div 10)) \<or> c = digit_char (n mod 10)"
      by (auto simp: show_nat.simps [of n])
    with False "1.IH" show ?thesis by (auto simp: digit_char_range)
  qed
qed

lemma show_nat_no_slash: "CHR ''/'' \<notin> set (show_nat n)"
  using set_show_nat [of "CHR ''/''" n] by fastforce

lemma show_nat_no_plus: "CHR ''+'' \<notin> set (show_nat n)"
  using set_show_nat [of "CHR ''+''" n] by fastforce

lemma show_nat_neq_Nil [simp]: "show_nat n \<noteq> []"
  by (subst show_nat.simps) simp

lemma parse_u16_digits_append:
  "parse_u16_digits acc (xs @ ys) =
     (case parse_u16_digits acc xs of None \<Rightarrow> None | Some v \<Rightarrow> parse_u16_digits v ys)"
  by (induction xs arbitrary: acc) (auto split: option.splits)

lemma parse_show_digits: "n \<le> 65535 \<Longrightarrow> parse_u16_digits 0 (show_nat n) = Some n"
proof (induction n rule: show_nat.induct)
  case (1 n)
  show ?case
  proof (cases "n < 10")
    case True
    then show ?thesis
      by (simp add: show_nat.simps [of n] digit_val_digit_char)
  next
    case False
    with 1 have "parse_u16_digits 0 (show_nat (n div 10)) = Some (n div 10)"
      by simp
    moreover have "10 * (n div 10) + n mod 10 = n" by simp
    ultimately show ?thesis
      using False "1.prems"
      by (simp add: show_nat.simps [of n] parse_u16_digits_append digit_val_digit_char)
  qed
qed

lemma parse_show_u16: "parse_u16 (show_nat (unat w)) = Some w"
proof -
  have "unat w < 65536" using unsigned_less [where w = w] by simp
  then have digits: "parse_u16_digits 0 (show_nat (unat w)) = Some (unat w)"
    by (intro parse_show_digits) simp
  obtain c cs where c: "show_nat (unat w) = c # cs"
    by (meson neq_Nil_conv show_nat_neq_Nil)
  with show_nat_no_plus [of "unat w"] have "c \<noteq> CHR ''+''" by auto
  then have "strip_prefix ''+'' (show_nat (unat w)) = None"
    by (simp add: c)
  with digits show ?thesis
    by (simp add: parse_u16_def Let_def)
qed

lemma show_nat_inj: "show_nat (unat (a :: u16)) = show_nat (unat b) \<Longrightarrow> a = b"
  by (metis option.inject parse_show_u16)

section \<open>Lemmas: byte encodings\<close>

lemma unat_u8_less: "unat (w :: u8) < 256"
  using unsigned_less [where w = w] by simp

lemma of_char_of_u8: "(of_char (char_of (unat w)) :: u8) = w"
proof -
  have "(of_char (char_of (unat w)) :: nat) = unat w" using unat_u8_less [of w] by simp
  moreover have "(of_char c :: u8) = word_of_nat (of_char c)" for c by (simp add: of_char_def)
  ultimately show ?thesis by simp
qed

lemma unat_u16_less: "unat (w :: u16) < 65536"
  using unsigned_less [where w = w] by simp

lemma unat_word_of_nat_u16: "k < 65536 \<Longrightarrow> unat (word_of_nat k :: u16) = k"
  by (simp add: unat_of_nat take_bit_nat_eq_self)

lemma unat_word_of_nat_u8: "k < 256 \<Longrightarrow> unat (word_of_nat k :: u8) = k"
  by (simp add: unat_of_nat take_bit_nat_eq_self)

lemma u16_be_roundtrip [byte_simps]:
  "u16_from_be_bytes (ucast (drop_bit 8 w)) (ucast w) = w"
proof (rule bit_word_eqI)
  fix n
  assume "n < LENGTH(16)"
  then have "n < 16" by simp
  then have "n - 8 < 8 \<or> n < 8" by arith
  with \<open>n < 16\<close> show "bit (u16_from_be_bytes (ucast (drop_bit 8 w)) (ucast w)) n = bit w n"
    by (cases "n < 8") (simp_all add: u16_from_be_bytes_def bit_simps)
qed

lemma u16_from_to_be_bytes [byte_simps]:
  "u16_to_be_bytes (u16_from_be_bytes a b) = [a, b]"
proof -
  have "ucast (drop_bit 8 (u16_from_be_bytes a b)) = a"
    unfolding u16_from_be_bytes_def
    by (rule bit_word_eqI) (auto simp: bit_simps dest: bit_imp_le_length)
  moreover have "ucast (u16_from_be_bytes a b) = b"
    unfolding u16_from_be_bytes_def
    by (rule bit_word_eqI) (auto simp: bit_simps dest: bit_imp_le_length)
  ultimately show ?thesis by (simp add: u16_to_be_bytes_def)
qed

lemma length_u16_to_be_bytes [simp]: "length (u16_to_be_bytes w) = 2"
  by (simp add: u16_to_be_bytes_def)

lemma u16_to_be_bytes_inj [simp]: "u16_to_be_bytes v = u16_to_be_bytes w \<longleftrightarrow> v = w"
proof
  assume "u16_to_be_bytes v = u16_to_be_bytes w"
  then have "(ucast (drop_bit 8 v) :: u8) = ucast (drop_bit 8 w)" "(ucast v :: u8) = ucast w"
    unfolding u16_to_be_bytes_def list.inject by blast+
  then show "v = w" by (metis u16_be_roundtrip)
qed simp

lemma length_u64_to_be_bytes [simp]: "length (u64_to_be_bytes w) = 8"
  by (simp add: u64_to_be_bytes_def)

lemma push_drop_step:
  "j = Suc i \<Longrightarrow>
   push_bit 8 (drop_bit (8 * j) w) OR ucast (ucast (drop_bit (8 * i) w) :: u8) = drop_bit (8 * i) w"
  for w :: u64
  by (rule bit_word_eqI) (auto simp: bit_simps intro: bit_imp_le_length)

lemma push_drop_first:
  "push_bit 8 0 OR ucast (ucast (drop_bit (8 * 7) w) :: u8) = drop_bit (8 * 7) w" for w :: u64
proof -
  have "drop_bit (8 * 8) w = 0" by (rule bit_word_eqI) (simp add: bit_simps)
  then show ?thesis by (rule subst) (rule push_drop_step, simp)
qed

lemma u64_be_roundtrip [byte_simps]: "u64_from_be_bytes (u64_to_be_bytes w) = w"
proof -
  have num: "(7::nat) = Suc 6" "(6::nat) = Suc 5" "(5::nat) = Suc 4" "(4::nat) = Suc 3"
    "(3::nat) = Suc 2" "(2::nat) = Suc 1" "(1::nat) = Suc 0" by simp_all
  have "u64_from_be_bytes (u64_to_be_bytes w) = drop_bit (8 * 0) w"
    unfolding u64_from_be_bytes_def u64_to_be_bytes_def list.map foldl_Cons foldl_Nil
      push_drop_first num(1-7) [THEN push_drop_step] ..
  then show ?thesis by simp
qed

lemma u64_to_be_bytes_inj [simp]: "u64_to_be_bytes v = u64_to_be_bytes w \<longleftrightarrow> v = w"
  by (metis u64_be_roundtrip)

section \<open>Lemmas: signed arithmetic\<close>

lemma sint_i64_range: "- (2 ^ 63) \<le> sint (w :: i64)" "sint (w :: i64) < 2 ^ 63"
  using sint_range_size [of w] by (simp_all add: word_size)

lemma sint_word_of_int_i64:
  "- (2 ^ 63) \<le> k \<Longrightarrow> k < 2 ^ 63 \<Longrightarrow> sint (word_of_int k :: i64) = k"
  by (simp add: sint_sbintrunc' signed_take_bit_int_eq_self)

lemma sint_inject: "sint a = sint b \<longleftrightarrow> a = b" for a b :: i64
  by (auto intro: signed_word_eqI)

lemma sint_small:
  fixes w :: i64
  assumes "unat w < 2 ^ 63"
  shows "sint w = int (unat w)"
proof -
  have "int (unat w) < int (2 ^ 63)" using assms by (simp only: of_nat_less_iff)
  then have "int (unat w) < 2 ^ 63" by simp
  moreover have "- (2 ^ 63) \<le> int (unat w)" by (rule order_trans [OF _ of_nat_0_le_iff]) simp
  ultimately have "sint (word_of_int (int (unat w)) :: i64) = int (unat w)"
    by (intro sint_word_of_int_i64)
  then show ?thesis by simp
qed

lemma sint_big:
  fixes w :: i64
  assumes "unat w \<ge> 2 ^ 63"
  shows "sint w < 0"
proof (rule ccontr)
  assume "\<not> sint w < 0"
  then have s: "0 \<le> sint w" "sint w < 2 ^ 63" using sint_i64_range [of w] by simp_all
  define k where "k = nat (sint w)"
  have k: "k < 2 ^ 63" using s by (simp add: k_def)
  then have u: "unat (word_of_nat k :: i64) = k" by (simp add: unat_of_nat take_bit_nat_eq_self)
  then have "sint (word_of_nat k :: i64) = sint w" using k s sint_small [of "word_of_nat k"] k_def by simp
  then have "w = word_of_nat k" by (simp add: sint_inject)
  with u k assms show False by simp
qed

lemma sint_i64_min: "sint i64_min = - (2 ^ 63)"
  by (simp add: i64_min_def)

lemma sint_i64_abs: "w \<noteq> i64_min \<Longrightarrow> sint (i64_abs w) = \<bar>sint w\<bar>"
proof -
  assume "w \<noteq> i64_min"
  then have ne: "sint w \<noteq> - (2 ^ 63)"
    using sint_i64_min by (metis signed_word_eqI)
  show ?thesis
  proof (cases "sint w < 0")
    case True
    have "- w = word_of_int (- sint w)" by simp
    moreover have "sint (word_of_int (- sint w) :: i64) = - sint w"
      using ne sint_i64_range [of w] True by (intro sint_word_of_int_i64) auto
    ultimately show ?thesis using True by (simp add: i64_abs_def)
  qed (simp add: i64_abs_def)
qed

end
