(* ===== verification/Waku_Core.thy ===== *)
theory Waku_Core
  imports Waku_Prelude
begin

text \<open>
  The crate \<open>waku-core\<close>: the message type (\<open>message.rs\<close>), content topics
  (\<open>content_topic.rs\<close>), the deterministic message hash (\<open>hash.rs\<close>), pubsub topics and
  autosharding (\<open>shard.rs\<close>), the network preset (\<open>preset.rs\<close>) and the error type
  (\<open>error.rs\<close>). SHA-256 (the \<open>sha2\<close> crate) is the parameter \<open>sha256\<close> of the definitions
  that use it.
\<close>

section \<open>Definitions\<close>

subsection \<open>error.rs\<close>

datatype CoreError =
    InvalidContentTopic string
  | InvalidPubsubTopic string
  | MessageTooLarge nat nat

subsection \<open>preset.rs\<close>

definition MAX_MESSAGE_SIZE :: nat where "MAX_MESSAGE_SIZE = 150 * 1024"
definition TIMESTAMP_TOLERANCE_SECS :: i64 where "TIMESTAMP_TOLERANCE_SECS = 20"
definition RLN_MAX_EPOCH_GAP_SECS :: u64 where "RLN_MAX_EPOCH_GAP_SECS = 20"

record NetworkPreset =
  name :: string
  cluster_id :: u16
  shard_count :: u16
  rln_user_message_limit :: u64
  rln_epoch_size_secs :: u64
  dns_discovery_enrtree :: string
  rln_chain_id :: u64
  rln_contract_address :: string

definition TWN :: NetworkPreset where
  "TWN =
     \<lparr>name = ''twn'', cluster_id = 1, shard_count = 8, rln_user_message_limit = 100,
      rln_epoch_size_secs = 600,
      dns_discovery_enrtree =
        ''enrtree://AIRVQ5DDA4FFWLRBCHJWUWOO6X6S4ZTZ5B667LQ6AJU6PEYDLRD5O@sandbox.waku.nodes.status.im'',
      rln_chain_id = 11155111,
      rln_contract_address = ''0xCB33Aa5B38d79E3D9Fa8B10afF38AA201399a7e3''\<rparr>"

text \<open>\<open>(0..shard_count).collect()\<close>\<close>

definition u16_upto :: "u16 \<Rightarrow> u16 list" where
  "u16_upto n = map word_of_nat [0..<unat n]"

subsection \<open>message.rs\<close>

record WakuMessage =
  payload :: bytes
  content_topic :: string
  version :: "u32 option"
  timestamp :: "i64 option"
  meta :: "bytes option"
  rate_limit_proof :: "bytes option"
  ephemeral :: "bool option"

definition WakuMessage_new :: "string \<Rightarrow> bytes \<Rightarrow> WakuMessage" where
  "WakuMessage_new ct p =
     \<lparr>payload = p, content_topic = ct, version = None, timestamp = None, meta = None,
      rate_limit_proof = None, ephemeral = None\<rparr>"

subsection \<open>content_topic.rs\<close>

record ContentTopic =
  application :: string
  version :: string
  name :: string
  encoding :: string

definition ContentTopic_parse :: "string \<Rightarrow> (CoreError, ContentTopic) result" where
  "ContentTopic_parse s =
     bind_result (ok_or (InvalidContentTopic s) (strip_prefix ''/'' s)) (\<lambda>rest.
       let parts = split_on CHR ''/'' rest
       in if length parts \<noteq> 4 \<or> list_ex (\<lambda>p. p = []) parts
          then Err (InvalidContentTopic s)
          else Ok \<lparr>application = parts ! 0, version = parts ! 1, name = parts ! 2,
                   encoding = parts ! 3\<rparr>)"

definition ContentTopic_to_string :: "ContentTopic \<Rightarrow> string" where
  "ContentTopic_to_string ct =
     ''/'' @ application ct @ ''/'' @ ContentTopic.version ct @ ''/'' @ name ct @ ''/'' @ encoding ct"

subsection \<open>hash.rs\<close>

type_synonym MessageHash = bytes \<comment> \<open>\<open>[u8; 32]\<close>\<close>

text \<open>The bytes fed to the hasher, in the order of the \<open>update\<close> calls.\<close>

definition hash_input :: "string \<Rightarrow> WakuMessage \<Rightarrow> bytes" where
  "hash_input pubsub_topic msg =
     as_bytes pubsub_topic @ payload msg @ as_bytes (content_topic msg)
     @ (case meta msg of None \<Rightarrow> [] | Some m \<Rightarrow> m)
     @ (case timestamp msg of None \<Rightarrow> [] | Some ts \<Rightarrow> u64_to_be_bytes ts)"

definition deterministic_hash :: "(bytes \<Rightarrow> bytes) \<Rightarrow> string \<Rightarrow> WakuMessage \<Rightarrow> MessageHash" where
  "deterministic_hash sha256 pubsub_topic msg = sha256 (hash_input pubsub_topic msg)"

definition hex_digit :: "nat \<Rightarrow> char" where
  "hex_digit n = (if n < 10 then digit_char n else char_of (87 + n))"

definition hash_hex :: "MessageHash \<Rightarrow> string" where
  "hash_hex hash = concat (map (\<lambda>b. [hex_digit (unat b div 16), hex_digit (unat b mod 16)]) hash)"

subsection \<open>shard.rs\<close>

record ShardId =
  cluster_id :: u16
  shard :: u16

definition ShardId_new :: "u16 \<Rightarrow> u16 \<Rightarrow> ShardId" where
  "ShardId_new c s = \<lparr>cluster_id = c, shard = s\<rparr>"

definition pubsub_topic :: "ShardId \<Rightarrow> string" where
  "pubsub_topic s = ''/waku/2/rs/'' @ show_nat (unat (cluster_id s)) @ ''/'' @ show_nat (unat (shard s))"

definition ShardId_parse :: "string \<Rightarrow> (CoreError, ShardId) result" where
  "ShardId_parse topic =
     bind_result (ok_or (InvalidPubsubTopic topic) (strip_prefix ''/waku/2/rs/'' topic)) (\<lambda>rest.
     bind_result (ok_or (InvalidPubsubTopic topic) (split_once CHR ''/'' rest)) (\<lambda>(c, s).
     bind_result (ok_or (InvalidPubsubTopic topic) (parse_u16 c)) (\<lambda>cl.
     bind_result (ok_or (InvalidPubsubTopic topic) (parse_u16 s)) (\<lambda>sh.
       Ok \<lparr>cluster_id = cl, shard = sh\<rparr>))))"

text \<open>\<open>value % shard_count\<close> panics when the \<open>shard_count\<close> argument \<open>n\<close> is zero: \<^const>\<open>None\<close>.\<close>

definition autoshard :: "(bytes \<Rightarrow> bytes) \<Rightarrow> u16 \<Rightarrow> ContentTopic \<Rightarrow> u16 \<Rightarrow> ShardId option" where
  "autoshard sha256 cluster ct n =
     (let digest = sha256 (as_bytes (application ct) @ as_bytes (ContentTopic.version ct));
          last8 = take 8 (drop 24 digest);
          value = u64_from_be_bytes last8
      in if n = 0 then None
         else Some (ShardId_new cluster (ucast (value mod ucast n))))"

section \<open>Lemmas\<close>

subsection \<open>Content topics\<close>

definition wf_ContentTopic :: "ContentTopic \<Rightarrow> bool" where
  "wf_ContentTopic ct \<longleftrightarrow>
     list_all (\<lambda>p. p \<noteq> [] \<and> CHR ''/'' \<notin> set p)
       [application ct, ContentTopic.version ct, ContentTopic.name ct, encoding ct]"

lemma split_on_four:
  "CHR ''/'' \<notin> set a \<Longrightarrow> CHR ''/'' \<notin> set b \<Longrightarrow> CHR ''/'' \<notin> set c \<Longrightarrow> CHR ''/'' \<notin> set d \<Longrightarrow>
   split_on CHR ''/'' (a @ CHR ''/'' # b @ CHR ''/'' # c @ CHR ''/'' # d) = [a, b, c, d]"
  by (simp add: split_on_append_sep split_on_no_sep)

lemma length_4_conv: "length xs = 4 \<longleftrightarrow> (\<exists>a b c d. xs = [a, b, c, d])"
  by (auto simp: eval_nat_numeral length_Suc_conv)

lemma parse_to_string:
  assumes "wf_ContentTopic ct"
  shows "ContentTopic_parse (ContentTopic_to_string ct) = Ok ct"
  using assms
  by (simp add: ContentTopic_parse_def ContentTopic_to_string_def wf_ContentTopic_def
      split_on_four Let_def)

lemma parse_Ok_shape:
  assumes "ContentTopic_parse s = Ok ct"
  shows "s = ContentTopic_to_string ct \<and> wf_ContentTopic ct"
proof -
  from assms obtain rest where rest: "s = CHR ''/'' # rest"
    and four: "length (split_on CHR ''/'' rest) = 4"
    and ne: "\<not> list_ex (\<lambda>p. p = []) (split_on CHR ''/'' rest)"
    and ct: "ct = \<lparr>application = split_on CHR ''/'' rest ! 0, version = split_on CHR ''/'' rest ! 1,
        name = split_on CHR ''/'' rest ! 2, encoding = split_on CHR ''/'' rest ! 3\<rparr>"
    by (auto simp: ContentTopic_parse_def Let_def strip_prefix_Some_iff split: if_splits)
  from four obtain a b c d where parts: "split_on CHR ''/'' rest = [a, b, c, d]"
    by (auto simp: length_4_conv)
  have "rest = join_with CHR ''/'' [a, b, c, d]"
    using join_split_on [of "CHR ''/''" rest] parts by simp
  moreover have "CHR ''/'' \<notin> set p" if "p \<in> {a, b, c, d}" for p
    using that split_on_pieces [of p "CHR ''/''" rest] parts by auto
  ultimately show ?thesis
    using rest ne parts ct by (simp add: ContentTopic_to_string_def wf_ContentTopic_def)
qed

lemma ContentTopic_parse_Err:
  "ContentTopic_parse s = Err e \<Longrightarrow> e = InvalidContentTopic s"
  by (auto simp: ContentTopic_parse_def Let_def bind_result_Inl_iff split: if_splits)

subsection \<open>The message hash\<close>

text \<open>The fields that enter the hash.\<close>

definition hashed_fields ::
  "string \<Rightarrow> WakuMessage \<Rightarrow> string \<times> bytes \<times> string \<times> bytes option \<times> i64 option" where
  "hashed_fields t m = (t, payload m, content_topic m, meta m, timestamp m)"

definition same_layout :: "string \<Rightarrow> WakuMessage \<Rightarrow> string \<Rightarrow> WakuMessage \<Rightarrow> bool" where
  "same_layout t m t' m' \<longleftrightarrow>
     length t = length t' \<and> length (payload m) = length (payload m')
     \<and> length (content_topic m) = length (content_topic m')
     \<and> (meta m = None \<longleftrightarrow> meta m' = None) \<and> (timestamp m = None \<longleftrightarrow> timestamp m' = None)"

lemma hash_input_inj:
  assumes "same_layout t m t' m'" and "hash_input t m = hash_input t' m'"
  shows "hashed_fields t m = hashed_fields t' m'"
proof -
  let ?mt = "\<lambda>m. case meta m of None \<Rightarrow> [] | Some x \<Rightarrow> x"
  let ?ts = "\<lambda>m. case timestamp m of None \<Rightarrow> [] | Some x \<Rightarrow> u64_to_be_bytes x"
  from assms have "as_bytes t = as_bytes t'" and p: "payload m = payload m'"
    and "as_bytes (content_topic m) = as_bytes (content_topic m')"
    and tl: "?mt m @ ?ts m = ?mt m' @ ?ts m'"
    by (simp_all add: hash_input_def same_layout_def)
  then have t: "t = t'" and c: "content_topic m = content_topic m'" by simp_all
  have "length (?ts m) = length (?ts m')"
    using assms(1) by (auto simp: same_layout_def split: option.splits)
  with tl have mt: "?mt m = ?mt m'" and ts: "?ts m = ?ts m'"
    by (simp_all add: append_eq_append_conv)
  from mt assms(1) have "meta m = meta m'"
    by (auto simp: same_layout_def split: option.splits)
  moreover from ts assms(1) have "timestamp m = timestamp m'"
    by (auto simp: same_layout_def split: option.splits)
  ultimately show ?thesis using t p c by (simp add: hashed_fields_def)
qed

lemma deterministic_hash_cong:
  "hashed_fields t m = hashed_fields t' m' \<Longrightarrow>
   deterministic_hash sha256 t m = deterministic_hash sha256 t' m'"
  by (simp add: deterministic_hash_def hash_input_def hashed_fields_def)

lemma length_hash_hex: "length (hash_hex h) = 2 * length h"
  by (induction h) (simp_all add: hash_hex_def)

lemma hex_digit_inj: "m < 16 \<Longrightarrow> n < 16 \<Longrightarrow> hex_digit m = hex_digit n \<Longrightarrow> m = n"
proof -
  assume mn: "m < 16" "n < 16" and eq: "hex_digit m = hex_digit n"
  have code: "(of_char (hex_digit k) :: nat) = (if k < 10 then 48 + k else 87 + k)" if "k < 16" for k
    using that by (auto simp: hex_digit_def digit_char_def)
  from eq have "(of_char (hex_digit m) :: nat) = of_char (hex_digit n)" by simp
  with mn code show "m = n" by (auto split: if_splits)
qed

lemma hash_hex_inj: "hash_hex g = hash_hex h \<Longrightarrow> g = h"
proof (induction g arbitrary: h)
  case Nil
  then show ?case by (cases h) (simp_all add: hash_hex_def)
next
  case (Cons a g)
  then obtain b h' where h: "h = b # h'" by (cases h) (simp_all add: hash_hex_def)
  have lt: "unat x div 16 < 16" for x :: u8
    using unat_u8_less [of x] by simp
  from Cons.prems h have "hex_digit (unat a div 16) = hex_digit (unat b div 16)"
    "hex_digit (unat a mod 16) = hex_digit (unat b mod 16)" "hash_hex g = hash_hex h'"
    by (simp_all add: hash_hex_def)
  then have "unat a div 16 = unat b div 16" "unat a mod 16 = unat b mod 16" "g = h'"
    using lt Cons.IH by (auto intro: hex_digit_inj)
  then have "unat a = unat b" by (metis div_mult_mod_eq)
  then have "a = b" by (rule unsigned_word_eqI)
  with \<open>g = h'\<close> h show ?case by simp
qed

subsection \<open>Shards\<close>

lemma ShardId_parse_Ok_iff:
  "ShardId_parse t = Ok s \<longleftrightarrow>
     (\<exists>c d. t = ''/waku/2/rs/'' @ c @ ''/'' @ d \<and> CHR ''/'' \<notin> set c
        \<and> parse_u16 c = Some (ShardId.cluster_id s) \<and> parse_u16 d = Some (shard s))"
  by (cases s) (auto simp: ShardId_parse_def strip_prefix_Some_iff split_once_Some_iff)

lemma ShardId_parse_Err: "ShardId_parse t = Err e \<Longrightarrow> e = InvalidPubsubTopic t"
  by (auto simp: ShardId_parse_def bind_result_Inl_iff)

lemma ShardId_parse_pubsub_topic: "ShardId_parse (pubsub_topic s) = Ok s"
  unfolding ShardId_parse_Ok_iff pubsub_topic_def
  using parse_show_u16 show_nat_no_slash by blast

lemma pubsub_topic_inj: "pubsub_topic s = pubsub_topic s' \<Longrightarrow> s = s'"
  by (metis ShardId_parse_pubsub_topic sum.inject(2))

lemma unat_ucast_mod_u16:
  fixes v :: u64 and n :: u16
  assumes "n \<noteq> 0"
  shows "unat (ucast (v mod ucast n) :: u16) = unat v mod unat n"
proof -
  have lt: "unat n < 65536" by (rule unat_u16_less)
  have n: "take_bit 64 (unat n) = unat n"
    using lt by (simp add: take_bit_nat_eq_self)
  have "unat v mod unat n < unat n" using assms by (simp add: unat_gt_0)
  with lt have "unat v mod unat n < 65536" by simp
  then show ?thesis
    by (simp add: unsigned_ucast_eq unat_mod_distrib n take_bit_nat_eq_self)
qed

lemma autoshard_Some:
  "n \<noteq> 0 \<Longrightarrow>
   \<exists>s. autoshard sha256 cluster ct n = Some s
     \<and> ShardId.cluster_id s = cluster \<and> unat (shard s) < unat n"
  by (simp add: autoshard_def Let_def ShardId_new_def unat_ucast_mod_u16 unat_gt_0)

lemma autoshard_cong:
  "application ct = application ct' \<Longrightarrow> ContentTopic.version ct = ContentTopic.version ct' \<Longrightarrow>
   autoshard sha256 cluster ct n = autoshard sha256 cluster ct' n"
  by (simp add: autoshard_def)

lemma set_u16_upto: "set (u16_upto n) = {w. unat w < unat n}"
proof -
  have "w \<in> word_of_nat ` {0..<unat n}" if "unat w < unat n" for w :: u16
    using that by (intro image_eqI [of _ _ "unat w"]) auto
  moreover have "unat (word_of_nat k :: u16) < unat n" if "k < unat n" for k
  proof -
    have "k < 65536" using that unat_u16_less [of n] by simp
    with that show ?thesis by (simp add: unat_of_nat take_bit_nat_eq_self)
  qed
  ultimately show ?thesis by (auto simp: u16_upto_def)
qed

section \<open>Properties\<close>

text \<open>C39: a string parses as a content topic exactly when it is the rendering of four non-empty
  segments that contain no slash, and the parse gives back those segments; every other string
  is refused with the offending string as the error.\<close>

theorem content_topic_parse_spec:
  "(ContentTopic_parse s = Ok ct \<longleftrightarrow> wf_ContentTopic ct \<and> s = ContentTopic_to_string ct)
   \<and> (ContentTopic_parse s = Err e \<longleftrightarrow>
        e = InvalidContentTopic s \<and> (\<nexists>ct. wf_ContentTopic ct \<and> s = ContentTopic_to_string ct))"
proof
  show ok: "ContentTopic_parse s = Ok ct \<longleftrightarrow> wf_ContentTopic ct \<and> s = ContentTopic_to_string ct" for ct
    by (auto simp: parse_to_string dest: parse_Ok_shape)
  show "ContentTopic_parse s = Err e \<longleftrightarrow>
      e = InvalidContentTopic s \<and> (\<nexists>ct. wf_ContentTopic ct \<and> s = ContentTopic_to_string ct)"
    by (cases "ContentTopic_parse s") (auto simp flip: ok dest: ContentTopic_parse_Err)
qed

text \<open>rendering a shard as a pubsub topic and parsing the topic gives the shard back, for
  every cluster id and shard index of 16 bits; so two shards never share a topic.\<close>

lemma shard_topic_roundtrip:
  "ShardId_parse (pubsub_topic s) = Ok s \<and> inj pubsub_topic"
  by (auto simp: ShardId_parse_pubsub_topic inj_def dest: pubsub_topic_inj)

text \<open>autosharding panics only for an empty cluster; otherwise the shard it picks lies in
  the cluster it is asked for and below the shard count, and it depends on the application and
  version of the content topic only.\<close>

lemma autoshard_in_range:
  "(autoshard sha256 cluster ct n = None \<longleftrightarrow> n = 0)
   \<and> (\<forall>s. autoshard sha256 cluster ct n = Some s
        \<longrightarrow> ShardId.cluster_id s = cluster \<and> unat (shard s) < unat n)
   \<and> autoshard sha256 cluster (ct\<lparr>ContentTopic.name := x, encoding := y\<rparr>) n
       = autoshard sha256 cluster ct n"
proof (intro conjI)
  show "autoshard sha256 cluster ct n = None \<longleftrightarrow> n = 0"
    by (simp add: autoshard_def Let_def)
  show "\<forall>s. autoshard sha256 cluster ct n = Some s
      \<longrightarrow> ShardId.cluster_id s = cluster \<and> unat (shard s) < unat n"
    using autoshard_Some [of n sha256 cluster ct] by (cases "n = 0") (auto simp: autoshard_def Let_def)
qed (rule autoshard_cong, simp_all)

lemma autoshard_in_range_instance:
  "autoshard (\<lambda>_. replicate 24 0 @ [0, 0, 0, 0, 0, 0, 3, 7]) 1
     \<lparr>application = ''toychat'', version = ''2'', name = ''huilong'', encoding = ''proto''\<rparr> 8
     = Some (ShardId_new 1 7) \<and> unat (shard (ShardId_new 1 7)) < unat (8 :: u16)"
proof -
  let ?ct = "\<lparr>application = ''toychat'', version = ''2'', name = ''huilong'', encoding = ''proto''\<rparr>"
  let ?h = "\<lambda>_ :: bytes. replicate 24 0 @ [0, 0, 0, 0, 0, 0, 3, 7] :: bytes"
  have *: "autoshard ?h 1 ?ct 8 = Some (ShardId_new 1 7)"
    by (simp add: autoshard_def u64_from_be_bytes_def Let_def)
  have "\<forall>s. autoshard ?h 1 ?ct 8 = Some s
      \<longrightarrow> cluster_id s = 1 \<and> unat (shard s) < unat (8 :: u16)"
    using autoshard_in_range [of ?h 1 ?ct 8 "[]" "[]"] by (elim conjE)
  with * show ?thesis by blast
qed

text \<open>C31: two messages with the same hash agree on the topic, payload, content topic, meta and
  timestamp, when their fields have equal lengths and the same optional fields are present and
  SHA-256 has no collision at the two inputs.\<close>

theorem message_hash_binding:
  assumes "deterministic_hash sha256 t m = deterministic_hash sha256 t' m'"
    and "same_layout t m t' m'"
    and no_collision: "sha256 (hash_input t m) = sha256 (hash_input t' m')
      \<longrightarrow> hash_input t m = hash_input t' m'"
  shows "hashed_fields t m = hashed_fields t' m'"
  using assms by (simp add: deterministic_hash_def hash_input_inj)

theorem message_hash_binding_witness:
  "let m = WakuMessage_new ''/a/1/b/proto'' [1, 2];
       m' = m\<lparr>WakuMessage.version := Some 1, ephemeral := Some True\<rparr>;
       sha = (\<lambda>b. take 32 (b @ replicate 32 0))
   in m \<noteq> m' \<and> deterministic_hash sha ''/waku/2/rs/1/0'' m = deterministic_hash sha ''/waku/2/rs/1/0'' m'
      \<and> hashed_fields ''/waku/2/rs/1/0'' m = hashed_fields ''/waku/2/rs/1/0'' m'"
proof -
  let ?m = "WakuMessage_new ''/a/1/b/proto'' [1, 2]"
  let ?m' = "?m\<lparr>WakuMessage.version := Some 1, ephemeral := Some True\<rparr>"
  let ?sha = "\<lambda>b :: bytes. take 32 (b @ replicate 32 0)"
  let ?t = "''/waku/2/rs/1/0''"
  have eq: "hash_input ?t ?m = hash_input ?t ?m'"
    by (simp add: hash_input_def WakuMessage_new_def)
  have h: "deterministic_hash ?sha ?t ?m = deterministic_hash ?sha ?t ?m'"
    unfolding deterministic_hash_def eq ..
  have "same_layout ?t ?m ?t ?m'"
    by (simp add: same_layout_def WakuMessage_new_def)
  from message_hash_binding [OF h this] eq have "hashed_fields ?t ?m = hashed_fields ?t ?m'"
    by blast
  with h show ?thesis by (simp add: WakuMessage_new_def)
qed

text \<open>the hash does not delimit its fields. Moving a byte between the payload and the content
  topic, replacing an absent \<open>meta\<close> by an empty one, or replacing a timestamp by an eight-byte
  \<open>meta\<close> gives a different message with the same hash, whatever the hash function.\<close>

lemma message_hash_field_boundaries:
  "deterministic_hash sha256 t (WakuMessage_new ct (p @ as_bytes c))
     = deterministic_hash sha256 t (WakuMessage_new (c @ ct) p)
   \<and> deterministic_hash sha256 t (m\<lparr>meta := Some []\<rparr>) = deterministic_hash sha256 t (m\<lparr>meta := None\<rparr>)
   \<and> deterministic_hash sha256 t (m\<lparr>meta := None, timestamp := Some ts\<rparr>)
       = deterministic_hash sha256 t (m\<lparr>meta := Some (u64_to_be_bytes ts), timestamp := None\<rparr>)"
  by (simp add: deterministic_hash_def hash_input_def WakuMessage_new_def)

end
