(* ===== verification/Relay_Shards.thy ===== *)
theory Relay_Shards
  imports Waku_Core
begin

text \<open>
  The crate \<open>waku-enr\<close>: the relay-shards descriptor of an ENR and its two wire forms, the
  indices list (\<open>rs\<close>) and the bit vector (\<open>rsv\<close>). The locale \<open>shards_codec\<close> is the contract
  the two forms share; both are interpretations of it.
\<close>

section \<open>Definitions\<close>

definition BIT_VECTOR_SHARDS :: nat where "BIT_VECTOR_SHARDS = 1024"
definition BIT_VECTOR_BYTES :: nat where "BIT_VECTOR_BYTES = BIT_VECTOR_SHARDS div 8"

datatype EnrError =
    TooShort nat
  | IndicesLengthMismatch nat nat
  | BitVectorLength nat nat
  | ShardOutOfRange u16
  | TooManyShards nat

record RelayShards =
  cluster_id :: u16
  shards :: "u16 list"

definition RelayShards_new :: "u16 \<Rightarrow> u16 list \<Rightarrow> RelayShards" where
  "RelayShards_new c ss = \<lparr>cluster_id = c, shards = remdups_adj (sort ss)\<rparr>"

definition shard_ids :: "RelayShards \<Rightarrow> ShardId list" where
  "shard_ids rs = map (\<lambda>s. ShardId_new (cluster_id rs) s) (shards rs)"

definition contains :: "RelayShards \<Rightarrow> u16 \<Rightarrow> u16 \<Rightarrow> bool" where
  "contains rs c s \<longleftrightarrow> cluster_id rs = c \<and> s \<in> set (shards rs)"

definition to_indices_list :: "RelayShards \<Rightarrow> (EnrError, bytes) result" where
  "to_indices_list rs =
     (if length (shards rs) > 255 then Err (TooManyShards (length (shards rs)))
      else Ok (u16_to_be_bytes (cluster_id rs) @ [word_of_nat (length (shards rs))]
               @ concat (map u16_to_be_bytes (shards rs))))"

text \<open>\<open>chunks_exact(2)\<close>: a trailing odd byte is dropped.\<close>

fun chunks_exact2 :: "bytes \<Rightarrow> (u8 \<times> u8) list" where
  "chunks_exact2 (a # b # bs) = (a, b) # chunks_exact2 bs"
| "chunks_exact2 _ = []"

definition from_indices_list :: "bytes \<Rightarrow> (EnrError, RelayShards) result" where
  "from_indices_list bs =
     (if length bs < 3 then Err (TooShort (length bs))
      else let c = u16_from_be_bytes (bs ! 0) (bs ! 1);
               count = unat (bs ! 2);
               expected = 3 + count * 2
           in if length bs \<noteq> expected then Err (IndicesLengthMismatch expected (length bs))
              else Ok \<lparr>cluster_id = c,
                       shards = map (\<lambda>(a, b). u16_from_be_bytes a b) (chunks_exact2 (drop 3 bs))\<rparr>)"

text \<open>The loop of \<open>to_bit_vector\<close> over the shards, on the output vector.\<close>

fun set_shard_bits :: "u16 list \<Rightarrow> bytes \<Rightarrow> (EnrError, bytes) result" where
  "set_shard_bits [] out = Ok out"
| "set_shard_bits (s # ss) out =
     (let idx = unat s; i = 2 + idx div 8
      in if idx \<ge> BIT_VECTOR_SHARDS then Err (ShardOutOfRange s)
         else set_shard_bits ss (out[i := out ! i OR push_bit (7 - idx mod 8) 1]))"

definition to_bit_vector :: "RelayShards \<Rightarrow> (EnrError, bytes) result" where
  "to_bit_vector rs =
     set_shard_bits (shards rs) (u16_to_be_bytes (cluster_id rs) @ replicate BIT_VECTOR_BYTES 0)"

definition from_bit_vector :: "bytes \<Rightarrow> (EnrError, RelayShards) result" where
  "from_bit_vector bs =
     (if length bs \<noteq> 2 + BIT_VECTOR_BYTES
      then Err (BitVectorLength (2 + BIT_VECTOR_BYTES) (length bs))
      else Ok \<lparr>cluster_id = u16_from_be_bytes (bs ! 0) (bs ! 1),
               shards = map word_of_nat
                 (filter (\<lambda>idx. bs ! (2 + idx div 8) AND push_bit (7 - idx mod 8) 1 \<noteq> 0)
                   [0..<BIT_VECTOR_SHARDS])\<rparr>)"

section \<open>The contract of a wire form\<close>

locale shards_codec =
  fixes enc :: "RelayShards \<Rightarrow> (EnrError, bytes) result"
    and dec :: "bytes \<Rightarrow> (EnrError, RelayShards) result"
    and valid :: "RelayShards \<Rightarrow> bool"
  assumes enc_total: "valid rs \<Longrightarrow> \<exists>b. enc rs = Ok b"
    and dec_enc: "valid rs \<Longrightarrow> enc rs = Ok b \<Longrightarrow> dec b = Ok rs"
    and enc_dec: "dec b = Ok rs \<Longrightarrow> enc rs = Ok b"
    and dec_valid: "dec b = Ok rs \<Longrightarrow> valid rs"
begin

lemma dec_iff: "dec b = Ok rs \<longleftrightarrow> valid rs \<and> enc rs = Ok b"
  using dec_enc enc_dec dec_valid by blast

lemma enc_inj: "valid rs \<Longrightarrow> valid rs' \<Longrightarrow> enc rs = enc rs' \<Longrightarrow> rs = rs'"
  by (metis dec_enc enc_total sum.inject(2))

lemma dec_canonical: "dec b = Ok rs \<Longrightarrow> dec b' = Ok rs \<Longrightarrow> b = b'"
  by (metis enc_dec sum.inject(2))

end

section \<open>Lemmas: descriptors\<close>

lemma set_RelayShards_new [simp]: "set (shards (RelayShards_new c ss)) = set ss"
  by (simp add: RelayShards_new_def)

lemma cluster_RelayShards_new [simp]: "cluster_id (RelayShards_new c ss) = c"
  by (simp add: RelayShards_new_def)

lemma sorted_remdups_adj_distinct:
  "sorted (xs :: 'a :: linorder list) \<Longrightarrow> distinct (remdups_adj xs)"
  by (induction xs rule: remdups_adj.induct) (auto simp: less_le order_antisym)

lemma RelayShards_new_sorted: "sorted (shards (RelayShards_new c ss))"
  by (simp add: RelayShards_new_def sorted_remdups_adj)

lemma RelayShards_new_distinct: "distinct (shards (RelayShards_new c ss))"
  by (simp add: RelayShards_new_def sorted_remdups_adj_distinct)

lemma length_RelayShards_new: "length (shards (RelayShards_new c ss)) = card (set ss)"
  using distinct_card [OF RelayShards_new_distinct, of c ss] by simp

section \<open>Lemmas: the indices list\<close>

definition valid_indices :: "RelayShards \<Rightarrow> bool" where
  "valid_indices rs \<longleftrightarrow> length (shards rs) \<le> 255"

lemma chunks_exact2_concat:
  "map (\<lambda>(a, b). u16_from_be_bytes a b) (chunks_exact2 (concat (map u16_to_be_bytes ss))) = ss"
  by (induction ss) (simp_all add: u16_to_be_bytes_def u16_be_roundtrip)

lemma concat_chunks_exact2:
  "even (length bs) \<Longrightarrow>
   concat (map u16_to_be_bytes (map (\<lambda>(a, b). u16_from_be_bytes a b) (chunks_exact2 bs))) = bs"
  by (induction bs rule: chunks_exact2.induct) (simp_all add: u16_from_to_be_bytes)

lemma length_concat_u16: "length (concat (map u16_to_be_bytes ss)) = 2 * length ss"
  by (induction ss) simp_all

lemma length_chunks_exact2: "length (chunks_exact2 bs) = length bs div 2"
  by (induction bs rule: chunks_exact2.induct) simp_all

lemma to_indices_list_Ok:
  "valid_indices rs \<Longrightarrow> to_indices_list rs =
     Ok (u16_to_be_bytes (cluster_id rs) @ word_of_nat (length (shards rs))
         # concat (map u16_to_be_bytes (shards rs)))"
  by (simp add: to_indices_list_def valid_indices_def)

lemma from_to_indices_list:
  assumes "valid_indices rs" and "to_indices_list rs = Ok b"
  shows "from_indices_list b = Ok rs"
proof -
  let ?n = "length (shards rs)"
  have n: "unat (word_of_nat ?n :: u8) = ?n"
    using assms(1) by (simp add: valid_indices_def unat_of_nat take_bit_nat_eq_self)
  have b: "b = ucast (drop_bit 8 (cluster_id rs)) # ucast (cluster_id rs)
      # word_of_nat ?n # concat (map u16_to_be_bytes (shards rs))"
    using assms by (simp add: to_indices_list_Ok u16_to_be_bytes_def)
  show ?thesis
    by (cases rs)
      (use n in \<open>simp add: b from_indices_list_def Let_def length_concat_u16 chunks_exact2_concat
        u16_be_roundtrip\<close>)
qed

lemma to_from_indices_list:
  assumes "from_indices_list b = Ok rs"
  shows "valid_indices rs \<and> to_indices_list rs = Ok b"
proof -
  from assms have len: "length b = 3 + unat (b ! 2) * 2"
    and rs: "rs = \<lparr>cluster_id = u16_from_be_bytes (b ! 0) (b ! 1),
        shards = map (\<lambda>(a, b). u16_from_be_bytes a b) (chunks_exact2 (drop 3 b))\<rparr>"
    by (simp_all add: from_indices_list_def Let_def split: if_splits)
  from len obtain a0 a1 a2 r where b: "b = a0 # a1 # a2 # r"
    by (cases b; cases "tl b"; cases "tl (tl b)") auto
  have r: "length r = 2 * unat a2" using len b by simp
  then have n: "length (shards rs) = unat a2"
    by (simp add: rs b length_chunks_exact2)
  then have "valid_indices rs"
    using unat_u8_less [of a2] by (simp add: valid_indices_def)
  moreover have "concat (map u16_to_be_bytes (shards rs)) = r"
    using r by (simp add: rs b concat_chunks_exact2 del: map_map)
  ultimately show ?thesis
    using n by (simp add: to_indices_list_Ok) (simp add: rs b u16_from_to_be_bytes)
qed

interpretation rs: shards_codec to_indices_list from_indices_list valid_indices
  by unfold_locales
    (auto simp: to_indices_list_Ok from_to_indices_list dest: to_from_indices_list)

section \<open>Lemmas: the bit vector\<close>

definition valid_bits :: "RelayShards \<Rightarrow> bool" where
  "valid_bits rs \<longleftrightarrow>
     sorted (shards rs) \<and> distinct (shards rs) \<and> (\<forall>s \<in> set (shards rs). unat s < BIT_VECTOR_SHARDS)"

text \<open>Bit \<open>idx\<close> of the vector, counted from the most significant bit of the third byte.\<close>

definition vbit :: "bytes \<Rightarrow> nat \<Rightarrow> bool" where
  "vbit out idx \<longleftrightarrow> bit (out ! (2 + idx div 8)) (7 - idx mod 8)"

lemma from_bit_vector_alt:
  "length bs = 2 + BIT_VECTOR_BYTES \<Longrightarrow> from_bit_vector bs =
     Ok \<lparr>cluster_id = u16_from_be_bytes (bs ! 0) (bs ! 1),
         shards = map word_of_nat (filter (vbit bs) [0..<BIT_VECTOR_SHARDS])\<rparr>"
  by (simp add: from_bit_vector_def and_exp_eq_0_iff_not_bit vbit_def [abs_def])

lemma eight_decomp: "(a :: nat) div 8 = b div 8 \<Longrightarrow> 7 - a mod 8 = 7 - b mod 8 \<Longrightarrow> a = b"
proof -
  assume d: "a div 8 = b div 8" and m: "7 - a mod 8 = 7 - b mod 8"
  have "a mod 8 < 8" "b mod 8 < 8" by simp_all
  with m have "a mod 8 = b mod 8" by arith
  with d show "a = b" by (metis div_mult_mod_eq)
qed

lemma vbit_set:
  assumes "length out = 2 + BIT_VECTOR_BYTES" and "s < BIT_VECTOR_SHARDS"
  shows "vbit (out[2 + s div 8 := out ! (2 + s div 8) OR push_bit (7 - s mod 8) 1]) idx
     \<longleftrightarrow> vbit out idx \<or> idx = s"
proof (cases "idx div 8 = s div 8")
  case True
  have "2 + s div 8 < length out"
    using assms by (simp add: BIT_VECTOR_BYTES_def BIT_VECTOR_SHARDS_def less_mult_imp_div_less)
  moreover have "bit (push_bit (7 - s mod 8) 1 :: u8) (7 - idx mod 8) \<longleftrightarrow> 7 - idx mod 8 = 7 - s mod 8"
    by (auto simp: bit_exp_iff)
  moreover have "7 - idx mod 8 = 7 - s mod 8 \<longleftrightarrow> idx = s"
    using eight_decomp [OF True] by blast
  ultimately show ?thesis using True by (simp add: vbit_def bit_or_iff)
next
  case False
  then have "2 + idx div 8 \<noteq> 2 + s div 8" "idx \<noteq> s" by auto
  then show ?thesis by (simp add: vbit_def)
qed

lemma set_shard_bits_spec:
  assumes "length out = 2 + BIT_VECTOR_BYTES" and "\<forall>s \<in> set ss. unat s < BIT_VECTOR_SHARDS"
  shows "\<exists>out'. set_shard_bits ss out = Ok out' \<and> length out' = length out
     \<and> take 2 out' = take 2 out
     \<and> (\<forall>idx. vbit out' idx \<longleftrightarrow> vbit out idx \<or> idx \<in> unat ` set ss)"
  using assms
proof (induction ss arbitrary: out)
  case Nil
  then show ?case by simp
next
  case (Cons s ss)
  let ?o = "out[2 + unat s div 8 := out ! (2 + unat s div 8) OR push_bit (7 - unat s mod 8) 1]"
  have s: "unat s < BIT_VECTOR_SHARDS" using Cons.prems by simp
  have "length ?o = 2 + BIT_VECTOR_BYTES" using Cons.prems(1) by simp
  moreover have "take 2 ?o = take 2 out" by simp
  moreover note Cons.IH [of ?o] Cons.prems(2) vbit_set [OF Cons.prems(1) s]
  ultimately show ?case using s Cons.prems(1) by (auto simp: Let_def)
qed

lemma set_shard_bits_Err:
  "set_shard_bits ss out = Err e \<longleftrightarrow>
     (\<exists>s. find (\<lambda>s. unat s \<ge> BIT_VECTOR_SHARDS) ss = Some s \<and> e = ShardOutOfRange s)"
  by (induction ss arbitrary: out) (auto simp: Let_def)

lemma vbit_init: "length a = 2 \<Longrightarrow> idx < BIT_VECTOR_SHARDS \<Longrightarrow> \<not> vbit (a @ replicate BIT_VECTOR_BYTES 0) idx"
  by (simp add: vbit_def nth_append BIT_VECTOR_BYTES_def BIT_VECTOR_SHARDS_def less_mult_imp_div_less)

lemma to_bit_vector_spec:
  assumes "\<forall>s \<in> set (shards rs). unat s < BIT_VECTOR_SHARDS"
  shows "\<exists>b. to_bit_vector rs = Ok b \<and> length b = 2 + BIT_VECTOR_BYTES
     \<and> take 2 b = u16_to_be_bytes (cluster_id rs)
     \<and> (\<forall>idx < BIT_VECTOR_SHARDS. vbit b idx \<longleftrightarrow> idx \<in> unat ` set (shards rs))"
  using set_shard_bits_spec [of "u16_to_be_bytes (cluster_id rs) @ replicate BIT_VECTOR_BYTES 0" "shards rs"]
    assms vbit_init
  by (auto simp: to_bit_vector_def)

lemma inj_word_of_nat_1024: "inj_on (word_of_nat :: nat \<Rightarrow> u16) {0..<BIT_VECTOR_SHARDS}"
  by (rule inj_on_inverseI [where g = unat]) (simp add: BIT_VECTOR_SHARDS_def unat_word_of_nat_u16)

lemma sorted_word_of_nat_filter:
  "sorted (map (word_of_nat :: nat \<Rightarrow> u16) (filter P [0..<BIT_VECTOR_SHARDS]))"
proof -
  have "sorted_wrt (<) (filter P [0..<BIT_VECTOR_SHARDS])"
    by (simp add: sorted_wrt_filter)
  then have "sorted_wrt (\<lambda>x y. (word_of_nat x :: u16) \<le> word_of_nat y) (filter P [0..<BIT_VECTOR_SHARDS])"
    by (rule sorted_wrt_mono_rel [rotated])
      (auto simp: word_le_nat_alt unat_word_of_nat_u16 BIT_VECTOR_SHARDS_def)
  then show ?thesis by (simp add: sorted_map)
qed

lemma distinct_word_of_nat_filter:
  "distinct (map (word_of_nat :: nat \<Rightarrow> u16) (filter P [0..<BIT_VECTOR_SHARDS]))"
  unfolding distinct_map by (auto intro: inj_on_subset [OF inj_word_of_nat_1024])

lemma unat_word_of_nat_filter:
  "s \<in> set (map (word_of_nat :: nat \<Rightarrow> u16) (filter P [0..<BIT_VECTOR_SHARDS])) \<Longrightarrow>
   unat s < BIT_VECTOR_SHARDS"
  by (auto simp: unat_word_of_nat_u16 BIT_VECTOR_SHARDS_def)

lemma from_bit_vector_valid:
  assumes "from_bit_vector b = Ok rs"
  shows "valid_bits rs"
proof -
  from assms obtain P where "shards rs = map word_of_nat (filter P [0..<BIT_VECTOR_SHARDS])"
    by (auto simp: from_bit_vector_def split: if_splits)
  then show ?thesis
    unfolding valid_bits_def
    using sorted_word_of_nat_filter distinct_word_of_nat_filter unat_word_of_nat_filter by metis
qed

lemma bytes_eq_by_vbit:
  assumes "length a = 2 + BIT_VECTOR_BYTES" and "length b = 2 + BIT_VECTOR_BYTES"
    and "take 2 a = take 2 b" and "\<And>idx. idx < BIT_VECTOR_SHARDS \<Longrightarrow> vbit a idx \<longleftrightarrow> vbit b idx"
  shows "a = b"
proof (rule nth_equalityI)
  show "length a = length b" using assms by simp
  fix i
  assume i: "i < length a"
  show "a ! i = b ! i"
  proof (cases "i < 2")
    case True
    then show ?thesis using assms(3) by (metis nth_take)
  next
    case False
    show ?thesis
    proof (rule bit_word_eqI)
      fix n
      assume "n < LENGTH(8)"
      then have "n < 8" by simp
      then obtain m where m: "m < 8" "n = 7 - m" by (intro that [of "7 - n"]) auto
      let ?idx = "8 * (i - 2) + m"
      have "2 + ?idx div 8 = i" "7 - ?idx mod 8 = n" using m False by auto
      moreover have "?idx < BIT_VECTOR_SHARDS"
        using i m assms(1) False by (auto simp: BIT_VECTOR_BYTES_def BIT_VECTOR_SHARDS_def)
      ultimately show "bit (a ! i) n = bit (b ! i) n"
        using assms(4) [of ?idx] unfolding vbit_def by metis
    qed
  qed
qed

lemma cluster_from_take_2:
  "take 2 b = u16_to_be_bytes c \<Longrightarrow> u16_from_be_bytes (b ! 0) (b ! 1) = c"
  by (cases b; cases "tl b") (auto simp: u16_to_be_bytes_def u16_be_roundtrip)

lemma take_2_cluster:
  "2 \<le> length b \<Longrightarrow> u16_to_be_bytes (u16_from_be_bytes (b ! 0) (b ! 1)) = take 2 b"
  by (cases b; cases "tl b") (auto simp: u16_from_to_be_bytes)

lemma from_to_bit_vector:
  assumes "valid_bits rs" and "to_bit_vector rs = Ok b"
  shows "from_bit_vector b = Ok rs"
proof -
  have lt: "\<forall>s \<in> set (shards rs). unat s < BIT_VECTOR_SHARDS"
    using assms(1) by (simp add: valid_bits_def)
  from to_bit_vector_spec [OF lt] assms(2) have len: "length b = 2 + BIT_VECTOR_BYTES"
    and c: "take 2 b = u16_to_be_bytes (cluster_id rs)"
    and bits: "\<forall>idx < BIT_VECTOR_SHARDS. vbit b idx \<longleftrightarrow> idx \<in> unat ` set (shards rs)"
    by simp_all
  let ?ss = "map word_of_nat (filter (vbit b) [0..<BIT_VECTOR_SHARDS]) :: u16 list"
  have "{idx. idx < BIT_VECTOR_SHARDS \<and> vbit b idx} = unat ` set (shards rs)"
    using bits lt by auto
  then have "set ?ss = word_of_nat ` unat ` set (shards rs)"
    by (simp add: set_filter Collect_conj_eq [symmetric])
  then have "set ?ss = set (shards rs)" by (simp add: image_image)
  then have "?ss = shards rs"
    using assms(1) sorted_word_of_nat_filter distinct_word_of_nat_filter
    by (intro sorted_distinct_set_unique) (auto simp: valid_bits_def simp del: distinct_map)
  then show ?thesis
    using len cluster_from_take_2 [OF c] by (cases rs) (simp add: from_bit_vector_alt)
qed

lemma to_from_bit_vector:
  assumes "from_bit_vector b = Ok rs"
  shows "to_bit_vector rs = Ok b"
proof -
  from assms have len: "length b = 2 + BIT_VECTOR_BYTES"
    by (simp add: from_bit_vector_def split: if_splits)
  with assms have rs: "rs = \<lparr>cluster_id = u16_from_be_bytes (b ! 0) (b ! 1),
      shards = map word_of_nat (filter (vbit b) [0..<BIT_VECTOR_SHARDS])\<rparr>"
    by (simp add: from_bit_vector_alt)
  have "\<forall>s \<in> set (shards rs). unat s < BIT_VECTOR_SHARDS"
    using from_bit_vector_valid [OF assms] by (simp add: valid_bits_def)
  then obtain b' where b': "to_bit_vector rs = Ok b'" "length b' = 2 + BIT_VECTOR_BYTES"
    "take 2 b' = u16_to_be_bytes (cluster_id rs)"
    and bits: "\<forall>idx < BIT_VECTOR_SHARDS. vbit b' idx \<longleftrightarrow> idx \<in> unat ` set (shards rs)"
    using to_bit_vector_spec by blast
  have "idx \<in> unat ` set (shards rs) \<longleftrightarrow> vbit b idx" if "idx < BIT_VECTOR_SHARDS" for idx
    using that by (force simp: rs unat_word_of_nat_u16 BIT_VECTOR_SHARDS_def image_iff)
  with bits have same: "vbit b' idx \<longleftrightarrow> vbit b idx" if "idx < BIT_VECTOR_SHARDS" for idx
    using that by blast
  have "take 2 b' = take 2 b"
    using b'(3) len take_2_cluster [of b] by (simp add: rs)
  from bytes_eq_by_vbit [OF b'(2) len this same] have "b' = b" .
  with b'(1) show ?thesis by simp
qed

interpretation rsv: shards_codec to_bit_vector from_bit_vector valid_bits
proof unfold_locales
  fix rs b
  show "valid_bits rs \<Longrightarrow> \<exists>b. to_bit_vector rs = Ok b"
    using to_bit_vector_spec [of rs] unfolding valid_bits_def by blast
qed (fact from_to_bit_vector to_from_bit_vector from_bit_vector_valid)+

section \<open>Properties\<close>

text \<open>C38: the indices list is a bijection between the descriptors of at most 255 shards and the
  byte strings the decoder accepts: decoding gives a descriptor exactly when that descriptor
  encodes to the bytes. The encoder fails, with the shard count, exactly on longer descriptors.\<close>

theorem indices_list_codec:
  "(from_indices_list b = Ok rs \<longleftrightarrow> length (shards rs) \<le> 255 \<and> to_indices_list rs = Ok b)
   \<and> (to_indices_list rs = Err e \<longleftrightarrow>
        length (shards rs) > 255 \<and> e = TooManyShards (length (shards rs)))"
  using rs.dec_iff [of b rs] by (auto simp: valid_indices_def to_indices_list_def)

text \<open>the bit vector is a bijection between the sorted duplicate-free descriptors of shards
  below 1024 and the byte strings of length 130: every such string decodes, and decoding gives
  a descriptor exactly when that descriptor is canonical and encodes to the bytes.\<close>

lemma bit_vector_codec:
  "(from_bit_vector b = Ok rs \<longleftrightarrow> valid_bits rs \<and> to_bit_vector rs = Ok b)
   \<and> ((\<exists>rs. from_bit_vector b = Ok rs) \<longleftrightarrow> length b = 130)
   \<and> (to_bit_vector rs = Err e \<longleftrightarrow>
        (\<exists>s. find (\<lambda>s. unat s \<ge> 1024) (shards rs) = Some s \<and> e = ShardOutOfRange s))"
proof (intro conjI)
  show "from_bit_vector b = Ok rs \<longleftrightarrow> valid_bits rs \<and> to_bit_vector rs = Ok b"
    by (rule rsv.dec_iff)
  show "(\<exists>rs. from_bit_vector b = Ok rs) \<longleftrightarrow> length b = 130"
    by (simp add: from_bit_vector_def BIT_VECTOR_BYTES_def BIT_VECTOR_SHARDS_def)
  show "to_bit_vector rs = Err e \<longleftrightarrow>
      (\<exists>s. find (\<lambda>s. unat s \<ge> 1024) (shards rs) = Some s \<and> e = ShardOutOfRange s)"
    unfolding to_bit_vector_def set_shard_bits_Err by (simp add: BIT_VECTOR_SHARDS_def)
qed

text \<open>a descriptor built by \<open>RelayShards::new\<close> from at most 255 distinct shards below 1024
  survives both wire forms, and both decode to the same descriptor, whose shards are the given
  ones, sorted and without duplicates.\<close>

lemma both_forms_agree:
  assumes "card (set ss) \<le> 255" and "\<forall>s \<in> set ss. unat s < 1024"
  shows "\<exists>b v. to_indices_list (RelayShards_new c ss) = Ok b
     \<and> to_bit_vector (RelayShards_new c ss) = Ok v
     \<and> from_indices_list b = Ok (RelayShards_new c ss)
     \<and> from_bit_vector v = Ok (RelayShards_new c ss)
     \<and> set (shards (RelayShards_new c ss)) = set ss
     \<and> sorted_wrt (<) (shards (RelayShards_new c ss))"
proof -
  let ?r = "RelayShards_new c ss"
  have vi: "valid_indices ?r" using assms(1) by (simp add: valid_indices_def length_RelayShards_new)
  have vb: "valid_bits ?r"
    using assms(2) RelayShards_new_sorted RelayShards_new_distinct
    by (simp add: valid_bits_def BIT_VECTOR_SHARDS_def)
  have "sorted_wrt (<) (shards ?r)"
    using RelayShards_new_sorted RelayShards_new_distinct by (simp add: strict_sorted_iff)
  with rs.enc_total [OF vi] rs.dec_enc [OF vi] rsv.enc_total [OF vb] rsv.dec_enc [OF vb]
  show ?thesis by fastforce
qed

lemma both_forms_agree_instance:
  "\<exists>b v. to_indices_list (RelayShards_new 1 [7, 1, 7, 0]) = Ok b
     \<and> to_bit_vector (RelayShards_new 1 [7, 1, 7, 0]) = Ok v
     \<and> from_indices_list b = from_bit_vector v
     \<and> shards (RelayShards_new 1 [7, 1, 7, 0]) = [0, 1, 7]"
proof -
  have "card (set [7, 1, 7, 0 :: u16]) \<le> 255"
    by (rule order_trans [OF card_length]) simp
  moreover have "\<forall>s \<in> set [7, 1, 7, 0 :: u16]. unat s < 1024" by simp
  ultimately obtain b v where "to_indices_list (RelayShards_new 1 [7, 1, 7, 0]) = Ok b"
    "to_bit_vector (RelayShards_new 1 [7, 1, 7, 0]) = Ok v"
    "from_indices_list b = from_bit_vector v"
    using both_forms_agree [of "[7, 1, 7, 0]" 1] by force
  moreover have "shards (RelayShards_new 1 [7, 1, 7, 0]) = [0, 1, 7]"
    by (simp add: RelayShards_new_def word_le_nat_alt)
  ultimately show ?thesis by blast
qed

end
