(* ===== verification/Lp_Frame.thy ===== *)
theory Lp_Frame
  imports Waku_Prelude "HOL-Library.Sublist"
begin

text \<open>
  Length-prefixed framing. Every service crate carries its own copy of \<open>read_uvarint\<close>,
  \<open>write_uvarint\<close>, \<open>read_lp\<close> and \<open>write_lp\<close>; the copies differ in the frame limit and in
  the text of one error only, which are arguments here, and each crate's theory instantiates
  them. A stream is the list of the bytes that are still to be read; writing returns the bytes
  written. The locale \<open>lp_framing\<close> is what the codecs rely on.
\<close>

section \<open>Definitions\<close>

datatype IoErrorKind = UnexpectedEof | InvalidData
datatype IoError = IoError IoErrorKind string

text \<open>\<open>AsyncReadExt::read_exact\<close> on a stream that ends after the given bytes.\<close>

definition read_exact :: "nat \<Rightarrow> bytes \<Rightarrow> (IoError, bytes \<times> bytes) result" where
  "read_exact n io =
     (if length io < n then Err (IoError UnexpectedEof ''failed to fill whole buffer'')
      else Ok (take n io, drop n io))"

text \<open>
  The loop of \<open>read_uvarint\<close>, with \<open>value\<close> and \<open>shift\<close> as its variables. It reads one byte
  per round, so it recurses on the stream.
\<close>

fun read_uvarint_loop :: "u64 \<Rightarrow> nat \<Rightarrow> bytes \<Rightarrow> (IoError, u64 \<times> bytes) result" where
  "read_uvarint_loop value shift [] = Err (IoError UnexpectedEof ''failed to fill whole buffer'')"
| "read_uvarint_loop value shift (b # io) =
     (let value' = value OR push_bit shift (ucast (b AND 0x7f));
          shift' = shift + 7
      in if b AND 0x80 = 0 then Ok (value', io)
         else if shift' \<ge> 64 then Err (IoError InvalidData ''varint overflow'')
         else read_uvarint_loop value' shift' io)"

definition read_uvarint :: "bytes \<Rightarrow> (IoError, u64 \<times> bytes) result" where
  "read_uvarint io = read_uvarint_loop 0 0 io"

text \<open>
  The loop of \<open>write_uvarint\<close> on the ten-byte buffer; \<^const>\<open>None\<close> is the panic of an index out
  of range.
\<close>

function write_uvarint_loop :: "bytes \<Rightarrow> nat \<Rightarrow> u64 \<Rightarrow> (bytes \<times> nat) option" where
  "write_uvarint_loop buf i v =
     (let byte = ucast (v AND 0x7f) :: u8;
          v' = drop_bit 7 v;
          byte' = (if v' \<noteq> 0 then byte OR 0x80 else byte)
      in if i \<ge> length buf then None
         else if v' = 0 then Some (buf[i := byte'], i + 1)
         else write_uvarint_loop (buf[i := byte']) (i + 1) v')"
  by pat_completeness auto
termination
  by (relation "measure (\<lambda>(buf, i, v). length buf - i)") auto

declare write_uvarint_loop.simps [simp del]

definition write_uvarint :: "bytes \<Rightarrow> u64 \<Rightarrow> (bytes \<times> nat) option" where
  "write_uvarint buf v = write_uvarint_loop buf 0 v"

definition read_lp :: "nat \<Rightarrow> string \<Rightarrow> bytes \<Rightarrow> (IoError, bytes \<times> bytes) result" where
  "read_lp max_frame_len err io =
     bind_result (read_uvarint io) (\<lambda>(len, io').
       if unat len > max_frame_len then Err (IoError InvalidData err)
       else read_exact (unat len) io')"

definition write_lp :: "bytes \<Rightarrow> bytes option" where
  "write_lp data =
     (case write_uvarint (replicate 10 0) (word_of_nat (length data)) of
        None \<Rightarrow> None
      | Some (pfx, n) \<Rightarrow> Some (take n pfx @ data))"

text \<open>
  The codecs: a frame that does not decode is \<open>InvalidData\<close>; \<open>decode\<close> and \<open>encode\<close> are the
  protobuf functions \<open>prost\<close> derives.
\<close>

definition read_message ::
  "(bytes \<Rightarrow> (IoError, bytes \<times> bytes) result) \<Rightarrow> (bytes \<Rightarrow> (string, 'm) result) \<Rightarrow> bytes
    \<Rightarrow> (IoError, 'm \<times> bytes) result" where
  "read_message rd decode io =
     bind_result (rd io) (\<lambda>(frame, io').
       bind_result (map_err (IoError InvalidData) (decode frame)) (\<lambda>m. Ok (m, io')))"

definition write_message :: "(bytes \<Rightarrow> bytes option) \<Rightarrow> ('m \<Rightarrow> bytes) \<Rightarrow> 'm \<Rightarrow> bytes option" where
  "write_message wr encode m = wr (encode m)"

section \<open>The reference encoding\<close>

text \<open>The number a group of LEB128 bytes stands for, least significant group first.\<close>

fun leb_value :: "bytes \<Rightarrow> nat" where
  "leb_value [] = 0"
| "leb_value (b # bs) = unat b mod 128 + 128 * leb_value bs"

fun uvarint_bytes :: "nat \<Rightarrow> bytes" where
  "uvarint_bytes n =
     (if n < 128 then [word_of_nat n] else word_of_nat (128 + n mod 128) # uvarint_bytes (n div 128))"

declare uvarint_bytes.simps [simp del]

definition is_cont :: "u8 \<Rightarrow> bool" where
  "is_cont b \<longleftrightarrow> unat b \<ge> 128"

section \<open>Lemmas: bytes of a varint\<close>

lemma and_0x80: "b AND 0x80 = 0 \<longleftrightarrow> \<not> is_cont b" for b :: u8
proof -
  have "b AND 0x80 = 0 \<longleftrightarrow> \<not> bit b 7"
    using and_exp_eq_0_iff_not_bit [of b 7] by simp
  also have "bit b 7 \<longleftrightarrow> bit (unat b) 7" by (simp add: bit_simps)
  also have "\<dots> \<longleftrightarrow> odd (unat b div 128)" by (simp add: bit_iff_odd)
  also have "\<dots> \<longleftrightarrow> is_cont b"
  proof (cases "is_cont b")
    case True
    then have "unat b div 128 = 1"
      using unat_u8_less [of b] by (intro div_nat_eqI) (auto simp: is_cont_def)
    with True show ?thesis by simp
  qed (simp add: is_cont_def)
  finally show ?thesis .
qed

lemma unat_and_0x7f_u8: "unat (b AND 0x7f) = unat b mod 128" for b :: u8
proof -
  have "b AND 0x7f = take_bit 7 b"
    by (simp add: take_bit_eq_mask mask_numeral)
  then show ?thesis by (simp add: take_bit_eq_mod unat_mod_distrib)
qed

lemma unat_and_0x7f_u64: "unat (v AND 0x7f) = unat v mod 128" for v :: u64
proof -
  have "v AND 0x7f = take_bit 7 v"
    by (simp add: take_bit_eq_mask mask_numeral)
  then show ?thesis by (simp add: take_bit_eq_mod unat_mod_distrib)
qed

lemma unat_drop_bit_7: "unat (drop_bit 7 v) = unat v div 128" for v :: u64
  by (simp add: drop_bit_eq_div unat_div_distrib)

lemma low_group: "(ucast (v AND 0x7f) :: u8) = word_of_nat (unat v mod 128)" for v :: u64
proof -
  have "unat v mod 128 < 128" by simp
  then have "unat (ucast (v AND 0x7f) :: u8) = unat (word_of_nat (unat v mod 128) :: u8)"
    by (simp add: unsigned_ucast_eq unat_and_0x7f_u64 unat_word_of_nat_u8 take_bit_nat_eq_self
        del: unsigned_and_eq)
  then show ?thesis by (rule unsigned_word_eqI)
qed

lemma low_group_cont:
  "(ucast (v AND 0x7f) OR 0x80 :: u8) = word_of_nat (128 + unat v mod 128)" for v :: u64
proof -
  let ?b = "word_of_nat (unat v mod 128) :: u8"
  have "unat v mod 128 < 128" by simp
  then have "\<not> is_cont ?b" by (simp add: is_cont_def unat_word_of_nat_u8)
  then have "?b AND 0x80 = 0" by (simp add: and_0x80)
  then have "?b OR 0x80 = ?b + 0x80" by (rule disjunctive_add_eq_or [symmetric])
  then show ?thesis by (simp add: low_group add.commute)
qed

lemma uvarint_bytes_shape:
  "\<exists>cs b. uvarint_bytes n = cs @ [b] \<and> (\<forall>c \<in> set cs. is_cont c) \<and> \<not> is_cont b"
proof (induction n rule: uvarint_bytes.induct)
  case (1 n)
  show ?case
  proof (cases "n < 128")
    case True
    then have "uvarint_bytes n = [] @ [word_of_nat n]" "\<not> is_cont (word_of_nat n)"
      by (simp_all add: uvarint_bytes.simps [of n] is_cont_def unat_word_of_nat_u8)
    then show ?thesis by fastforce
  next
    case False
    with 1 obtain cs b where "uvarint_bytes (n div 128) = cs @ [b]"
      "\<forall>c \<in> set cs. is_cont c" "\<not> is_cont b" by blast
    moreover have "128 + n mod 128 < 256" by simp
    then have "is_cont (word_of_nat (128 + n mod 128))"
      by (simp only: is_cont_def unat_word_of_nat_u8)
    ultimately have "uvarint_bytes n = (word_of_nat (128 + n mod 128) # cs) @ [b]
      \<and> (\<forall>c \<in> set (word_of_nat (128 + n mod 128) # cs). is_cont c) \<and> \<not> is_cont b"
      using False by (simp add: uvarint_bytes.simps [of n])
    then show ?thesis by blast
  qed
qed

lemma leb_value_uvarint_bytes: "leb_value (uvarint_bytes n) = n"
proof (induction n rule: uvarint_bytes.induct)
  case (1 n)
  show ?case
  proof (cases "n < 128")
    case True
    then show ?thesis by (simp add: uvarint_bytes.simps [of n] unat_word_of_nat_u8)
  next
    case False
    have "128 + n mod 128 < 256" by simp
    then have "unat (word_of_nat (128 + n mod 128) :: u8) mod 128 = n mod 128"
      by (simp only: unat_word_of_nat_u8) simp
    with 1 False show ?thesis by (simp add: uvarint_bytes.simps [of n])
  qed
qed

lemma length_uvarint_bytes: "n < 128 ^ Suc k \<Longrightarrow> length (uvarint_bytes n) \<le> Suc k"
proof (induction k arbitrary: n)
  case 0
  then show ?case by (simp add: uvarint_bytes.simps [of n])
next
  case (Suc k)
  show ?case
  proof (cases "n < 128")
    case True
    then show ?thesis by (simp add: uvarint_bytes.simps [of n])
  next
    case False
    have "n div 128 < 128 ^ Suc k" using Suc.prems by (simp add: less_mult_imp_div_less)
    with Suc.IH False show ?thesis by (simp add: uvarint_bytes.simps [of n])
  qed
qed

lemma length_uvarint_bytes_u64: "length (uvarint_bytes (unat (v :: u64))) \<le> 10"
proof -
  have "unat v < 2 ^ 64" using unsigned_less [where w = v] by simp
  also have "(2 :: nat) ^ 64 \<le> 128 ^ Suc 9" by simp
  finally show ?thesis using length_uvarint_bytes [of "unat v" 9] by simp
qed

section \<open>Lemmas: writing\<close>

lemma write_uvarint_loop_spec:
  "i + length (uvarint_bytes (unat v)) \<le> length buf \<Longrightarrow>
   \<exists>buf'. write_uvarint_loop buf i v = Some (buf', i + length (uvarint_bytes (unat v)))
     \<and> take (i + length (uvarint_bytes (unat v))) buf' = take i buf @ uvarint_bytes (unat v)"
proof (induction buf i v rule: write_uvarint_loop.induct)
  case (1 buf i v)
  let ?n = "unat v"
  have z: "drop_bit 7 v = 0 \<longleftrightarrow> ?n < 128"
    by (metis div_less div_eq_0_iff unat_drop_bit_7 unat_eq_zero unsigned_0 zero_neq_numeral)
  show ?case
  proof (cases "?n < 128")
    case True
    then show ?thesis
      using "1.prems" z
      by (simp add: write_uvarint_loop.simps [of buf i v] uvarint_bytes.simps [of ?n] Let_def
          low_group take_Suc_conv_app_nth)
  next
    case False
    let ?b = "word_of_nat (128 + ?n mod 128) :: u8"
    let ?buf = "buf[i := ?b]"
    have ub: "uvarint_bytes ?n = ?b # uvarint_bytes (unat (drop_bit 7 v))"
      using False by (simp add: uvarint_bytes.simps [of ?n] unat_drop_bit_7)
    have i: "i < length buf" using "1.prems" ub by simp
    have step: "write_uvarint_loop buf i v = write_uvarint_loop ?buf (i + 1) (drop_bit 7 v)"
      using i z False by (simp add: write_uvarint_loop.simps [of buf i v] low_group_cont Let_def)
    have "take (i + 1) ?buf = take i buf @ [?b]"
      using i by (simp add: take_Suc_conv_app_nth)
    then show ?thesis
      using "1.IH" [of "ucast (v AND 0x7f)" "drop_bit 7 v" ?b] "1.prems" i z False ub
      by (simp add: step low_group_cont)
  qed
qed

lemma write_uvarint_spec:
  "\<exists>buf'. write_uvarint (replicate 10 0) v = Some (buf', length (uvarint_bytes (unat v)))
     \<and> take (length (uvarint_bytes (unat v))) buf' = uvarint_bytes (unat v)"
  using write_uvarint_loop_spec [of 0 v "replicate 10 0"] length_uvarint_bytes_u64 [of v]
  by (simp add: write_uvarint_def)

lemma write_lp_eq:
  "length data < 2 ^ 64 \<Longrightarrow> write_lp data = Some (uvarint_bytes (length data) @ data)"
  using write_uvarint_spec [of "word_of_nat (length data)"]
  by (auto simp: write_lp_def unat_of_nat take_bit_nat_eq_self)

section \<open>Lemmas: reading\<close>

lemma or_push_bit_eq_add:
  fixes v x :: u64
  assumes "take_bit k v = v"
  shows "v OR push_bit k x = v + push_bit k x"
proof -
  have "v AND push_bit k x = 0"
  proof (rule bit_word_eqI)
    fix n
    have "bit v n \<Longrightarrow> n < k" using assms by (metis bit_take_bit_iff)
    then show "bit (v AND push_bit k x) n = bit (0 :: u64) n"
      by (auto simp: bit_and_iff bit_push_bit_iff)
  qed
  then show ?thesis by (rule disjunctive_add_eq_or [symmetric])
qed

lemma take_bit_or_push_bit:
  fixes v :: u64 and b :: u8
  assumes "take_bit k v = v"
  shows "take_bit (k + 7) (v OR push_bit k (ucast (b AND 0x7f))) = v OR push_bit k (ucast (b AND 0x7f))"
proof (rule bit_word_eqI)
  fix n
  have v: "bit v n \<Longrightarrow> n < k" using assms by (metis bit_take_bit_iff)
  have "b AND 0x7f = take_bit 7 b" by (simp add: take_bit_eq_mask mask_numeral)
  then have b: "bit (b AND 0x7f) m \<Longrightarrow> m < 7" for m by (simp add: bit_take_bit_iff)
  show "bit (take_bit (k + 7) (v OR push_bit k (ucast (b AND 0x7f)))) n =
      bit (v OR push_bit k (ucast (b AND 0x7f) :: u64)) n"
    using v b [of "n - k"]
    by (auto simp: bit_take_bit_iff bit_or_iff bit_push_bit_iff bit_unsigned_iff simp del: bit_and_iff)
qed

lemma group_value: "(ucast (b AND 0x7f) :: u64) = word_of_nat (unat b mod 128)" for b :: u8
  by (simp flip: unat_and_0x7f_u8 del: unsigned_and_eq)

lemma read_uvarint_loop_Ok:
  "\<forall>c \<in> set cs. is_cont c \<Longrightarrow> \<not> is_cont b \<Longrightarrow> k + 7 * length cs < 64 \<Longrightarrow> take_bit k v = v \<Longrightarrow>
   read_uvarint_loop v k (cs @ b # io) =
     Ok (v + push_bit k (word_of_nat (leb_value (cs @ [b]))), io)"
proof (induction cs arbitrary: v k)
  case Nil
  then show ?case by (simp add: and_0x80 or_push_bit_eq_add group_value)
next
  case (Cons c cs)
  let ?v = "v OR push_bit k (ucast (c AND 0x7f))"
  have "take_bit (k + 7) ?v = ?v" using Cons.prems(4) by (rule take_bit_or_push_bit)
  then have "read_uvarint_loop ?v (k + 7) (cs @ b # io) =
      Ok (?v + push_bit (k + 7) (word_of_nat (leb_value (cs @ [b]))), io)"
    using Cons.prems by (intro Cons.IH) auto
  moreover have "?v = v + push_bit k (word_of_nat (unat c mod 128))"
    using Cons.prems(4) by (simp add: or_push_bit_eq_add group_value)
  moreover have "push_bit (k + 7) x = push_bit k (128 * x)" for x :: u64
    by (simp add: push_bit_eq_mult power_add mult.assoc)
  ultimately show ?case
    using Cons.prems by (simp add: and_0x80 push_bit_add)
qed

lemma read_uvarint_loop_eof:
  "\<forall>c \<in> set cs. is_cont c \<Longrightarrow> k + 7 * length cs < 64 \<Longrightarrow>
   read_uvarint_loop v k cs = Err (IoError UnexpectedEof ''failed to fill whole buffer'')"
  by (induction cs arbitrary: v k) (simp_all add: and_0x80 Let_def)

lemma read_uvarint_loop_overflow:
  "\<forall>c \<in> set cs. is_cont c \<Longrightarrow> cs \<noteq> [] \<Longrightarrow> 64 \<le> k + 7 * length cs \<Longrightarrow>
   read_uvarint_loop v k (cs @ io) = Err (IoError InvalidData ''varint overflow'')"
proof (induction cs arbitrary: v k)
  case (Cons c cs)
  show ?case
  proof (cases "k + 7 \<ge> 64")
    case False
    with Cons.prems have "cs \<noteq> []" by auto
    with Cons False show ?thesis by (simp add: and_0x80 Let_def)
  qed (use Cons.prems in \<open>simp add: and_0x80 Let_def\<close>)
qed simp

text \<open>What \<^const>\<open>read_uvarint\<close> returns on every stream.\<close>

lemma read_uvarint_cases:
  fixes io :: bytes
  defines "cs \<equiv> takeWhile is_cont io"
  shows "read_uvarint io =
    (if length cs \<ge> 10 then Err (IoError InvalidData ''varint overflow'')
     else case drop (length cs) io of
       [] \<Rightarrow> Err (IoError UnexpectedEof ''failed to fill whole buffer'')
     | b # rest \<Rightarrow> Ok (word_of_nat (leb_value (cs @ [b])), rest))"
proof -
  have split: "io = cs @ dropWhile is_cont io" by (simp add: cs_def)
  have drop: "drop (length cs) io = dropWhile is_cont io"
    unfolding cs_def by (rule dropWhile_eq_drop [symmetric])
  have cont: "\<forall>c \<in> set cs. is_cont c" by (auto simp: cs_def dest: set_takeWhileD)
  show ?thesis
  proof (cases "length cs \<ge> 10")
    case True
    then have "cs \<noteq> []" by auto
    with True show ?thesis
      using read_uvarint_loop_overflow [OF cont, of 0 0 "dropWhile is_cont io"] split
      by (simp add: read_uvarint_def)
  next
    case False
    show ?thesis
    proof (cases "dropWhile is_cont io")
      case Nil
      with split have "io = cs" by (simp only: append_Nil2)
      then show ?thesis
        using False read_uvarint_loop_eof [OF cont, of 0 0] by (simp add: read_uvarint_def)
    next
      case (Cons b rest)
      then have "\<not> is_cont b" using hd_dropWhile [of is_cont io] by simp
      then show ?thesis
        using False Cons read_uvarint_loop_Ok [OF cont, of b 0 0 rest] split drop
        by (simp add: read_uvarint_def)
    qed
  qed
qed

lemma read_uvarint_of_bytes:
  assumes "n < 2 ^ 64"
  shows "read_uvarint (uvarint_bytes n @ io) = Ok (word_of_nat n, io)"
proof -
  obtain cs b where u: "uvarint_bytes n = cs @ [b]" "\<forall>c \<in> set cs. is_cont c" "\<not> is_cont b"
    using uvarint_bytes_shape by blast
  have "unat (word_of_nat n :: u64) = n" using assms by (simp add: unat_of_nat take_bit_nat_eq_self)
  then have "length (uvarint_bytes n) \<le> 10" by (metis length_uvarint_bytes_u64)
  then have "7 * length cs < 64" using u(1) by simp
  then show ?thesis
    using read_uvarint_loop_Ok [OF u(2,3), of 0 0 io] leb_value_uvarint_bytes [of n] u(1)
    by (simp add: read_uvarint_def)
qed

lemma read_uvarint_prefix_eof:
  assumes "n < 2 ^ 64" "strict_prefix p (uvarint_bytes n)"
  shows "read_uvarint p = Err (IoError UnexpectedEof ''failed to fill whole buffer'')"
proof -
  obtain cs b where u: "uvarint_bytes n = cs @ [b]" "\<forall>c \<in> set cs. is_cont c"
    using uvarint_bytes_shape by blast
  have "unat (word_of_nat n :: u64) = n" using assms(1) by (simp add: unat_of_nat take_bit_nat_eq_self)
  then have "length (uvarint_bytes n) \<le> 10" by (metis length_uvarint_bytes_u64)
  moreover have "prefix p cs" using assms(2) u(1) by (metis prefix_snoc strict_prefix_def)
  ultimately have "\<forall>c \<in> set p. is_cont c" "7 * length p < 64"
    using u set_mono_prefix prefix_length_le by fastforce+
  then show ?thesis using read_uvarint_loop_eof [of p 0 0] by (simp add: read_uvarint_def)
qed

lemma read_uvarint_shorter: "read_uvarint io = Ok (v, rest) \<Longrightarrow> length rest < length io"
  by (auto simp: read_uvarint_cases split: if_splits list.splits)
    (metis Suc_le_lessD length_Cons length_drop diff_le_self)

section \<open>The framing contract\<close>

text \<open>
  What a codec relies on: every message within the limit has a frame, the frame reads back to the
  message and leaves the rest of the stream, an oversized frame is refused before its body is
  read, a truncated frame is the end of the stream, and reading consumes input and respects the
  limit whatever the peer sends.
\<close>

locale lp_framing =
  fixes rd :: "bytes \<Rightarrow> (IoError, bytes \<times> bytes) result"
    and wr :: "bytes \<Rightarrow> bytes option"
    and max_len :: nat
    and too_long :: IoError
  assumes wr_total: "length d < 2 ^ 64 \<Longrightarrow> \<exists>f. wr d = Some f"
    and max_len_u64: "max_len < 2 ^ 64"
    and rd_wr: "wr d = Some f \<Longrightarrow> length d \<le> max_len \<Longrightarrow> rd (f @ rest) = Ok (d, rest)"
    and rd_long: "wr d = Some f \<Longrightarrow> max_len < length d \<Longrightarrow> length d < 2 ^ 64 \<Longrightarrow>
      rd (f @ rest) = Err too_long"
    and rd_truncated: "wr d = Some f \<Longrightarrow> length d \<le> max_len \<Longrightarrow> strict_prefix p f \<Longrightarrow>
      rd p = Err (IoError UnexpectedEof ''failed to fill whole buffer'')"
    and rd_bounded: "rd io = Ok (d, rest) \<Longrightarrow> length d \<le> max_len \<and> length d + length rest < length io"
begin

lemma frame_unique:
  assumes "wr d = Some f" "wr d' = Some f'" "length d \<le> max_len" "length d' \<le> max_len"
    and "f @ rest = f' @ rest'"
  shows "d = d' \<and> rest = rest'"
  using rd_wr [OF assms(1,3), of rest] rd_wr [OF assms(2,4), of rest'] assms(5) by simp

lemma message_roundtrip:
  assumes "decode (encode m) = Ok m" "length (encode m) \<le> max_len"
  shows "\<exists>f. write_message wr encode m = Some f
    \<and> (\<forall>rest. read_message rd decode (f @ rest) = Ok (m, rest))"
proof -
  have "length (encode m) < 2 ^ 64" using assms(2) max_len_u64 by simp
  then obtain f where "wr (encode m) = Some f" using wr_total by blast
  then show ?thesis
    using assms rd_wr by (auto simp: write_message_def read_message_def)
qed

lemma message_too_long:
  assumes "write_message wr encode m = Some f" "max_len < length (encode m)"
    "length (encode m) < 2 ^ 64"
  shows "read_message rd decode (f @ rest) = Err too_long"
  using assms rd_long by (simp add: write_message_def read_message_def)

lemma message_truncated:
  assumes "write_message wr encode m = Some f" "length (encode m) \<le> max_len" "strict_prefix p f"
  shows "read_message rd decode p = Err (IoError UnexpectedEof ''failed to fill whole buffer'')"
  using assms rd_truncated by (simp add: write_message_def read_message_def)

lemma message_bounded:
  "read_message rd decode io = Ok (m, rest) \<Longrightarrow> length rest < length io"
  using rd_bounded by (fastforce simp: read_message_def)

end

lemma read_lp_frame:
  "n < 2 ^ 64 \<Longrightarrow> read_lp max_len err (uvarint_bytes n @ io) =
     (if max_len < n then Err (IoError InvalidData err) else read_exact n io)"
  by (simp add: read_lp_def read_uvarint_of_bytes unat_of_nat take_bit_nat_eq_self)

lemma read_exact_append: "read_exact (length d) (d @ io) = Ok (d, io)"
  by (simp add: read_exact_def)

lemma lp_framing_lp:
  assumes "max_len < 2 ^ 64"
  shows "lp_framing (read_lp max_len err) write_lp max_len (IoError InvalidData err)"
proof
  fix d f rest p io :: bytes
  let ?u = "uvarint_bytes (length d)"
  show "length d < 2 ^ 64 \<Longrightarrow> \<exists>f. write_lp d = Some f" by (simp add: write_lp_eq)
  show "max_len < 2 ^ 64" by fact
  have f: "f = ?u @ d" if "write_lp d = Some f" "length d < 2 ^ 64" for f
    using that by (simp add: write_lp_eq)
  show "read_lp max_len err (f @ rest) = Ok (d, rest)" if "write_lp d = Some f" "length d \<le> max_len"
    using that assms f by (simp add: read_lp_frame read_exact_append)
  show "read_lp max_len err (f @ rest) = Err (IoError InvalidData err)"
    if "write_lp d = Some f" "max_len < length d" "length d < 2 ^ 64"
    using that f by (simp add: read_lp_frame)
  show "read_lp max_len err p = Err (IoError UnexpectedEof ''failed to fill whole buffer'')"
    if t: "write_lp d = Some f" "length d \<le> max_len" "strict_prefix p f"
  proof (cases "strict_prefix p ?u")
    case True
    with t assms have "read_uvarint p = Err (IoError UnexpectedEof ''failed to fill whole buffer'')"
      by (intro read_uvarint_prefix_eof [of "length d"]) auto
    then show ?thesis by (simp add: read_lp_def)
  next
    case False
    from t f assms have "strict_prefix p (?u @ d)" by simp
    with False obtain d' where "p = ?u @ d'" "strict_prefix d' d"
      by (metis strict_prefix_def prefix_append same_prefix_prefix append_Nil2)
    then show ?thesis
      using t assms prefix_length_less [of d' d] by (simp add: read_lp_frame read_exact_def)
  qed
  show "length d \<le> max_len \<and> length d + length rest < length io"
    if "read_lp max_len err io = Ok (d, rest)"
    using that by (auto simp: read_lp_def read_exact_def split: if_splits dest: read_uvarint_shorter)
qed

section \<open>Properties\<close>

text \<open>C36: The varint reader of the service protocols, on every input. It collects the leading
  continuation bytes; ten of them are refused as an overflow, a stream that ends inside the varint
  is the end of the stream, and otherwise the value is the LEB128 value of the groups modulo
  \<open>2 ^ 64\<close>, and reading stops right after the final byte.\<close>

theorem read_uvarint_spec:
  "read_uvarint io =
    (let cs = takeWhile is_cont io
     in if length cs \<ge> 10 then Err (IoError InvalidData ''varint overflow'')
        else case drop (length cs) io of
          [] \<Rightarrow> Err (IoError UnexpectedEof ''failed to fill whole buffer'')
        | b # rest \<Rightarrow> Ok (word_of_nat (leb_value (cs @ [b])), rest))"
  by (simp add: read_uvarint_cases Let_def)

text \<open>Writing any 64-bit length into the ten-byte prefix never runs past the buffer, and the
  bytes written read back to the same length, leaving what follows them on the stream.\<close>

lemma uvarint_roundtrip:
  "\<exists>buf n. write_uvarint (replicate 10 0) v = Some (buf, n) \<and> n \<le> 10
     \<and> (\<forall>rest. read_uvarint (take n buf @ rest) = Ok (v, rest))"
proof -
  have "read_uvarint (uvarint_bytes (unat v) @ rest) = Ok (v, rest)" for rest
    using read_uvarint_of_bytes [of "unat v" rest] unsigned_less [where w = v] by simp
  then show ?thesis
    using write_uvarint_spec [of v] length_uvarint_bytes_u64 [of v] by fastforce
qed

end
