(* ===== verification/Waku_Metadata.thy ===== *)
theory Waku_Metadata
  imports Lp_Frame
begin

text \<open>
  \<open>crates/waku-metadata/src/lib.rs\<close>: the 66/WAKU2-METADATA payload and its codec. Request and
  response have one type, so \<open>read_lp\<close> and \<open>write_lp\<close> of this crate decode and encode
  themselves; \<open>decode\<close> and \<open>encode\<close> are the functions \<open>prost\<close> derives.
\<close>

section \<open>Definitions\<close>

record WakuMetadata =
  cluster_id :: "u32 option"
  shards :: "u32 list"

definition metadata_MAX_FRAME_LEN :: nat where
  "metadata_MAX_FRAME_LEN = 64 * 1024"

definition metadata_read_uvarint :: "bytes \<Rightarrow> (IoError, u64 \<times> bytes) result" where
  "metadata_read_uvarint io = read_uvarint io"

definition metadata_write_uvarint :: "bytes \<Rightarrow> u64 \<Rightarrow> (bytes \<times> nat) option" where
  "metadata_write_uvarint buf v = write_uvarint buf v"

definition metadata_read_lp ::
  "(bytes \<Rightarrow> (string, WakuMetadata) result) \<Rightarrow> bytes \<Rightarrow> (IoError, WakuMetadata \<times> bytes) result" where
  "metadata_read_lp decode io =
     bind_result (metadata_read_uvarint io) (\<lambda>(len, io').
       if unat len > metadata_MAX_FRAME_LEN
       then Err (IoError InvalidData ''metadata frame exceeds maximum length'')
       else bind_result (read_exact (unat len) io') (\<lambda>(buf, io'').
         bind_result (map_err (IoError InvalidData) (decode buf)) (\<lambda>m. Ok (m, io''))))"

definition metadata_write_lp :: "(WakuMetadata \<Rightarrow> bytes) \<Rightarrow> WakuMetadata \<Rightarrow> bytes option" where
  "metadata_write_lp encode msg =
     (let data = encode msg
      in case metadata_write_uvarint (replicate 10 0) (word_of_nat (length data)) of
           None \<Rightarrow> None
         | Some (pfx, n) \<Rightarrow> Some (take n pfx @ data))"

definition MetadataCodec_read_request ::
  "(bytes \<Rightarrow> (string, WakuMetadata) result) \<Rightarrow> bytes \<Rightarrow> (IoError, WakuMetadata \<times> bytes) result" where
  "MetadataCodec_read_request decode io = metadata_read_lp decode io"

definition MetadataCodec_read_response ::
  "(bytes \<Rightarrow> (string, WakuMetadata) result) \<Rightarrow> bytes \<Rightarrow> (IoError, WakuMetadata \<times> bytes) result" where
  "MetadataCodec_read_response decode io = metadata_read_lp decode io"

definition MetadataCodec_write_request :: "(WakuMetadata \<Rightarrow> bytes) \<Rightarrow> WakuMetadata \<Rightarrow> bytes option" where
  "MetadataCodec_write_request encode req = metadata_write_lp encode req"

definition MetadataCodec_write_response :: "(WakuMetadata \<Rightarrow> bytes) \<Rightarrow> WakuMetadata \<Rightarrow> bytes option" where
  "MetadataCodec_write_response encode res = metadata_write_lp encode res"

section \<open>The codec as framed messages\<close>

lemma metadata_read_lp_eq:
  "metadata_read_lp decode =
     read_message (read_lp metadata_MAX_FRAME_LEN ''metadata frame exceeds maximum length'') decode"
proof
  fix io
  show "metadata_read_lp decode io =
     read_message (read_lp metadata_MAX_FRAME_LEN ''metadata frame exceeds maximum length'') decode io"
    by (cases "read_uvarint io")
      (simp_all add: metadata_read_lp_def read_message_def read_lp_def metadata_read_uvarint_def
        split: prod.split)
qed

lemma metadata_write_lp_eq: "metadata_write_lp encode = write_message write_lp encode"
  by (simp add: fun_eq_iff metadata_write_lp_def write_message_def write_lp_def
      metadata_write_uvarint_def Let_def)

interpretation metadata_frames: lp_framing
  "read_lp metadata_MAX_FRAME_LEN ''metadata frame exceeds maximum length''" write_lp
  metadata_MAX_FRAME_LEN "IoError InvalidData ''metadata frame exceeds maximum length''"
  by (rule lp_framing_lp) (simp add: metadata_MAX_FRAME_LEN_def)

lemmas metadata_codec_defs =
  MetadataCodec_read_request_def MetadataCodec_read_response_def
  MetadataCodec_write_request_def MetadataCodec_write_response_def
  metadata_read_lp_eq metadata_write_lp_eq

section \<open>Properties\<close>

text \<open>C37: What a node writes in the metadata exchange, its peer reads back: the request it sends
  and the response it sends, whenever the payload fits a 64 KiB frame.\<close>

theorem metadata_exchange_roundtrip:
  assumes "decode (encode m) = Ok m" and "length (encode m) \<le> metadata_MAX_FRAME_LEN"
  shows "\<exists>f. MetadataCodec_write_request encode m = Some f \<and> MetadataCodec_write_response encode m = Some f
    \<and> (\<forall>rest. MetadataCodec_read_request decode (f @ rest) = Ok (m, rest)
          \<and> MetadataCodec_read_response decode (f @ rest) = Ok (m, rest))"
  using metadata_frames.message_roundtrip [of decode encode m, OF assms]
  by (auto simp only: metadata_codec_defs)

theorem metadata_exchange_roundtrip_witness:
  "let m = \<lparr>cluster_id = Some 1, shards = [0]\<rparr>;
       enc = (\<lambda>_. [8, 1, 18, 1, 0]);
       dec = (\<lambda>b. if b = [8, 1, 18, 1, 0] then Ok m else Err ''bad'')
   in \<exists>f. MetadataCodec_write_request enc m = Some f \<and> MetadataCodec_read_request dec f = Ok (m, [])"
proof -
  let ?m = "\<lparr>cluster_id = Some 1, shards = [0]\<rparr>"
  let ?enc = "\<lambda>_ :: WakuMetadata. [8, 1, 18, 1, 0] :: bytes"
  let ?dec = "\<lambda>b :: bytes. if b = [8, 1, 18, 1, 0] then Ok ?m else Err ''bad''"
  have "?dec (?enc ?m) = Ok ?m" "length (?enc ?m) \<le> metadata_MAX_FRAME_LEN"
    by (simp_all add: metadata_MAX_FRAME_LEN_def)
  from metadata_exchange_roundtrip [of ?dec ?enc ?m, OF this] show ?thesis
    unfolding Let_def by (metis append_Nil2)
qed

end
