(* ===== verification/Waku_Lightpush.thy ===== *)
theory Waku_Lightpush
  imports Waku_Core Lp_Frame
begin

text \<open>
  \<open>crates/waku-lightpush/src/lib.rs\<close>: the 19/WAKU2-LIGHTPUSH v3 messages, the two response
  constructors and the codec. \<open>decode\<close> and \<open>encode\<close> are the functions \<open>prost\<close> derives.
\<close>

section \<open>Definitions\<close>

record LightpushRequest =
  request_id :: string
  pubsub_topic :: string
  message :: "WakuMessage option"

record LightpushResponse =
  request_id :: string
  status_code :: u32
  status_desc :: "string option"
  relay_peer_count :: u32

definition LightpushResponse_ok :: "string \<Rightarrow> u32 \<Rightarrow> LightpushResponse" where
  "LightpushResponse_ok rid n =
     \<lparr>request_id = rid, status_code = 200, status_desc = Some ''OK'', relay_peer_count = n\<rparr>"

definition LightpushResponse_error :: "string \<Rightarrow> u32 \<Rightarrow> string \<Rightarrow> LightpushResponse" where
  "LightpushResponse_error rid code desc =
     \<lparr>request_id = rid, status_code = code, status_desc = Some desc, relay_peer_count = 0\<rparr>"

definition lightpush_MAX_FRAME_LEN :: nat where
  "lightpush_MAX_FRAME_LEN = 1024 * 1024"

definition lightpush_read_uvarint :: "bytes \<Rightarrow> (IoError, u64 \<times> bytes) result" where
  "lightpush_read_uvarint io = read_uvarint io"

definition lightpush_write_uvarint :: "bytes \<Rightarrow> u64 \<Rightarrow> (bytes \<times> nat) option" where
  "lightpush_write_uvarint buf v = write_uvarint buf v"

definition lightpush_read_lp :: "bytes \<Rightarrow> (IoError, bytes \<times> bytes) result" where
  "lightpush_read_lp io =
     bind_result (lightpush_read_uvarint io) (\<lambda>(len, io').
       if unat len > lightpush_MAX_FRAME_LEN
       then Err (IoError InvalidData ''lightpush frame exceeds maximum length'')
       else read_exact (unat len) io')"

definition lightpush_write_lp :: "bytes \<Rightarrow> bytes option" where
  "lightpush_write_lp data =
     (case lightpush_write_uvarint (replicate 10 0) (word_of_nat (length data)) of
        None \<Rightarrow> None
      | Some (pfx, n) \<Rightarrow> Some (take n pfx @ data))"

definition LightpushCodec_read_request :: "(bytes \<Rightarrow> (string, LightpushRequest) result) \<Rightarrow> bytes \<Rightarrow> (IoError, LightpushRequest \<times> bytes) result" where
  "LightpushCodec_read_request decode io = read_message lightpush_read_lp decode io"

definition LightpushCodec_read_response :: "(bytes \<Rightarrow> (string, LightpushResponse) result) \<Rightarrow> bytes \<Rightarrow> (IoError, LightpushResponse \<times> bytes) result" where
  "LightpushCodec_read_response decode io = read_message lightpush_read_lp decode io"

definition LightpushCodec_write_request :: "(LightpushRequest \<Rightarrow> bytes) \<Rightarrow> LightpushRequest \<Rightarrow> bytes option" where
  "LightpushCodec_write_request encode m = write_message lightpush_write_lp encode m"

definition LightpushCodec_write_response :: "(LightpushResponse \<Rightarrow> bytes) \<Rightarrow> LightpushResponse \<Rightarrow> bytes option" where
  "LightpushCodec_write_response encode m = write_message lightpush_write_lp encode m"

section \<open>The codec as framed messages\<close>

lemma lightpush_lp_eq:
  "lightpush_read_lp = read_lp lightpush_MAX_FRAME_LEN ''lightpush frame exceeds maximum length''"
  "lightpush_write_lp = write_lp"
  by (simp_all add: fun_eq_iff lightpush_read_lp_def lightpush_write_lp_def read_lp_def write_lp_def
      lightpush_read_uvarint_def lightpush_write_uvarint_def)

interpretation lightpush_frames: lp_framing lightpush_read_lp lightpush_write_lp lightpush_MAX_FRAME_LEN
  "IoError InvalidData ''lightpush frame exceeds maximum length''"
  unfolding lightpush_lp_eq by (rule lp_framing_lp) (simp add: lightpush_MAX_FRAME_LEN_def)

lemmas lightpush_codec_defs =
  LightpushCodec_read_request_def LightpushCodec_read_response_def
  LightpushCodec_write_request_def LightpushCodec_write_response_def

lemma lightpush_request_roundtrip:
  assumes "decode (encode m) = Ok m" and "length (encode m) \<le> lightpush_MAX_FRAME_LEN"
  shows "\<exists>f. LightpushCodec_write_request encode m = Some f
    \<and> (\<forall>rest. LightpushCodec_read_request decode (f @ rest) = Ok (m, rest))"
  using lightpush_frames.message_roundtrip [of decode encode m, OF assms] by (simp add: lightpush_codec_defs)

lemma lightpush_response_roundtrip:
  assumes "decode (encode m) = Ok m" and "length (encode m) \<le> lightpush_MAX_FRAME_LEN"
  shows "\<exists>f. LightpushCodec_write_response encode m = Some f
    \<and> (\<forall>rest. LightpushCodec_read_response decode (f @ rest) = Ok (m, rest))"
  using lightpush_frames.message_roundtrip [of decode encode m, OF assms] by (simp add: lightpush_codec_defs)

end
