(* ===== verification/Waku_Peer_Exchange.thy ===== *)
theory Waku_Peer_Exchange
  imports Lp_Frame
begin

text \<open>
  \<open>crates/waku-peer-exchange/src/lib.rs\<close>: the 34/WAKU2-PEER-EXCHANGE envelope, its constructors and
  accessors, and the codec. \<open>decode\<close> and \<open>encode\<close> are the functions \<open>prost\<close> derives.
\<close>

section \<open>Definitions\<close>

record PeerInfo =
  enr :: bytes

record PeerExchangeQuery =
  num_peers :: u64

record PeerExchangeResponse =
  peer_infos :: "PeerInfo list"

record PeerExchangeRpc =
  query :: "PeerExchangeQuery option"
  response :: "PeerExchangeResponse option"

definition PeerExchangeRpc_query :: "u64 \<Rightarrow> PeerExchangeRpc" where
  "PeerExchangeRpc_query n = \<lparr>query = Some \<lparr>num_peers = n\<rparr>, response = None\<rparr>"

definition PeerExchangeRpc_response :: "bytes list \<Rightarrow> PeerExchangeRpc" where
  "PeerExchangeRpc_response es =
     \<lparr>query = None, response = Some \<lparr>peer_infos = map (\<lambda>e. \<lparr>enr = e\<rparr>) es\<rparr>\<rparr>"

definition requested :: "PeerExchangeRpc \<Rightarrow> u64 option" where
  "requested r = map_option num_peers (query r)"

definition enrs :: "PeerExchangeRpc \<Rightarrow> bytes list" where
  "enrs r = unwrap_or (map_option (\<lambda>x. map enr (peer_infos x)) (response r)) []"

definition px_MAX_FRAME_LEN :: nat where
  "px_MAX_FRAME_LEN = 1024 * 1024"

definition px_read_uvarint :: "bytes \<Rightarrow> (IoError, u64 \<times> bytes) result" where
  "px_read_uvarint io = read_uvarint io"

definition px_write_uvarint :: "bytes \<Rightarrow> u64 \<Rightarrow> (bytes \<times> nat) option" where
  "px_write_uvarint buf v = write_uvarint buf v"

definition px_read_lp :: "bytes \<Rightarrow> (IoError, bytes \<times> bytes) result" where
  "px_read_lp io =
     bind_result (px_read_uvarint io) (\<lambda>(len, io').
       if unat len > px_MAX_FRAME_LEN
       then Err (IoError InvalidData ''peer-exchange frame exceeds maximum length'')
       else read_exact (unat len) io')"

definition px_write_lp :: "bytes \<Rightarrow> bytes option" where
  "px_write_lp data =
     (case px_write_uvarint (replicate 10 0) (word_of_nat (length data)) of
        None \<Rightarrow> None
      | Some (pfx, n) \<Rightarrow> Some (take n pfx @ data))"

definition PeerExchangeCodec_read_request :: "(bytes \<Rightarrow> (string, PeerExchangeRpc) result) \<Rightarrow> bytes \<Rightarrow> (IoError, PeerExchangeRpc \<times> bytes) result" where
  "PeerExchangeCodec_read_request decode io = read_message px_read_lp decode io"

definition PeerExchangeCodec_read_response :: "(bytes \<Rightarrow> (string, PeerExchangeRpc) result) \<Rightarrow> bytes \<Rightarrow> (IoError, PeerExchangeRpc \<times> bytes) result" where
  "PeerExchangeCodec_read_response decode io = read_message px_read_lp decode io"

definition PeerExchangeCodec_write_request :: "(PeerExchangeRpc \<Rightarrow> bytes) \<Rightarrow> PeerExchangeRpc \<Rightarrow> bytes option" where
  "PeerExchangeCodec_write_request encode m = write_message px_write_lp encode m"

definition PeerExchangeCodec_write_response :: "(PeerExchangeRpc \<Rightarrow> bytes) \<Rightarrow> PeerExchangeRpc \<Rightarrow> bytes option" where
  "PeerExchangeCodec_write_response encode m = write_message px_write_lp encode m"

section \<open>The codec as framed messages\<close>

lemma px_lp_eq:
  "px_read_lp = read_lp px_MAX_FRAME_LEN ''peer-exchange frame exceeds maximum length''"
  "px_write_lp = write_lp"
  by (simp_all add: fun_eq_iff px_read_lp_def px_write_lp_def read_lp_def write_lp_def
      px_read_uvarint_def px_write_uvarint_def)

interpretation px_frames: lp_framing px_read_lp px_write_lp px_MAX_FRAME_LEN
  "IoError InvalidData ''peer-exchange frame exceeds maximum length''"
  unfolding px_lp_eq by (rule lp_framing_lp) (simp add: px_MAX_FRAME_LEN_def)

lemmas px_codec_defs =
  PeerExchangeCodec_read_request_def PeerExchangeCodec_read_response_def
  PeerExchangeCodec_write_request_def PeerExchangeCodec_write_response_def

lemma requested_query [simp]: "requested (PeerExchangeRpc_query n) = Some n"
  and enrs_query [simp]: "enrs (PeerExchangeRpc_query n) = []"
  and requested_response [simp]: "requested (PeerExchangeRpc_response es) = None"
  and enrs_response [simp]: "enrs (PeerExchangeRpc_response es) = es"
  by (simp_all add: requested_def enrs_def PeerExchangeRpc_query_def PeerExchangeRpc_response_def
      unwrap_or_def comp_def)

lemma px_request_roundtrip:
  assumes "decode (encode m) = Ok m" and "length (encode m) \<le> px_MAX_FRAME_LEN"
  shows "\<exists>f. PeerExchangeCodec_write_request encode m = Some f
    \<and> (\<forall>rest. PeerExchangeCodec_read_request decode (f @ rest) = Ok (m, rest))"
  using px_frames.message_roundtrip [of decode encode m, OF assms] by (simp add: px_codec_defs)

lemma px_response_roundtrip:
  assumes "decode (encode m) = Ok m" and "length (encode m) \<le> px_MAX_FRAME_LEN"
  shows "\<exists>f. PeerExchangeCodec_write_response encode m = Some f
    \<and> (\<forall>rest. PeerExchangeCodec_read_response decode (f @ rest) = Ok (m, rest))"
  using px_frames.message_roundtrip [of decode encode m, OF assms] by (simp add: px_codec_defs)

end
