(* ===== verification/Waku_Filter.thy ===== *)
theory Waku_Filter
  imports Waku_Core Lp_Frame
begin

text \<open>
  \<open>crates/waku-filter/src/lib.rs\<close>: the 12/WAKU2-FILTER v2 messages, the response constructors and
  the codecs of the two protocols. The subscription registry is in \<open>Filter_Registry\<close>.
  \<open>decode\<close> and \<open>encode\<close> are the functions \<open>prost\<close> derives.
\<close>

section \<open>Definitions\<close>

definition PING :: i32 where "PING = 0"
definition SUBSCRIBE :: i32 where "SUBSCRIBE = 1"
definition UNSUBSCRIBE :: i32 where "UNSUBSCRIBE = 2"
definition UNSUBSCRIBE_ALL :: i32 where "UNSUBSCRIBE_ALL = 3"

record FilterSubscribeRequest =
  request_id :: string
  filter_subscribe_type :: i32
  pubsub_topic :: "string option"
  content_topics :: "string list"

record FilterSubscribeResponse =
  request_id :: string
  status_code :: u32
  status_desc :: "string option"

record MessagePush =
  waku_message :: "WakuMessage option"
  pubsub_topic :: "string option"

record FilterPushResponse =
  status_code :: u32

definition FilterSubscribeResponse_new :: "string \<Rightarrow> u32 \<Rightarrow> string \<Rightarrow> FilterSubscribeResponse" where
  "FilterSubscribeResponse_new rid code desc =
     \<lparr>FilterSubscribeResponse.request_id = rid, status_code = code, status_desc = Some desc\<rparr>"

definition FilterSubscribeResponse_ok :: "string \<Rightarrow> FilterSubscribeResponse" where
  "FilterSubscribeResponse_ok rid = FilterSubscribeResponse_new rid 200 ''OK''"

definition FilterSubscribeResponse_error :: "string \<Rightarrow> u32 \<Rightarrow> string \<Rightarrow> FilterSubscribeResponse" where
  "FilterSubscribeResponse_error rid code desc = FilterSubscribeResponse_new rid code desc"

definition filter_MAX_FRAME_LEN :: nat where
  "filter_MAX_FRAME_LEN = 1024 * 1024"

definition filter_read_uvarint :: "bytes \<Rightarrow> (IoError, u64 \<times> bytes) result" where
  "filter_read_uvarint io = read_uvarint io"

definition filter_write_uvarint :: "bytes \<Rightarrow> u64 \<Rightarrow> (bytes \<times> nat) option" where
  "filter_write_uvarint buf v = write_uvarint buf v"

definition filter_read_lp :: "bytes \<Rightarrow> (IoError, bytes \<times> bytes) result" where
  "filter_read_lp io =
     bind_result (filter_read_uvarint io) (\<lambda>(len, io').
       if unat len > filter_MAX_FRAME_LEN
       then Err (IoError InvalidData ''filter frame exceeds maximum length'')
       else read_exact (unat len) io')"

definition filter_write_lp :: "bytes \<Rightarrow> bytes option" where
  "filter_write_lp data =
     (case filter_write_uvarint (replicate 10 0) (word_of_nat (length data)) of
        None \<Rightarrow> None
      | Some (pfx, n) \<Rightarrow> Some (take n pfx @ data))"

definition SubscribeCodec_read_request :: "(bytes \<Rightarrow> (string, FilterSubscribeRequest) result) \<Rightarrow> bytes \<Rightarrow> (IoError, FilterSubscribeRequest \<times> bytes) result" where
  "SubscribeCodec_read_request decode io = read_message filter_read_lp decode io"

definition SubscribeCodec_read_response :: "(bytes \<Rightarrow> (string, FilterSubscribeResponse) result) \<Rightarrow> bytes \<Rightarrow> (IoError, FilterSubscribeResponse \<times> bytes) result" where
  "SubscribeCodec_read_response decode io = read_message filter_read_lp decode io"

definition SubscribeCodec_write_request :: "(FilterSubscribeRequest \<Rightarrow> bytes) \<Rightarrow> FilterSubscribeRequest \<Rightarrow> bytes option" where
  "SubscribeCodec_write_request encode m = write_message filter_write_lp encode m"

definition SubscribeCodec_write_response :: "(FilterSubscribeResponse \<Rightarrow> bytes) \<Rightarrow> FilterSubscribeResponse \<Rightarrow> bytes option" where
  "SubscribeCodec_write_response encode m = write_message filter_write_lp encode m"

definition PushCodec_read_request :: "(bytes \<Rightarrow> (string, MessagePush) result) \<Rightarrow> bytes \<Rightarrow> (IoError, MessagePush \<times> bytes) result" where
  "PushCodec_read_request decode io = read_message filter_read_lp decode io"

definition PushCodec_read_response :: "(bytes \<Rightarrow> (string, FilterPushResponse) result) \<Rightarrow> bytes \<Rightarrow> (IoError, FilterPushResponse \<times> bytes) result" where
  "PushCodec_read_response decode io = read_message filter_read_lp decode io"

definition PushCodec_write_request :: "(MessagePush \<Rightarrow> bytes) \<Rightarrow> MessagePush \<Rightarrow> bytes option" where
  "PushCodec_write_request encode m = write_message filter_write_lp encode m"

definition PushCodec_write_response :: "(FilterPushResponse \<Rightarrow> bytes) \<Rightarrow> FilterPushResponse \<Rightarrow> bytes option" where
  "PushCodec_write_response encode m = write_message filter_write_lp encode m"

section \<open>The codecs as framed messages\<close>

lemma filter_lp_eq:
  "filter_read_lp = read_lp filter_MAX_FRAME_LEN ''filter frame exceeds maximum length''"
  "filter_write_lp = write_lp"
  by (simp_all add: fun_eq_iff filter_read_lp_def filter_write_lp_def read_lp_def write_lp_def
      filter_read_uvarint_def filter_write_uvarint_def)

interpretation filter_frames: lp_framing filter_read_lp filter_write_lp filter_MAX_FRAME_LEN
  "IoError InvalidData ''filter frame exceeds maximum length''"
  unfolding filter_lp_eq by (rule lp_framing_lp) (simp add: filter_MAX_FRAME_LEN_def)

lemmas filter_codec_defs =
  SubscribeCodec_read_request_def SubscribeCodec_read_response_def
  SubscribeCodec_write_request_def SubscribeCodec_write_response_def
  PushCodec_read_request_def PushCodec_read_response_def
  PushCodec_write_request_def PushCodec_write_response_def

section \<open>Properties\<close>

text \<open>A message pushed to a filter subscriber arrives as it was sent whenever it fits the 1 MiB
  frame; a push that does not fit is refused by the subscriber, and one that is cut off is an end
  of stream, so a subscriber never sees a message that was not pushed in full.\<close>

lemma filter_push_delivery:
  assumes "decode (encode m) = Ok m" and "length (encode m) < 2 ^ 64"
  shows "\<exists>f. PushCodec_write_request encode m = Some f
    \<and> (\<forall>rest. PushCodec_read_request decode (f @ rest) =
         (if length (encode m) \<le> filter_MAX_FRAME_LEN then Ok (m, rest)
          else Err (IoError InvalidData ''filter frame exceeds maximum length'')))
    \<and> (length (encode m) \<le> filter_MAX_FRAME_LEN \<longrightarrow>
         (\<forall>p. strict_prefix p f \<longrightarrow>
           PushCodec_read_request decode p = Err (IoError UnexpectedEof ''failed to fill whole buffer'')))"
proof (cases "length (encode m) \<le> filter_MAX_FRAME_LEN")
  case True
  obtain f where f: "write_message filter_write_lp encode m = Some f"
    and "\<forall>rest. read_message filter_read_lp decode (f @ rest) = Ok (m, rest)"
    using filter_frames.message_roundtrip [of decode encode m, OF assms(1) True] by blast
  with True show ?thesis
    using filter_frames.message_truncated [OF f True, of _ decode] by (simp add: filter_codec_defs)
next
  case False
  obtain f where f: "write_message filter_write_lp encode m = Some f"
    using filter_frames.wr_total [OF assms(2)] by (auto simp: write_message_def)
  have "filter_MAX_FRAME_LEN < length (encode m)" using False by simp
  then show ?thesis
    using filter_frames.message_too_long [OF f _ assms(2), of decode] f False by (simp add: filter_codec_defs)
qed

text \<open>The push of one message, with a concrete encoding of it.\<close>

lemma filter_push_delivery_instance:
  "let m = \<lparr>waku_message = Some (WakuMessage_new ''/a/1/b/c'' [7]), pubsub_topic = Some ''/waku/2/rs/1/0''\<rparr>;
       enc = (\<lambda>_. [10, 1, 7]);
       dec = (\<lambda>b. if b = [10, 1, 7] then Ok m else Err ''bad'')
   in \<exists>f. PushCodec_write_request enc m = Some f \<and> PushCodec_read_request dec f = Ok (m, [])"
proof -
  let ?m = "\<lparr>waku_message = Some (WakuMessage_new ''/a/1/b/c'' [7]), pubsub_topic = Some ''/waku/2/rs/1/0''\<rparr>"
  let ?enc = "\<lambda>_ :: MessagePush. [10, 1, 7] :: bytes"
  let ?dec = "\<lambda>b :: bytes. if b = [10, 1, 7] then Ok ?m else Err ''bad''"
  have "?dec (?enc ?m) = Ok ?m" "length (?enc ?m) < 2 ^ 64" "length (?enc ?m) \<le> filter_MAX_FRAME_LEN"
    by (simp_all add: filter_MAX_FRAME_LEN_def)
  then show ?thesis
    unfolding Let_def using filter_push_delivery [of ?dec ?enc ?m] by (metis append_Nil2)
qed

end
