(* ===== verification/Filter_Registry.thy ===== *)
theory Filter_Registry
  imports Waku_Filter "HOL-Library.AList"
begin

text \<open>
  The subscription registry of \<open>crates/waku-node/src/runtime.rs\<close>: \<open>FilterSub\<close>,
  \<open>apply_filter_request\<close> and \<open>push_filter_matches\<close>. The \<open>HashMap\<close> is an association list with distinct
  keys, whose order stands for the order of iteration. Sending a push is a value of the result; peers
  are of any type. The abstract view is what one client has subscribed to, computed from its own
  requests alone.
\<close>

section \<open>Definitions\<close>

record FilterSub =
  pubsub_topic :: "string option"
  content_topics :: "string list"

definition FilterSub_matches :: "FilterSub \<Rightarrow> string \<Rightarrow> string \<Rightarrow> bool" where
  "FilterSub_matches s topic ct =
     (let topic_ok = (case pubsub_topic s of None \<Rightarrow> True | Some t \<Rightarrow> t = topic);
          ct_ok = (content_topics s = [] \<or> (\<exists>c \<in> set (content_topics s). c = ct))
      in topic_ok \<and> ct_ok)"

type_synonym 'p FilterRegistry = "('p \<times> FilterSub list) list"

definition request_sub :: "FilterSubscribeRequest \<Rightarrow> FilterSub" where
  "request_sub req =
     \<lparr>pubsub_topic = FilterSubscribeRequest.pubsub_topic req,
      content_topics = FilterSubscribeRequest.content_topics req\<rparr>"

definition apply_filter_request ::
  "'p \<Rightarrow> FilterSubscribeRequest \<Rightarrow> 'p FilterRegistry \<Rightarrow> FilterSubscribeResponse \<times> 'p FilterRegistry" where
  "apply_filter_request peer req filters =
     (let kind = filter_subscribe_type req;
          rid = FilterSubscribeRequest.request_id req;
          ok = FilterSubscribeResponse_ok rid
      in if kind = SUBSCRIBE then
           (ok, AList.update peer (unwrap_or (map_of filters peer) [] @ [request_sub req]) filters)
         else if kind = UNSUBSCRIBE then
           (ok, case map_of filters peer of
                  Some subs \<Rightarrow>
                    AList.update peer
                      (filter (\<lambda>s. pubsub_topic s \<noteq> FilterSubscribeRequest.pubsub_topic req
                                 \<or> content_topics s \<noteq> FilterSubscribeRequest.content_topics req) subs)
                      filters
                | None \<Rightarrow> filters)
         else if kind = UNSUBSCRIBE_ALL then (ok, AList.delete peer filters)
         else if kind = PING then (ok, filters)
         else (FilterSubscribeResponse_error rid 400 ''unknown type'', filters))"

text \<open>The requests \<open>push_filter_matches\<close> sends; it returns their number.\<close>

definition push_filter_matches ::
  "'p FilterRegistry \<Rightarrow> string \<Rightarrow> WakuMessage \<Rightarrow> ('p \<times> MessagePush) list \<times> nat" where
  "push_filter_matches filters topic msg =
     (let targets = map fst (filter (\<lambda>(_, subs).
            \<exists>s \<in> set subs. FilterSub_matches s topic (WakuMessage.content_topic msg)) filters);
          push = \<lparr>waku_message = Some msg, MessagePush.pubsub_topic = Some topic\<rparr>
      in (map (\<lambda>p. (p, push)) targets, length targets))"

section \<open>The view of one client\<close>

definition client_request :: "FilterSubscribeRequest \<Rightarrow> FilterSub list \<Rightarrow> FilterSub list" where
  "client_request req subs =
     (if filter_subscribe_type req = SUBSCRIBE then subs @ [request_sub req]
      else if filter_subscribe_type req = UNSUBSCRIBE then filter (\<lambda>s. s \<noteq> request_sub req) subs
      else if filter_subscribe_type req = UNSUBSCRIBE_ALL then []
      else subs)"

definition client_subs :: "'p \<Rightarrow> ('p \<times> FilterSubscribeRequest) list \<Rightarrow> FilterSub list" where
  "client_subs p rs = fold client_request (map snd (filter (\<lambda>(q, _). q = p) rs)) []"

definition registry_after :: "('p \<times> FilterSubscribeRequest) list \<Rightarrow> 'p FilterRegistry" where
  "registry_after rs = fold (\<lambda>(p, r) f. snd (apply_filter_request p r f)) rs []"

definition subs_of :: "'p FilterRegistry \<Rightarrow> 'p \<Rightarrow> FilterSub list" where
  "subs_of filters p = unwrap_or (map_of filters p) []"

definition wf_registry :: "'p FilterRegistry \<Rightarrow> bool" where
  "wf_registry filters \<longleftrightarrow> distinct (map fst filters)"

lemma request_sub_eq:
  "s = request_sub req \<longleftrightarrow> pubsub_topic s = FilterSubscribeRequest.pubsub_topic req
     \<and> content_topics s = FilterSubscribeRequest.content_topics req"
  by (cases s) (auto simp: request_sub_def)

lemma wf_apply: "wf_registry f \<Longrightarrow> wf_registry (snd (apply_filter_request p req f))"
  by (auto simp: wf_registry_def apply_filter_request_def Let_def distinct_update distinct_delete
      split: option.split)

lemma subs_of_apply:
  "subs_of (snd (apply_filter_request p req f)) q =
     (if q = p then client_request req (subs_of f p) else subs_of f q)"
proof -
  have "(pubsub_topic s \<noteq> FilterSubscribeRequest.pubsub_topic req
      \<or> content_topics s \<noteq> FilterSubscribeRequest.content_topics req) = (s \<noteq> request_sub req)" for s
    by (auto simp: request_sub_eq)
  then show ?thesis
    by (auto simp: apply_filter_request_def client_request_def subs_of_def Let_def update_conv'
        map_of_delete delete_conv' PING_def SUBSCRIBE_def UNSUBSCRIBE_def UNSUBSCRIBE_ALL_def
        split: option.split)
qed

lemma registry_after_snoc [simp]:
  "registry_after (rs @ [(p, r)]) = snd (apply_filter_request p r (registry_after rs))"
  by (simp add: registry_after_def)

lemma client_subs_snoc [simp]:
  "client_subs q (rs @ [(p, r)]) = (if p = q then client_request r (client_subs q rs) else client_subs q rs)"
  by (simp add: client_subs_def)

lemma registry_refines: "wf_registry (registry_after rs) \<and> subs_of (registry_after rs) p = client_subs p rs"
proof (induction rs arbitrary: p rule: rev_induct)
  case Nil
  then show ?case by (simp add: registry_after_def wf_registry_def subs_of_def client_subs_def)
next
  case (snoc x rs)
  obtain q r where "x = (q, r)" by fastforce
  with snoc show ?case by (auto simp: wf_apply subs_of_apply)
qed

lemma mem_subs_of:
  assumes "wf_registry f"
  shows "(\<exists>subs. (p, subs) \<in> set f \<and> (\<exists>s \<in> set subs. P s)) \<longleftrightarrow> (\<exists>s \<in> set (subs_of f p). P s)"
proof -
  have "(p, subs) \<in> set f \<longleftrightarrow> map_of f p = Some subs" for subs
    using assms by (simp add: wf_registry_def)
  then show ?thesis by (cases "map_of f p") (simp_all add: subs_of_def)
qed

section \<open>Properties\<close>

text \<open>After any sequence of subscribe, unsubscribe, unsubscribe-all, ping and unknown requests from
  any peers, a relayed message is pushed to exactly the peers that hold a matching subscription in
  their own view, to each once and unchanged, and the number reported is the number of pushes. What
  one peer sends never affects what another one receives.\<close>

lemma filter_push_exact:
  "case push_filter_matches (registry_after rs) topic msg of (pushes, n) \<Rightarrow>
     distinct (map fst pushes)
     \<and> set (map fst pushes) =
         {p. \<exists>s \<in> set (client_subs p rs). FilterSub_matches s topic (WakuMessage.content_topic msg)}
     \<and> map snd pushes = replicate n \<lparr>waku_message = Some msg, MessagePush.pubsub_topic = Some topic\<rparr>"
proof -
  obtain pushes n where a: "push_filter_matches (registry_after rs) topic msg = (pushes, n)" by fastforce
  let ?hit = "\<lambda>s. FilterSub_matches s topic (WakuMessage.content_topic msg)"
  let ?f = "registry_after rs"
  have wf: "wf_registry ?f" by (simp add: registry_refines)
  have fst_pushes: "map fst pushes = map fst (filter (\<lambda>(_, subs). \<exists>s \<in> set subs. ?hit s) ?f)"
    using a by (auto simp: push_filter_matches_def Let_def comp_def)
  have "set (map fst pushes) = {p. \<exists>subs. (p, subs) \<in> set ?f \<and> (\<exists>s \<in> set subs. ?hit s)}"
    unfolding fst_pushes by force
  also have "\<dots> = {p. \<exists>s \<in> set (client_subs p rs). ?hit s}"
    using mem_subs_of [OF wf, of _ ?hit] by (simp add: registry_refines)
  finally have "set (map fst pushes) = {p. \<exists>s \<in> set (client_subs p rs). ?hit s}" .
  moreover have "distinct (map fst pushes)"
    unfolding fst_pushes using wf by (simp add: wf_registry_def distinct_map_filter)
  moreover have "map snd pushes = replicate n \<lparr>waku_message = Some msg, MessagePush.pubsub_topic = Some topic\<rparr>"
    using a by (auto simp: push_filter_matches_def Let_def comp_def map_replicate_const)
  ultimately show ?thesis using a by simp
qed

end
