(* ===== verification/Message_Store.thy ===== *)
theory Message_Store
  imports Waku_Core
begin

text \<open>
  \<open>crates/waku-store/src/lib.rs\<close>: the types of the store, the query builder and the
  \<open>MessageStore\<close> trait. The trait is the locale \<open>message_store\<close>: its operations are the methods,
  its laws what the doc comments of the trait promise. Every operation may fail, so each law is
  about operations that returned \<open>Ok\<close>.
\<close>

section \<open>Definitions\<close>

text \<open>\<open>Db\<close> carries the rendering of the \<open>sqlx\<close> error.\<close>

datatype StoreError = Db string | Corrupt string

definition StoreError_to_string :: "StoreError \<Rightarrow> string" where
  "StoreError_to_string e =
     (case e of Db s \<Rightarrow> ''database error: '' @ s | Corrupt s \<Rightarrow> ''corrupt stored row: '' @ s)"

record StoredMessage =
  hash :: MessageHash
  pubsub_topic :: string
  message :: "WakuMessage option"
  receiver_time_ns :: i64

record StoreQuery =
  pubsub_topic :: "string option"
  content_topics :: "string list"
  time_start_ns :: "i64 option"
  time_end_ns :: "i64 option"
  message_hashes :: "MessageHash list"
  include_data :: bool
  page_size :: u64
  forward :: bool
  cursor :: "MessageHash option"

definition StoreQuery_default :: StoreQuery where
  "StoreQuery_default =
     \<lparr>pubsub_topic = None, content_topics = [], time_start_ns = None, time_end_ns = None,
      message_hashes = [], include_data = True, page_size = 20, forward = True, cursor = None\<rparr>"

definition StoreQuery_content_topic :: "string \<Rightarrow> StoreQuery \<Rightarrow> StoreQuery" where
  "StoreQuery_content_topic topic q = q\<lparr>content_topics := content_topics q @ [topic]\<rparr>"

definition StoreQuery_time_range :: "i64 \<Rightarrow> i64 \<Rightarrow> StoreQuery \<Rightarrow> StoreQuery" where
  "StoreQuery_time_range start_ns end_ns q =
     q\<lparr>time_start_ns := Some start_ns, time_end_ns := Some end_ns\<rparr>"

definition StoreQuery_page_size :: "u64 \<Rightarrow> StoreQuery \<Rightarrow> StoreQuery" where
  "StoreQuery_page_size n q = q\<lparr>page_size := n\<rparr>"

definition StoreQuery_cursor :: "MessageHash \<Rightarrow> StoreQuery \<Rightarrow> StoreQuery" where
  "StoreQuery_cursor c q = q\<lparr>cursor := Some c\<rparr>"

record QueryResult =
  messages :: "StoredMessage list"
  next_cursor :: "MessageHash option"

section \<open>The contract of the trait\<close>

locale message_store =
  fixes inv :: "'s \<Rightarrow> bool"
    and key :: "string \<Rightarrow> WakuMessage \<Rightarrow> MessageHash"
    and put :: "string \<Rightarrow> WakuMessage \<Rightarrow> i64 \<Rightarrow> 's \<Rightarrow> (StoreError, unit) result \<times> 's"
    and get :: "MessageHash \<Rightarrow> 's \<Rightarrow> (StoreError, WakuMessage option) result"
    and find :: "StoreQuery \<Rightarrow> 's \<Rightarrow> (StoreError, QueryResult) result"
    and exists :: "MessageHash list \<Rightarrow> 's \<Rightarrow> (StoreError, MessageHash list) result"
    and message_count :: "'s \<Rightarrow> (StoreError, u64) result"
  assumes put_inv: "inv s \<Longrightarrow> inv (snd (put pt m t s))"
    and put_error: "put pt m t s = (Err e, s') \<Longrightarrow> s' = s"
    and put_present: "put pt m t s = (Ok (), s') \<Longrightarrow> inv s \<Longrightarrow> exists hs s' = Ok found \<Longrightarrow>
      key pt m \<in> set hs \<Longrightarrow> key pt m \<in> set found"
    and put_keeps: "inv s \<Longrightarrow> exists hs s = Ok found \<Longrightarrow> exists hs (snd (put pt m t s)) = Ok found' \<Longrightarrow>
      set found \<subseteq> set found'"
    and put_idempotent: "put pt m t s = (Ok (), s') \<Longrightarrow> inv s \<Longrightarrow> snd (put pt m t' s') = s'"
    and exists_get: "inv s \<Longrightarrow> exists hs s = Ok found \<Longrightarrow> h \<in> set hs \<Longrightarrow> get h s = Ok r \<Longrightarrow>
      h \<in> set found \<longleftrightarrow> r \<noteq> None"
    and exists_subset: "inv s \<Longrightarrow> exists hs s = Ok found \<Longrightarrow> set found \<subseteq> set hs"
    and find_present: "inv s \<Longrightarrow> find q s = Ok res \<Longrightarrow> sm \<in> set (messages res) \<Longrightarrow>
      exists hs s = Ok found \<Longrightarrow> hash sm \<in> set hs \<Longrightarrow> hash sm \<in> set found"
    and find_data: "inv s \<Longrightarrow> find q s = Ok res \<Longrightarrow> sm \<in> set (messages res) \<Longrightarrow>
      if include_data q
      then \<exists>m. message sm = Some m \<and> key (StoredMessage.pubsub_topic sm) m = hash sm
      else message sm = None"
begin

text \<open>Archiving a batch, as the node does message by message: failed writes are skipped.\<close>

definition put_all :: "(string \<times> WakuMessage \<times> i64) list \<Rightarrow> 's \<Rightarrow> 's" where
  "put_all = fold (\<lambda>(pt, m, t) s. snd (put pt m t s))"

lemma put_all_inv: "inv s \<Longrightarrow> inv (put_all ms s)"
  by (induction ms arbitrary: s) (auto simp: put_all_def put_inv)

lemma put_again: "put pt m t s = (r, s') \<Longrightarrow> r = Ok () \<Longrightarrow> inv s \<Longrightarrow> snd (put pt m t' s') = s'"
  using put_idempotent by simp

lemma put_get:
  assumes "put pt m t s = (Ok (), s')" "inv s" "get (key pt m) s' = Ok r"
    "exists [key pt m] s' = Ok found"
  shows "r \<noteq> None"
  using put_present [OF assms(1,2,4)] exists_get [OF _ assms(4) _ assms(3)] put_inv [OF assms(2), of pt m t]
    assms(1) by simp

end

end
