(* ===== verification/Sqlite_Store.thy ===== *)
theory Sqlite_Store
  imports Message_Store "HOL-Library.Product_Lexorder" "HOL-Library.List_Lexorder"
    "HOL-Library.Multiset"
begin

text \<open>
  \<open>crates/waku-store/src/sqlite.rs\<close>. The state is the contents of the \<open>messages\<close> table, one
  record per row; the SQL statements of the source are translated to operations on the list of
  rows. The order of the list stands for the order in which SQLite scans the table, which matters
  only where a statement has no \<open>ORDER BY\<close>. The argument \<open>flt\<close> says for each statement whether
  the engine executes it or fails with an error, in which case it changes nothing.
\<close>

section \<open>Definitions\<close>

record MessageRow =
  message_hash :: bytes
  pubsub_topic :: string
  content_topic :: string
  payload :: bytes
  version :: "i64 option"
  timestamp :: "i64 option"
  meta :: "bytes option"
  rate_limit_proof :: "bytes option"
  ephemeral :: "i64 option"
  receiver_time :: i64
  sort_time :: i64

type_synonym table = "MessageRow list"

datatype Stmt =
  Connect | CreateTable | CreateIndex | SelectCount | DeleteOlder | DeleteOverCapacity | SelectCursor
  | InsertOrIgnore | SelectByHash | SelectPage | SelectHashes

type_synonym engine = "Stmt \<Rightarrow> string option"

definition exec :: "engine \<Rightarrow> Stmt \<Rightarrow> 'a \<Rightarrow> (StoreError, 'a) result" where
  "exec flt st v = (case flt st of Some e \<Rightarrow> Err (Db e) | None \<Rightarrow> Ok v)"

text \<open>\<open>LIMIT\<close> and \<open>OFFSET\<close>: a negative limit is no limit, a negative offset is none.\<close>

definition sql_limit :: "i64 \<Rightarrow> 'a list \<Rightarrow> 'a list" where
  "sql_limit n xs = (if sint n < 0 then xs else take (nat (sint n)) xs)"

definition sql_offset :: "i64 \<Rightarrow> 'a list \<Rightarrow> 'a list" where
  "sql_offset n xs = (if sint n < 0 then xs else drop (nat (sint n)) xs)"

text \<open>
  \<open>ORDER BY sort_time, message_hash\<close>: integers by value, blobs byte by byte, the shorter first.
\<close>

definition row_key :: "MessageRow \<Rightarrow> int \<times> bytes" where
  "row_key r = (sint (sort_time r), message_hash r)"

definition order_by :: "bool \<Rightarrow> table \<Rightarrow> table" where
  "order_by fwd t = (if fwd then sort_key row_key t else rev (sort_key row_key t))"

text \<open>\<open>migrate\<close> creates the table only if it is missing: it keeps the rows there are.\<close>

definition SqliteStore_migrate :: "engine \<Rightarrow> table \<Rightarrow> (StoreError, table) result" where
  "SqliteStore_migrate flt t =
     bind_result (exec flt CreateTable ()) (\<lambda>_. bind_result (exec flt CreateIndex ()) (\<lambda>_. Ok t))"

text \<open>The database files are a map from paths; \<open>options\<close> is \<open>SqliteConnectOptions::from_str\<close>, which gives the path.\<close>

definition SqliteStore_connect ::
  "engine \<Rightarrow> (string \<Rightarrow> (string, string) result) \<Rightarrow> (string \<rightharpoonup> table) \<Rightarrow> string \<Rightarrow> (StoreError, table) result" where
  "SqliteStore_connect flt options dbs url =
     bind_result (map_err Db (options url)) (\<lambda>path.
     bind_result (exec flt Connect ()) (\<lambda>_. SqliteStore_migrate flt (unwrap_or (dbs path) [])))"

definition SqliteStore_in_memory :: "engine \<Rightarrow> (StoreError, table) result" where
  "SqliteStore_in_memory flt = bind_result (exec flt Connect ()) (\<lambda>_. SqliteStore_migrate flt [])"

definition SqliteStore_count :: "engine \<Rightarrow> table \<Rightarrow> (StoreError, u64) result" where
  "SqliteStore_count flt t = exec flt SelectCount (word_of_nat (length t))"

definition SqliteStore_delete_older_than ::
  "engine \<Rightarrow> i64 \<Rightarrow> table \<Rightarrow> (StoreError, u64) result \<times> table" where
  "SqliteStore_delete_older_than flt cutoff_ns t =
     (let t' = filter (\<lambda>r. \<not> sint (sort_time r) < sint cutoff_ns) t
      in case flt DeleteOlder of
           Some e \<Rightarrow> (Err (Db e), t)
         | None \<Rightarrow> (Ok (word_of_nat (length t - length t')), t'))"

definition SqliteStore_enforce_capacity ::
  "engine \<Rightarrow> u64 \<Rightarrow> table \<Rightarrow> (StoreError, u64) result \<times> table" where
  "SqliteStore_enforce_capacity flt max_rows t =
     (let old = map message_hash (sql_offset max_rows (order_by False t));
          t' = filter (\<lambda>r. message_hash r \<notin> set old) t
      in case flt DeleteOverCapacity of
           Some e \<Rightarrow> (Err (Db e), t)
         | None \<Rightarrow> (Ok (word_of_nat (length t - length t')), t'))"

definition cursor_sort_time :: "engine \<Rightarrow> MessageHash \<Rightarrow> table \<Rightarrow> (StoreError, i64 option) result" where
  "cursor_sort_time flt h t =
     exec flt SelectCursor (map_option sort_time (find (\<lambda>r. message_hash r = h) t))"

definition row_to_message :: "MessageRow \<Rightarrow> WakuMessage" where
  "row_to_message r =
     \<lparr>WakuMessage.payload = payload r, content_topic = content_topic r,
      version = map_option ucast (version r), timestamp = timestamp r, meta = meta r,
      rate_limit_proof = rate_limit_proof r, ephemeral = map_option (\<lambda>v. v \<noteq> 0) (ephemeral r)\<rparr>"

definition row_to_hash :: "MessageRow \<Rightarrow> (StoreError, MessageHash) result" where
  "row_to_hash r =
     (if length (message_hash r) = 32 then Ok (message_hash r)
      else Err (Corrupt (''message_hash is '' @ show_nat (length (message_hash r)) @ '' bytes'')))"

text \<open>The row that \<open>put\<close> binds.\<close>

definition new_row :: "(bytes \<Rightarrow> bytes) \<Rightarrow> string \<Rightarrow> WakuMessage \<Rightarrow> i64 \<Rightarrow> MessageRow" where
  "new_row sha256 pt msg rt =
     \<lparr>message_hash = deterministic_hash sha256 pt msg, pubsub_topic = pt,
      content_topic = WakuMessage.content_topic msg, payload = WakuMessage.payload msg,
      version = map_option ucast (WakuMessage.version msg),
      timestamp = WakuMessage.timestamp msg, meta = WakuMessage.meta msg,
      rate_limit_proof = WakuMessage.rate_limit_proof msg,
      ephemeral = map_option (\<lambda>b. if b then 1 else 0) (WakuMessage.ephemeral msg),
      receiver_time = rt,
      sort_time = unwrap_or (WakuMessage.timestamp msg) rt\<rparr>"

definition insert_or_ignore :: "MessageRow \<Rightarrow> table \<Rightarrow> table" where
  "insert_or_ignore r t = (if message_hash r \<in> message_hash ` set t then t else t @ [r])"

definition SqliteStore_put ::
  "(bytes \<Rightarrow> bytes) \<Rightarrow> engine \<Rightarrow> string \<Rightarrow> WakuMessage \<Rightarrow> i64 \<Rightarrow> table
    \<Rightarrow> (StoreError, unit) result \<times> table" where
  "SqliteStore_put sha256 flt pt msg rt t =
     (case flt InsertOrIgnore of
        Some e \<Rightarrow> (Err (Db e), t)
      | None \<Rightarrow> (Ok (), insert_or_ignore (new_row sha256 pt msg rt) t))"

definition SqliteStore_get :: "engine \<Rightarrow> MessageHash \<Rightarrow> table \<Rightarrow> (StoreError, WakuMessage option) result" where
  "SqliteStore_get flt h t =
     exec flt SelectByHash (map_option row_to_message (find (\<lambda>r. message_hash r = h) t))"

text \<open>The \<open>WHERE\<close> clauses that \<open>query\<close> pushes, and the keyset condition of the cursor.\<close>

definition query_filter :: "StoreQuery \<Rightarrow> MessageRow \<Rightarrow> bool" where
  "query_filter q r \<longleftrightarrow>
     (case StoreQuery.pubsub_topic q of None \<Rightarrow> True | Some pt \<Rightarrow> pubsub_topic r = pt)
     \<and> (content_topics q \<noteq> [] \<longrightarrow> content_topic r \<in> set (content_topics q))
     \<and> (message_hashes q \<noteq> [] \<longrightarrow> message_hash r \<in> set (message_hashes q))
     \<and> (case time_start_ns q of None \<Rightarrow> True | Some start \<Rightarrow> sint (sort_time r) \<ge> sint start)
     \<and> (case time_end_ns q of None \<Rightarrow> True | Some stop \<Rightarrow> sint (sort_time r) < sint stop)"

definition cursor_filter :: "bool \<Rightarrow> (i64 \<times> bytes) option \<Rightarrow> MessageRow \<Rightarrow> bool" where
  "cursor_filter fwd cursor_key r \<longleftrightarrow>
     (case cursor_key of
        None \<Rightarrow> True
      | Some (ct, ch) \<Rightarrow>
          if fwd then sint (sort_time r) > sint ct \<or> sort_time r = ct \<and> message_hash r > ch
          else sint (sort_time r) < sint ct \<or> sort_time r = ct \<and> message_hash r < ch)"

definition row_to_stored :: "bool \<Rightarrow> MessageRow \<Rightarrow> (StoreError, StoredMessage) result" where
  "row_to_stored incl r =
     bind_result (row_to_hash r) (\<lambda>h.
       Ok \<lparr>hash = h, StoredMessage.pubsub_topic = pubsub_topic r,
           message = (if incl then Some (row_to_message r) else None),
           receiver_time_ns = receiver_time r\<rparr>)"

definition SqliteStore_query :: "engine \<Rightarrow> StoreQuery \<Rightarrow> table \<Rightarrow> (StoreError, QueryResult) result" where
  "SqliteStore_query flt q t =
     bind_result
       (case cursor q of
          Some c \<Rightarrow> bind_result (cursor_sort_time flt c t) (\<lambda>ot. Ok (map_option (\<lambda>st. (st, c)) ot))
        | None \<Rightarrow> Ok None) (\<lambda>cursor_key.
       let selected = order_by (forward q)
             (filter (\<lambda>r. query_filter q r \<and> cursor_filter (forward q) cursor_key r) t);
           limit = max (page_size q) 1 :: i64
       in bind_result (exec flt SelectPage (sql_limit (limit + 1) selected)) (\<lambda>rows.
            let has_more = int (length rows) > sint limit;
                n = min (length rows) (unat limit)
            in bind_result (map_result (row_to_stored (include_data q)) (take n rows)) (\<lambda>ms.
                 Ok \<lparr>messages = ms,
                     next_cursor = (if has_more \<and> ms \<noteq> [] then Some (hash (last ms)) else None)\<rparr>)))"

definition SqliteStore_message_count :: "engine \<Rightarrow> table \<Rightarrow> (StoreError, u64) result" where
  "SqliteStore_message_count flt t = SqliteStore_count flt t"

definition SqliteStore_exists ::
  "engine \<Rightarrow> MessageHash list \<Rightarrow> table \<Rightarrow> (StoreError, MessageHash list) result" where
  "SqliteStore_exists flt hashes t =
     (if hashes = [] then Ok []
      else bind_result (exec flt SelectHashes (filter (\<lambda>r. message_hash r \<in> set hashes) t))
             (map_result row_to_hash))"

text \<open>
  A client that reads a query to its end, page by page: the table it meets at each request, the
  cursor of each answer passed on in the next request. \<^const>\<open>None\<close>: the answers so far still
  announce more pages.
\<close>

fun read_pages :: "engine \<Rightarrow> StoreQuery \<Rightarrow> table list \<Rightarrow> (StoreError, StoredMessage list) result option" where
  "read_pages flt q [] = None"
| "read_pages flt q (t # ts) =
     (case SqliteStore_query flt q t of
        Err e \<Rightarrow> Some (Err e)
      | Ok res \<Rightarrow>
          (case next_cursor res of
             None \<Rightarrow> Some (Ok (messages res))
           | Some c \<Rightarrow>
               map_option (\<lambda>rest. bind_result rest (\<lambda>ms. Ok (messages res @ ms)))
                 (read_pages flt (StoreQuery_cursor c q) ts)))"

section \<open>The invariant of the table\<close>

text \<open>
  The primary key is a key, every hash is a whole digest and the digest of the row's own message,
  and rows are sorted by the sender's timestamp where there is one.
\<close>

definition wf_row :: "(bytes \<Rightarrow> bytes) \<Rightarrow> MessageRow \<Rightarrow> bool" where
  "wf_row sha256 r \<longleftrightarrow>
     message_hash r = deterministic_hash sha256 (pubsub_topic r) (row_to_message r)
     \<and> length (message_hash r) = 32
     \<and> sort_time r = unwrap_or (timestamp r) (receiver_time r)"

definition wf_table :: "(bytes \<Rightarrow> bytes) \<Rightarrow> table \<Rightarrow> bool" where
  "wf_table sha256 t \<longleftrightarrow> distinct (map message_hash t) \<and> (\<forall>r \<in> set t. wf_row sha256 r)"

definition digest_len :: "(bytes \<Rightarrow> bytes) \<Rightarrow> bool" where
  "digest_len sha256 \<longleftrightarrow> (\<forall>x. length (sha256 x) = 32)"

lemma row_to_message_new_row [simp]: "row_to_message (new_row sha256 pt m rt) = m"
proof -
  have "(ucast (ucast v :: 64 word) :: 32 word) = v" for v :: "32 word"
    by (rule bit_word_eqI) (simp add: bit_unsigned_iff)
  then have "map_option (ucast :: 64 word \<Rightarrow> 32 word) (map_option ucast x) = x" for x
    by (simp add: option.map_comp comp_def option.map_ident)
  moreover have "map_option (\<lambda>v. v \<noteq> (0 :: 64 word)) (map_option (\<lambda>b. if b then 1 else 0) x) = x" for x
    by (cases x) auto
  ultimately show ?thesis by (simp add: row_to_message_def new_row_def del: option.map_comp)
qed

lemma new_row_simps [simp]:
  "message_hash (new_row sha256 pt m rt) = deterministic_hash sha256 pt m"
  "pubsub_topic (new_row sha256 pt m rt) = pt"
  "timestamp (new_row sha256 pt m rt) = WakuMessage.timestamp m"
  "receiver_time (new_row sha256 pt m rt) = rt"
  "sort_time (new_row sha256 pt m rt) = unwrap_or (WakuMessage.timestamp m) rt"
  by (simp_all add: new_row_def)

lemma wf_new_row: "digest_len sha256 \<Longrightarrow> wf_row sha256 (new_row sha256 pt m rt)"
  by (simp add: wf_row_def digest_len_def deterministic_hash_def)

lemma wf_table_Nil [simp]: "wf_table sha256 []"
  by (simp add: wf_table_def)

lemma wf_insert_or_ignore:
  "wf_table sha256 t \<Longrightarrow> wf_row sha256 r \<Longrightarrow> wf_table sha256 (insert_or_ignore r t)"
  by (auto simp: wf_table_def insert_or_ignore_def)

lemma wf_filter: "wf_table sha256 t \<Longrightarrow> wf_table sha256 (filter P t)"
  by (auto simp: wf_table_def distinct_map_filter)

lemma wf_put:
  "digest_len sha256 \<Longrightarrow> wf_table sha256 t \<Longrightarrow> wf_table sha256 (snd (SqliteStore_put sha256 flt pt m rt t))"
  by (auto simp: SqliteStore_put_def wf_insert_or_ignore wf_new_row split: option.split)

lemma wf_delete_older_than:
  "wf_table sha256 t \<Longrightarrow> wf_table sha256 (snd (SqliteStore_delete_older_than flt c t))"
  by (auto simp: SqliteStore_delete_older_than_def Let_def wf_filter split: option.split)

lemma wf_enforce_capacity:
  "wf_table sha256 t \<Longrightarrow> wf_table sha256 (snd (SqliteStore_enforce_capacity flt n t))"
  by (auto simp: SqliteStore_enforce_capacity_def Let_def wf_filter split: option.split)

lemma wf_hash_inj: "wf_table sha256 t \<Longrightarrow> inj_on message_hash (set t)"
  by (simp add: wf_table_def distinct_map)

lemma find_hash:
  "wf_table sha256 t \<Longrightarrow> find (\<lambda>r. message_hash r = h) t = Some r \<longleftrightarrow> r \<in> set t \<and> message_hash r = h"
  by (auto simp: find_Some_iff in_set_conv_nth wf_table_def distinct_conv_nth)

section \<open>Ordered selections\<close>

definition before :: "bool \<Rightarrow> MessageRow \<Rightarrow> MessageRow \<Rightarrow> bool" where
  "before fwd a b \<longleftrightarrow> (if fwd then row_key a < row_key b else row_key b < row_key a)"

lemma before_asym: "before fwd a b \<Longrightarrow> \<not> before fwd b a"
  by (auto simp: before_def)

lemma before_trans: "before fwd a b \<Longrightarrow> before fwd b c \<Longrightarrow> before fwd a c"
  by (auto simp: before_def split: if_splits)

lemma before_total: "message_hash a \<noteq> message_hash b \<Longrightarrow> before fwd a b \<or> before fwd b a"
  by (auto simp: before_def row_key_def neq_iff)

lemma set_order_by [simp]: "set (order_by fwd t) = set t"
  and length_order_by [simp]: "length (order_by fwd t) = length t"
  by (simp_all add: order_by_def)

lemma order_by_filter: "order_by fwd (filter P t) = filter P (order_by fwd t)"
  by (simp add: order_by_def filter_sort flip: rev_filter)

lemma sorted_order_by:
  assumes "distinct (map message_hash t)"
  shows "sorted_wrt (before fwd) (order_by fwd t)"
proof -
  let ?s = "sort_key row_key t"
  have "distinct (map message_hash ?s)"
    using assms by (metis distinct_map distinct_sort set_sort)
  then have "distinct (map row_key ?s)"
    by (auto simp: distinct_conv_nth row_key_def)
  then have "sorted_wrt (<) (map row_key ?s)" by (simp add: strict_sorted_iff)
  then show ?thesis
    by (cases fwd) (simp_all add: order_by_def sorted_wrt_map sorted_wrt_rev before_def [abs_def])
qed

lemma filter_after_nth:
  assumes "sorted_wrt (before fwd) xs" "i < length xs"
  shows "filter (before fwd (xs ! i)) xs = drop (Suc i) xs"
proof -
  have "filter (before fwd (xs ! i)) (take (Suc i) xs) = []"
  proof (rule filter_False, rule ballI)
    fix y assume "y \<in> set (take (Suc i) xs)"
    then obtain j where "j \<le> i" "y = xs ! j"
      using assms(2) by (auto simp: in_set_conv_nth less_Suc_eq_le)
    then show "\<not> before fwd (xs ! i) y"
      using assms by (cases "j = i") (auto simp: sorted_wrt_iff_nth_less dest: before_asym)
  qed
  moreover have "filter (before fwd (xs ! i)) (drop (Suc i) xs) = drop (Suc i) xs"
    using assms by (auto simp: filter_id_conv in_set_conv_nth sorted_wrt_iff_nth_less)
  ultimately show ?thesis by (metis append_take_drop_id filter_append append_Nil)
qed

lemma cursor_filter_None: "cursor_filter fwd None r"
  by (simp add: cursor_filter_def)

lemma cursor_filter_before:
  "cursor_filter fwd (Some (sort_time c, message_hash c)) r \<longleftrightarrow> before fwd c r"
proof -
  consider "sint (sort_time r) < sint (sort_time c)" | "sort_time r = sort_time c"
    | "sint (sort_time c) < sint (sort_time r)"
    using sint_inject by (meson linorder_less_linear)
  then show ?thesis
    by cases (auto simp: cursor_filter_def before_def row_key_def)
qed

section \<open>One page\<close>

definition stored :: "bool \<Rightarrow> MessageRow \<Rightarrow> StoredMessage" where
  "stored incl r =
     \<lparr>hash = message_hash r, StoredMessage.pubsub_topic = pubsub_topic r,
      message = (if incl then Some (row_to_message r) else None),
      receiver_time_ns = receiver_time r\<rparr>"

lemma stored_simps [simp]:
  "hash (stored incl r) = message_hash r"
  "StoredMessage.pubsub_topic (stored incl r) = pubsub_topic r"
  "message (stored incl r) = (if incl then Some (row_to_message r) else None)"
  "receiver_time_ns (stored incl r) = receiver_time r"
  by (simp_all add: stored_def)

lemma rows_to_stored:
  "\<forall>r \<in> set rows. length (message_hash r) = 32 \<Longrightarrow>
   map_result (row_to_stored incl) rows = Ok (map (stored incl) rows)"
  by (rule map_result_all_Ok) (simp add: row_to_stored_def row_to_hash_def stored_def)

text \<open>The cursor of a query, resolved.\<close>

definition cursor_row :: "StoreQuery \<Rightarrow> table \<Rightarrow> MessageRow option" where
  "cursor_row q t = (case cursor q of None \<Rightarrow> None | Some c \<Rightarrow> find (\<lambda>r. message_hash r = c) t)"

text \<open>The rows a query still has to return, in order.\<close>

definition pending_rows :: "StoreQuery \<Rightarrow> table \<Rightarrow> table" where
  "pending_rows q t = order_by (forward q) (filter (\<lambda>r. query_filter q r
     \<and> (case cursor_row q t of None \<Rightarrow> True | Some c \<Rightarrow> before (forward q) c r)) t)"

definition page_len :: "StoreQuery \<Rightarrow> nat" where
  "page_len q = max 1 (unat (page_size q))"

lemma unat_max_page: "unat (max (page_size q) 1) = page_len q"
  by (auto simp: page_len_def max_def word_le_nat_alt)

lemma limit_page:
  fixes xs :: "'a list" and l :: i64
  assumes "unat l < 2 ^ 63"
  defines "rows \<equiv> sql_limit (l + 1) xs"
  shows "(int (length rows) > sint l) = (length xs > unat l)"
    and "take (min (length rows) (unat l)) rows = take (unat l) xs"
proof -
  have l: "sint l = int (unat l)" using assms(1) by (rule sint_small)
  have rows: "rows = xs \<or> rows = take (unat l + 1) xs"
  proof (cases "unat l + 1 < 2 ^ 63")
    case True
    then have "unat (l + 1) = unat l + 1" by (simp add: unat_word_ariths)
    with True have s: "sint (l + 1) = int (unat l + 1)" using sint_small [of "l + 1"] by simp
    show ?thesis unfolding rows_def sql_limit_def s by (simp only: nat_int of_nat_less_0_iff) simp
  next
    case False
    with assms(1) have "unat l = 2 ^ 63 - 1" by simp
    then have "unat l = unat (2 ^ 63 - 1 :: i64)" by simp
    then have "l = 2 ^ 63 - 1" by (rule unsigned_word_eqI)
    then have "sint (l + 1) < 0" by simp
    then show ?thesis unfolding rows_def sql_limit_def by simp
  qed
  then show "(int (length rows) > sint l) = (length xs > unat l)"
    unfolding l of_nat_less_iff by auto
  from rows show "take (min (length rows) (unat l)) rows = take (unat l) xs"
    by (auto simp: min_def split: if_splits)
qed

lemma find_hash_key:
  "map_option (\<lambda>st. (st, h)) (map_option sort_time (find (\<lambda>r. message_hash r = h) t)) =
   map_option (\<lambda>c. (sort_time c, message_hash c)) (find (\<lambda>r. message_hash r = h) t)"
  by (induction t) auto

lemma last_map_take:
  assumes "0 < n" "n < length xs"
  shows "take n xs \<noteq> []" "last (map f (take n xs)) = f (xs ! (n - 1))"
proof -
  show ne: "take n xs \<noteq> []" using assms by auto
  show "last (map f (take n xs)) = f (xs ! (n - 1))"
    using assms by (simp only: last_map [OF ne] last_conv_nth [OF ne]) (simp add: min_def)
qed

lemma query_page:
  assumes "wf_table sha256 t" "\<forall>s. flt s = None" "unat (page_size q) < 2 ^ 63"
  shows "SqliteStore_query flt q t =
    Ok \<lparr>messages = map (stored (include_data q)) (take (page_len q) (pending_rows q t)),
        next_cursor = (if page_len q < length (pending_rows q t)
          then Some (message_hash (pending_rows q t ! (page_len q - 1))) else None)\<rparr>"
proof -
  let ?l = "max (page_size q) 1"
  let ?key = "map_option (\<lambda>c. (sort_time c, message_hash c)) (cursor_row q t)"
  have key: "(case cursor q of
      Some c \<Rightarrow> bind_result (cursor_sort_time flt c t) (\<lambda>ot. Ok (map_option (\<lambda>st. (st, c)) ot))
    | None \<Rightarrow> Ok None) = Ok ?key"
    using assms(2)
    by (simp add: cursor_sort_time_def exec_def cursor_row_def find_hash_key split: option.split)
  have sel: "order_by (forward q) (filter (\<lambda>r. query_filter q r \<and> cursor_filter (forward q) ?key r) t)
      = pending_rows q t"
    by (cases "cursor_row q t")
      (simp_all add: pending_rows_def cursor_filter_before cursor_filter_None)
  have "unat ?l < 2 ^ 63" using assms(3) by (simp add: unat_max_page page_len_def)
  note lim = limit_page [OF this, of "pending_rows q t", unfolded unat_max_page]
  have st: "map_result (row_to_stored (include_data q)) rows = Ok (map (stored (include_data q)) rows)"
    if "set rows \<subseteq> set (pending_rows q t)" for rows
    using assms(1) that by (intro rows_to_stored) (auto simp: wf_table_def wf_row_def pending_rows_def)
  have "0 < page_len q" by (simp add: page_len_def)
  then show ?thesis
    using lim last_map_take(1) [of "page_len q" "pending_rows q t"]
      last_map_take(2) [of "page_len q" "pending_rows q t" "stored (include_data q)"] assms(2)
    by (cases "page_len q < length (pending_rows q t)")
      (simp_all add: SqliteStore_query_def key sel Let_def exec_def st set_take_subset unat_max_page)
qed

section \<open>Reading a query to its end\<close>

abbreviation matching :: "StoreQuery \<Rightarrow> table \<Rightarrow> table" where
  "matching q t \<equiv> order_by (forward q) (filter (query_filter q) t)"

lemma query_filter_cursor [simp]: "query_filter (StoreQuery_cursor c q) = query_filter q"
  by (simp add: fun_eq_iff query_filter_def StoreQuery_cursor_def)

lemma StoreQuery_cursor_simps [simp]:
  "forward (StoreQuery_cursor c q) = forward q"
  "include_data (StoreQuery_cursor c q) = include_data q"
  "page_size (StoreQuery_cursor c q) = page_size q"
  "page_len (StoreQuery_cursor c q) = page_len q"
  "cursor (StoreQuery_cursor c q) = Some c"
  "StoreQuery_cursor c (StoreQuery_cursor c' q) = StoreQuery_cursor c q"
  by (simp_all add: StoreQuery_cursor_def page_len_def)

lemma sorted_matching: "wf_table sha256 t \<Longrightarrow> sorted_wrt (before (forward q)) (matching q t)"
  by (intro sorted_order_by) (simp add: wf_table_def distinct_map_filter)

lemma pending_no_cursor: "cursor_row q t = None \<Longrightarrow> pending_rows q t = matching q t"
  by (simp add: pending_rows_def)

lemma pending_after:
  "cursor_row q t = Some c \<Longrightarrow> pending_rows q t = filter (before (forward q) c) (matching q t)"
  by (simp add: pending_rows_def order_by_filter filter_filter conj_commute)

lemma cursor_row_cursor:
  "wf_table sha256 t \<Longrightarrow> r \<in> set t \<Longrightarrow> cursor_row (StoreQuery_cursor (message_hash r) q) t = Some r"
  by (simp add: cursor_row_def find_hash)

lemma pending_next:
  assumes "wf_table sha256 t" "k < length (matching q t)"
  shows "pending_rows (StoreQuery_cursor (message_hash (matching q t ! k)) q) t = drop (Suc k) (matching q t)"
proof -
  have "matching q t ! k \<in> set t" using nth_mem [OF assms(2)] by simp
  then show ?thesis
    using assms filter_after_nth [OF sorted_matching [OF assms(1)]]
    by (simp add: pending_after [OF cursor_row_cursor])
qed

text \<open>From the point where \<open>k\<close> rows have been read.\<close>

lemma read_pages_from:
  assumes "wf_table sha256 t" "\<forall>s. flt s = None" "unat (page_size q) < 2 ^ 63"
    and "pending_rows q t = drop k (matching q t)" and "length (matching q t) - k < n"
  shows "read_pages flt q (replicate n t) = Some (Ok (map (stored (include_data q)) (drop k (matching q t))))"
  using assms(3-)
proof (induction n arbitrary: q k)
  case (Suc n)
  let ?m = "matching q t" and ?p = "page_len q"
  have p: "0 < ?p" by (simp add: page_len_def)
  note page = query_page [OF assms(1,2) Suc.prems(1), unfolded Suc.prems(2)]
  show ?case
  proof (cases "?p < length ?m - k")
    case True
    define i where "i = k + ?p - 1"
    have i: "i < length ?m" "Suc i = k + ?p" using True p by (auto simp: i_def)
    let ?q = "StoreQuery_cursor (message_hash (?m ! i)) q"
    have "read_pages flt ?q (replicate n t) = Some (Ok (map (stored (include_data ?q)) (drop (Suc i) (matching ?q t))))"
      using Suc.prems i p True by (intro Suc.IH) (auto simp: pending_next [OF assms(1)])
    moreover have "take ?p (drop k ?m) @ drop (Suc i) ?m = drop k ?m"
      using i(2) by (metis append_take_drop_id drop_drop add.commute)
    ultimately show ?thesis
      using True page i p by (simp add: i_def flip: map_append)
  next
    case False
    then show ?thesis using page by simp
  qed
qed simp

text \<open>While other messages are being stored: the table grows from one request to the next.\<close>

lemma set_pending:
  "set (pending_rows q t) = {r \<in> set t. query_filter q r
     \<and> (case cursor_row q t of None \<Rightarrow> True | Some c \<Rightarrow> before (forward q) c r)}"
  by (auto simp: pending_rows_def)

lemma sorted_pending: "wf_table sha256 t \<Longrightarrow> sorted_wrt (before (forward q)) (pending_rows q t)"
  unfolding pending_rows_def by (intro sorted_order_by) (simp add: wf_table_def distinct_map_filter)

lemma sorted_upto_nth:
  "sorted_wrt (before fwd) xs \<Longrightarrow> n < length xs \<Longrightarrow> a \<in> set (take (Suc n) xs) \<Longrightarrow>
   a = xs ! n \<or> before fwd a (xs ! n)"
  by (auto simp: in_set_conv_nth sorted_wrt_iff_nth_less less_Suc_eq)

lemma sorted_page_append:
  assumes xs: "sorted_wrt (before fwd) xs" "n < length xs"
    and ys: "sorted_wrt (before fwd) ys" "\<forall>y \<in> set ys. before fwd (xs ! n) y"
  shows "sorted_wrt (before fwd) (take (Suc n) xs @ ys)"
proof -
  have "before fwd a y" if "a \<in> set (take (Suc n) xs)" "y \<in> set ys" for a y
    using sorted_upto_nth [OF xs that(1)] ys(2) that(2) before_trans by blast
  with xs ys show ?thesis by (simp add: sorted_wrt_append sorted_wrt_take)
qed

text \<open>The cursor a page ends with is found in every later table, and what is left from it on is less than
  before.\<close>

lemma grown_cursor:
  assumes "\<forall>u \<in> set (t # ts). wf_table sha256 u" "sorted_wrt (\<lambda>a b. set a \<subseteq> set b) (t # ts)"
    and "\<forall>u \<in> set (t # ts). cursor_row q u = oc" "c \<in> set (pending_rows q t)" "u \<in> set ts"
  shows "cursor_row (StoreQuery_cursor (message_hash c) q) u = Some c"
    and "set (pending_rows (StoreQuery_cursor (message_hash c) q) u) \<subseteq> set (pending_rows q u) - {c}"
    and "c \<in> set (pending_rows q u)"
proof -
  have t: "c \<in> set t" "set t \<subseteq> set u" "wf_table sha256 u" using assms by (auto simp: set_pending)
  show cur: "cursor_row (StoreQuery_cursor (message_hash c) q) u = Some c"
    using t by (auto intro: cursor_row_cursor)
  have b: "\<not> before (forward q) c c" by (simp add: before_def)
  show "set (pending_rows (StoreQuery_cursor (message_hash c) q) u) \<subseteq> set (pending_rows q u) - {c}"
    using cur b assms(3-5) before_trans [of "forward q" _ c] by (cases oc) (auto simp: set_pending)
  show "c \<in> set (pending_rows q u)" using t assms(3-5) by (auto simp: set_pending)
qed

text \<open>Reading ends, if there are more requests than matches at the last of them.\<close>

lemma read_pages_ends:
  assumes "\<forall>t \<in> set ts. wf_table sha256 t" "sorted_wrt (\<lambda>a b. set a \<subseteq> set b) ts"
    and "\<forall>s. flt s = None" and "unat (page_size q) < 2 ^ 63"
    and "\<forall>t \<in> set ts. cursor_row q t = oc" and "card (set (pending_rows q (last ts))) < length ts"
  shows "read_pages flt q ts \<noteq> None"
  using assms
proof (induction ts arbitrary: q oc)
  case (Cons t ts)
  let ?P = "pending_rows q t"
  have wf: "wf_table sha256 t" using Cons.prems by simp
  note page = query_page [OF wf Cons.prems(3,4)]
  show ?case
  proof (cases "page_len q < length ?P")
    case True
    let ?c = "?P ! (page_len q - 1)"
    let ?q = "StoreQuery_cursor (message_hash ?c) q"
    have c: "?c \<in> set ?P" using True by auto
    note cur = grown_cursor [OF Cons.prems(1,2,5) c]
    have ts: "ts \<noteq> []"
    proof
      assume "ts = []"
      with Cons.prems(6) have "set ?P = {}" by simp
      with c show False by simp
    qed
    then have "card (set (pending_rows ?q (last ts))) \<le> card (set (pending_rows q (last ts)) - {?c})"
      using cur(2) [of "last ts"] by (intro card_mono) auto
    also have "\<dots> < card (set (pending_rows q (last ts)))"
      using cur(3) [of "last ts"] ts by (intro card_Diff1_less) auto
    finally have "read_pages flt ?q ts \<noteq> None"
      using Cons.prems ts cur(1) by (intro Cons.IH [of ?q "Some ?c"]) auto
    then show ?thesis using page True by auto
  qed (use page in simp)
qed simp

lemma read_pages_prefix: "read_pages flt q (take n ts) = Some res \<Longrightarrow> read_pages flt q ts = Some res"
proof (induction flt q ts arbitrary: n res rule: read_pages.induct)
  case (2 flt q t ts)
  then show ?case by (cases n) (fastforce split: sum.splits option.splits)+
qed simp

text \<open>The number of requests the client makes.\<close>

lemma read_pages_requests:
  assumes "read_pages flt q ts = Some res"
  obtains k where "k < length ts" "read_pages flt q (take k ts) = None" "read_pages flt q (take (Suc k) ts) = Some res"
proof -
  define n where "n = (LEAST n. read_pages flt q (take n ts) \<noteq> None)"
  have "read_pages flt q (take (length ts) ts) \<noteq> None" using assms by simp
  then have n: "read_pages flt q (take n ts) \<noteq> None" "n \<le> length ts"
    unfolding n_def by (rule LeastI, rule Least_le)
  then obtain k where k: "n = Suc k" by (cases n) auto
  have "read_pages flt q (take k ts) = None" using not_less_Least [of k "\<lambda>n. read_pages flt q (take n ts) \<noteq> None"] k
    by (auto simp: n_def)
  moreover have "read_pages flt q (take (Suc k) ts) = Some res" using n(1) k read_pages_prefix [of flt q n ts] assms by auto
  moreover have "k < length ts" using n(2) k by simp
  ultimately show ?thesis by (rule that [rotated])
qed

lemma read_pages_growing:
  assumes "\<forall>t \<in> set ts. wf_table sha256 t" "sorted_wrt (\<lambda>a b. set a \<subseteq> set b) ts"
    and "\<forall>s. flt s = None" and "unat (page_size q) < 2 ^ 63"
    and "\<forall>t \<in> set ts. cursor_row q t = oc" and "read_pages flt q ts = Some res"
  shows "\<exists>rs. res = Ok (map (stored (include_data q)) rs) \<and> sorted_wrt (before (forward q)) rs
    \<and> set (pending_rows q (hd ts)) \<subseteq> set rs \<and> set rs \<subseteq> (\<Union>t \<in> set ts. set (pending_rows q t))"
  using assms
proof (induction ts arbitrary: q oc res)
  case (Cons t ts)
  let ?P = "pending_rows q t" and ?n = "page_len q - 1"
  have wf: "wf_table sha256 t" and n: "Suc ?n = page_len q" using Cons.prems by (auto simp: page_len_def)
  note page = query_page [OF wf Cons.prems(3,4)]
  show ?case
  proof (cases "page_len q < length ?P")
    case False
    with page Cons.prems show ?thesis using sorted_pending [OF wf] by (intro exI [of _ ?P]) auto
  next
    case True
    let ?c = "?P ! ?n"
    let ?q = "StoreQuery_cursor (message_hash ?c) q"
    have c: "?n < length ?P" "?c \<in> set ?P" using True by auto
    from page Cons.prems(6) True obtain r where r: "read_pages flt ?q ts = Some r"
      "res = bind_result r (\<lambda>ms. Ok (map (stored (include_data q)) (take (page_len q) ?P) @ ms))"
      by auto
    then obtain t' ts' where ts: "ts = t' # ts'" by (cases ts) auto
    have cur: "\<forall>u \<in> set ts. cursor_row ?q u = Some ?c"
      using grown_cursor(1) [OF Cons.prems(1,2,5) c(2)] by blast
    obtain rs where rs: "r = Ok (map (stored (include_data q)) rs)" "sorted_wrt (before (forward q)) rs"
      "set (pending_rows ?q (hd ts)) \<subseteq> set rs" "set rs \<subseteq> (\<Union>u \<in> set ts. set (pending_rows ?q u))"
      using Cons.IH [OF _ _ Cons.prems(3) _ cur r(1)] Cons.prems by auto
    have after: "\<forall>y \<in> set rs. before (forward q) ?c y" using rs(4) cur by (auto simp: set_pending)
    have "drop (page_len q) ?P = filter (before (forward q) ?c) ?P"
      using filter_after_nth [OF sorted_pending [OF wf] c(1)] n by simp
    then have "set (drop (page_len q) ?P) \<subseteq> set (pending_rows ?q t')"
      using Cons.prems ts cur by (auto simp: set_pending)
    moreover have "set ?P = set (take (page_len q) ?P) \<union> set (drop (page_len q) ?P)"
      by (metis append_take_drop_id set_append)
    ultimately have cover: "set ?P \<subseteq> set (take (page_len q) ?P @ rs)"
      using rs(3) ts by auto
    have sub: "set (pending_rows ?q u) \<subseteq> set (pending_rows q u)" if "u \<in> set ts" for u
      using grown_cursor(2) [OF Cons.prems(1,2,5) c(2) that] by blast
    have "set rs \<subseteq> (\<Union>u \<in> set ts. set (pending_rows q u))"
      by (rule order_trans [OF rs(4)], rule UN_mono [OF subset_refl], erule sub)
    then have "set (take (page_len q) ?P @ rs) \<subseteq> (\<Union>u \<in> set (t # ts). set (pending_rows q u))"
      by (auto dest: in_set_takeD)
    moreover have "sorted_wrt (before (forward q)) (take (page_len q) ?P @ rs)"
      using sorted_page_append [OF sorted_pending [OF wf] c(1) rs(2) after] n by simp
    ultimately show ?thesis
      using cover r(2) rs(1) by (intro exI [of _ "take (page_len q) ?P @ rs"]) simp
  qed
qed simp

section \<open>The trait's contract\<close>

lemma exec_Ok [simp]: "exec flt st v = Ok x \<longleftrightarrow> flt st = None \<and> x = v"
  by (auto simp: exec_def split: option.split)

lemma exists_Ok:
  assumes "wf_table sha256 t" "SqliteStore_exists flt hs t = Ok found"
  shows "set found = set hs \<inter> message_hash ` set t"
proof -
  have "map_result row_to_hash (filter P t) = Ok (map message_hash (filter P t))" for P
    using assms(1) by (intro map_result_all_Ok) (auto simp: row_to_hash_def wf_table_def wf_row_def)
  then show ?thesis using assms(2) by (auto simp: SqliteStore_exists_def split: if_splits)
qed

lemma get_Ok:
  assumes "wf_table sha256 t" "SqliteStore_get flt h t = Ok r"
  shows "r = Some m \<longleftrightarrow> (\<exists>x \<in> set t. message_hash x = h \<and> row_to_message x = m)"
proof -
  have "r = map_option row_to_message (find (\<lambda>x. message_hash x = h) t)"
    using assms(2) by (simp add: SqliteStore_get_def)
  then show ?thesis using find_hash [OF assms(1)] by (auto simp: eq_commute [of "Some m"])
qed

lemma query_Ok:
  assumes "SqliteStore_query flt q t = Ok res" "sm \<in> set (messages res)"
  shows "\<exists>r \<in> set t. query_filter q r \<and> length (message_hash r) = 32 \<and> sm = stored (include_data q) r"
proof -
  have conv: "row_to_stored incl r = Ok m \<Longrightarrow> length (message_hash r) = 32 \<and> m = stored incl r" for incl r m
    by (auto simp: row_to_stored_def row_to_hash_def stored_def split: if_splits)
  have lim: "set (sql_limit n xs) \<subseteq> set xs" for n and xs :: table
    by (auto simp: sql_limit_def dest: in_set_takeD)
  let ?sel = "\<lambda>k. order_by (forward q) (filter (\<lambda>r. query_filter q r \<and> cursor_filter (forward q) k r) t)"
  let ?rows = "\<lambda>k. sql_limit (max (page_size q) 1 + 1) (?sel k)"
  from assms(1) obtain k where
    "map_result (row_to_stored (include_data q))
      (take (min (length (?rows k)) (unat (max (page_size q) 1))) (?rows k)) = Ok (messages res)"
    by (auto simp: SqliteStore_query_def Let_def)
  from map_result_Ok_set [OF this assms(2)] obtain r where
    "r \<in> set (?rows k)" "row_to_stored (include_data q) r = Ok sm"
    by (auto dest: in_set_takeD)
  moreover have "set (?rows k) \<subseteq> set (?sel k)" by (rule lim)
  ultimately show ?thesis using conv by auto
qed

lemma message_count_Ok: "SqliteStore_message_count flt t = Ok n \<Longrightarrow> n = word_of_nat (length t)"
  by (simp add: SqliteStore_message_count_def SqliteStore_count_def)

lemma put_Ok:
  "SqliteStore_put sha256 flt pt m rt t = (r, t') \<Longrightarrow>
   (r = Ok () \<and> t' = insert_or_ignore (new_row sha256 pt m rt) t) \<or> (\<exists>e. r = Err e) \<and> t' = t"
  by (auto simp: SqliteStore_put_def split: option.splits)

lemma set_insert_or_ignore:
  "message_hash ` set (insert_or_ignore r t) = insert (message_hash r) (message_hash ` set t)"
  by (auto simp: insert_or_ignore_def)

interpretation sqlite: message_store
  "\<lambda>t. digest_len sha256 \<and> wf_table sha256 t" "deterministic_hash sha256"
  "SqliteStore_put sha256 flt" "SqliteStore_get flt" "SqliteStore_query flt"
  "SqliteStore_exists flt" "SqliteStore_message_count flt" for sha256 flt
proof
  fix t t' pt m rt rt' hs found found' h r q res sm
  let ?put = "SqliteStore_put sha256 flt pt m rt t"
  show "digest_len sha256 \<and> wf_table sha256 (snd ?put)" if "digest_len sha256 \<and> wf_table sha256 t"
    using that wf_put by blast
  show "t' = t" if "?put = (Err e, t')" for e using put_Ok [OF that] by auto
  show "deterministic_hash sha256 pt m \<in> set found"
    if "?put = (Ok (), t')" "digest_len sha256 \<and> wf_table sha256 t" "SqliteStore_exists flt hs t' = Ok found"
      "deterministic_hash sha256 pt m \<in> set hs"
    using that wf_put [of sha256 t flt pt m rt] exists_Ok [of sha256 t' flt hs found] put_Ok [OF that(1)]
    by (auto simp: set_insert_or_ignore)
  show "set found \<subseteq> set found'"
    if "digest_len sha256 \<and> wf_table sha256 t" "SqliteStore_exists flt hs t = Ok found"
      "SqliteStore_exists flt hs (snd ?put) = Ok found'"
    using that wf_put [of sha256 t flt pt m rt] exists_Ok [of sha256 _ flt hs]
      put_Ok [of sha256 flt pt m rt t "fst ?put" "snd ?put"]
    by (auto simp: set_insert_or_ignore)
  show "snd (SqliteStore_put sha256 flt pt m rt' t') = t'" if "?put = (Ok (), t')"
    using put_Ok [OF that] by (auto simp: SqliteStore_put_def insert_or_ignore_def split: option.split)
  show "h \<in> set found \<longleftrightarrow> r \<noteq> None"
    if "digest_len sha256 \<and> wf_table sha256 t" "SqliteStore_exists flt hs t = Ok found" "h \<in> set hs"
      "SqliteStore_get flt h t = Ok r"
    using that exists_Ok [of sha256 t flt hs found] get_Ok [of sha256 t flt h r] by auto
  show "set found \<subseteq> set hs"
    if "digest_len sha256 \<and> wf_table sha256 t" "SqliteStore_exists flt hs t = Ok found"
    using that exists_Ok by blast
  show "hash sm \<in> set found"
    if "digest_len sha256 \<and> wf_table sha256 t" "SqliteStore_query flt q t = Ok res"
      "sm \<in> set (messages res)" "SqliteStore_exists flt hs t = Ok found" "hash sm \<in> set hs"
    using that exists_Ok [of sha256 t flt hs found] query_Ok [of flt q t res sm] by auto
  show "if include_data q
      then \<exists>m. message sm = Some m \<and> deterministic_hash sha256 (StoredMessage.pubsub_topic sm) m = hash sm
      else message sm = None"
    if "digest_len sha256 \<and> wf_table sha256 t" "SqliteStore_query flt q t = Ok res" "sm \<in> set (messages res)"
    using that query_Ok [of flt q t res sm] by (auto simp: wf_table_def wf_row_def)
qed

section \<open>Retention\<close>

lemma distinct_wf: "wf_table sha256 t \<Longrightarrow> distinct t"
  by (simp add: wf_table_def distinct_map)

lemma distinct_order_by: "distinct t \<Longrightarrow> distinct (order_by fwd t)"
  by (simp add: order_by_def)

lemma sql_offset_small: "unat n < 2 ^ 63 \<Longrightarrow> sql_offset n xs = drop (unat n) xs"
  by (simp only: sql_offset_def sint_small nat_int of_nat_less_0_iff if_False)

lemma set_take_iff_not_drop: "distinct xs \<Longrightarrow> set (take n xs) = set xs - set (drop n xs)"
  using set_append [of "take n xs" "drop n xs"] distinct_append [of "take n xs" "drop n xs"] by auto

lemma kept_rows:
  assumes "wf_table sha256 t" "unat n < 2 ^ 63"
  shows "set (filter (\<lambda>r. message_hash r \<notin> set (map message_hash (sql_offset n (order_by False t)))) t)
    = set (take (unat n) (order_by False t))"
proof -
  let ?D = "order_by False t"
  have D: "distinct ?D" using assms(1) by (intro distinct_order_by) (rule distinct_wf)
  have "message_hash r \<in> message_hash ` set (drop (unat n) ?D) \<longleftrightarrow> r \<in> set (drop (unat n) ?D)"
    if "r \<in> set t" for r
    using that set_drop_subset [of "unat n" ?D]
    by (intro inj_on_image_mem_iff [OF wf_hash_inj [OF assms(1)]]) simp_all
  then show ?thesis
    using set_take_iff_not_drop [OF D, of "unat n"] by (auto simp: sql_offset_small [OF assms(2)])
qed

section \<open>Properties\<close>

text \<open>C7: Reading a store query page by page returns every matching message exactly once, in order.
  For a table in a consistent state, a query without a cursor and any page size below
  \<open>2 ^ 63\<close>, following the cursors ends after at most one request more than there are matches, and
  the pages put together are the matching rows in the order of sort time and hash, forwards or
  backwards, each returned with its message data exactly if the query asks for it.\<close>

theorem paging_complete:
  assumes "wf_table sha256 t" "\<forall>s. flt s = None" "unat (page_size q) < 2 ^ 63" "cursor q = None"
    and "length (filter (query_filter q) t) < n"
  shows "read_pages flt q (replicate n t) =
      Some (Ok (map (stored (include_data q)) (order_by (forward q) (filter (query_filter q) t))))
    \<and> sorted_wrt (before (forward q)) (order_by (forward q) (filter (query_filter q) t))"
  using read_pages_from [OF assms(1-3), of 0 n] sorted_matching [OF assms(1)] assms(4,5)
  by (simp add: pending_no_cursor cursor_row_def)

text \<open>C8: The same client while other messages are being stored. If the table only grows between
  the requests, and there is time for more requests than there are matches at the end, the client comes
  to the end of the query. The pages it got by then, put together, are strictly ordered, so no message comes
  twice; they contain every match that was there at its first request, and nothing that is not a
  match in the table at its last request.\<close>

theorem paging_with_concurrent_inserts:
  assumes "\<forall>t \<in> set ts. wf_table sha256 t" "sorted_wrt (\<lambda>a b. set a \<subseteq> set b) ts"
    and "\<forall>s. flt s = None" "unat (page_size q) < 2 ^ 63" "cursor q = None"
    and "length (filter (query_filter q) (last ts)) < length ts"
  shows "\<exists>k rs. k < length ts \<and> read_pages flt q (take k ts) = None
    \<and> read_pages flt q (take (Suc k) ts) = Some (Ok (map (stored (include_data q)) rs))
    \<and> sorted_wrt (before (forward q)) rs
    \<and> {r \<in> set (hd ts). query_filter q r} \<subseteq> set rs
    \<and> set rs \<subseteq> {r \<in> set (ts ! k). query_filter q r}"
proof -
  have nc: "\<forall>t \<in> set ts. cursor_row q t = None" using assms(5) by (simp add: cursor_row_def)
  have "card (set (pending_rows q (last ts))) \<le> length (filter (query_filter q) (last ts))"
    using card_length [of "filter (query_filter q) (last ts)"] nc assms(5)
    by (simp add: pending_no_cursor cursor_row_def)
  then obtain res where "read_pages flt q ts = Some res"
    using read_pages_ends [OF assms(1-4) nc] assms(6) by fastforce
  then obtain k where k: "k < length ts" "read_pages flt q (take k ts) = None"
    "read_pages flt q (take (Suc k) ts) = Some res" by (rule read_pages_requests)
  let ?us = "take (Suc k) ts"
  have us: "\<forall>t \<in> set ?us. wf_table sha256 t" "sorted_wrt (\<lambda>a b. set a \<subseteq> set b) ?us" "\<forall>t \<in> set ?us. cursor_row q t = None"
    using assms(1,2) nc by (auto dest: in_set_takeD intro: sorted_wrt_take)
  have le: "set t \<subseteq> set (ts ! k)" if "t \<in> set ?us" for t
    using that us(2) k(1) by (auto simp: take_Suc_conv_app_nth sorted_wrt_append)
  obtain rs where rs: "res = Ok (map (stored (include_data q)) rs)" "sorted_wrt (before (forward q)) rs"
    "set (pending_rows q (hd ?us)) \<subseteq> set rs" "set rs \<subseteq> (\<Union>t \<in> set ?us. set (pending_rows q t))"
    using read_pages_growing [OF us(1,2) assms(3,4) us(3) k(3)] by blast
  have hd: "hd ?us = hd ts" "hd ts \<in> set ts" using k(1) by (cases ts; auto)+
  have "{r \<in> set (hd ts). query_filter q r} \<subseteq> set rs"
    using rs(3) nc hd by (simp add: set_pending)
  moreover have "set rs \<subseteq> {r \<in> set (ts ! k). query_filter q r}"
    using rs(4) le us(3) by (fastforce simp: set_pending)
  ultimately show ?thesis using k rs(1,2) by blast
qed

text \<open>C13: Storing and looking up. Storing a message whose hash is new makes exactly that message
  available under its hash, unchanged in every field; under every other hash nothing changes; a
  message whose hash is already there changes nothing; and the table stays consistent.\<close>

theorem put_get_roundtrip:
  assumes "digest_len sha256" "wf_table sha256 t" "\<forall>s. flt s = None"
    and "SqliteStore_put sha256 flt pt m rt t = (r, t')"
  shows "r = Ok () \<and> wf_table sha256 t'
    \<and> (deterministic_hash sha256 pt m \<notin> message_hash ` set t \<longrightarrow>
         SqliteStore_get flt (deterministic_hash sha256 pt m) t' = Ok (Some m))
    \<and> (deterministic_hash sha256 pt m \<in> message_hash ` set t \<longrightarrow> t' = t)
    \<and> (\<forall>h. h \<noteq> deterministic_hash sha256 pt m \<longrightarrow> SqliteStore_get flt h t' = SqliteStore_get flt h t)"
proof -
  have t': "t' = insert_or_ignore (new_row sha256 pt m rt) t" "r = Ok ()"
    using assms(3,4) by (auto simp: SqliteStore_put_def)
  moreover have "find P (xs @ [x]) = (if P x \<and> find P xs = None then Some x else find P xs)"
    for P xs and x :: MessageRow by (induction xs) auto
  moreover have "find (\<lambda>x. message_hash x = h) t = None \<longleftrightarrow> h \<notin> message_hash ` set t" for h
    by (auto simp: find_None_iff)
  ultimately show ?thesis
    using assms wf_put [OF assms(1,2), of flt pt m rt]
    by (auto simp: SqliteStore_get_def exec_def insert_or_ignore_def)
qed

text \<open>C35: Capacity retention keeps exactly the most recent messages. With a capacity below
  \<open>2 ^ 63\<close> the rows left are the first ones of the table sorted from the newest to the oldest, as many as
  the capacity allows; the number of deleted rows is reported, and the table stays consistent.\<close>

theorem capacity_retention:
  assumes "wf_table sha256 t" "\<forall>s. flt s = None" "unat n < 2 ^ 63"
    and "SqliteStore_enforce_capacity flt n t = (r, t')"
  shows "set t' = set (take (unat n) (order_by False t)) \<and> length t' = min (unat n) (length t)
    \<and> r = Ok (word_of_nat (length t - length t')) \<and> wf_table sha256 t'
    \<and> (\<forall>a \<in> set t'. \<forall>b \<in> set t - set t'. row_key b < row_key a)"
proof -
  let ?D = "order_by False t"
  have t': "t' = filter (\<lambda>r. message_hash r \<notin> set (map message_hash (sql_offset n ?D))) t"
    and r: "r = Ok (word_of_nat (length t - length t'))"
    using assms(2,4) by (auto simp: SqliteStore_enforce_capacity_def Let_def)
  have set: "set t' = set (take (unat n) ?D)" using kept_rows [OF assms(1,3)] t' by simp
  have D: "distinct ?D" using assms(1) by (intro distinct_order_by) (rule distinct_wf)
  have "distinct t'" using distinct_wf [OF assms(1)] t' by simp
  then have "length t' = card (set (take (unat n) ?D))" using set distinct_card by fastforce
  also have "\<dots> = min (unat n) (length t)" using D by (simp add: distinct_card)
  finally have len: "length t' = min (unat n) (length t)" .
  have "sorted_wrt (before False) ?D" using assms(1) by (intro sorted_order_by) (simp add: wf_table_def)
  then have "sorted_wrt (before False) (take (unat n) ?D @ drop (unat n) ?D)" by simp
  then have "row_key b < row_key a" if "a \<in> set (take (unat n) ?D)" "b \<in> set (drop (unat n) ?D)" for a b
    using that unfolding sorted_wrt_append by (auto simp: before_def)
  moreover have "set t - set t' = set (drop (unat n) ?D)"
    using set set_take_iff_not_drop [OF D, of "unat n"] set_drop_subset [of "unat n" ?D] by auto
  ultimately show ?thesis using set len r wf_filter [OF assms(1)] t' by auto
qed

text \<open>A capacity at or above \<open>2 ^ 63\<close> empties the table. The capacity is cast to a signed integer,
  a negative \<open>OFFSET\<close> counts as zero, and so every row is deleted instead of none.\<close>

lemma huge_capacity_deletes_everything:
  assumes "\<forall>s. flt s = None" "unat n \<ge> 2 ^ 63"
  shows "SqliteStore_enforce_capacity flt n t = (Ok (word_of_nat (length t)), [])"
  using assms sint_big [OF assms(2)]
  by (simp add: SqliteStore_enforce_capacity_def Let_def sql_offset_def)

text \<open>A page size of \<open>u64::MAX\<close> returns an empty page and no cursor, whatever the table holds: the
  limit wraps to \<open>-1\<close>, and the statement asks for \<open>LIMIT 0\<close>.\<close>

lemma max_page_size_returns_nothing:
  assumes "\<forall>s. flt s = None" "page_size q = - 1"
  shows "SqliteStore_query flt q t = Ok \<lparr>messages = [], next_cursor = None\<rparr>"
proof -
  have max: "max (page_size q) 1 = - 1" using assms(2) by (simp add: max_absorb1 word_order.extremum)
  have "\<exists>k. (case cursor q of
      Some c \<Rightarrow> bind_result (cursor_sort_time flt c t) (\<lambda>ot. Ok (map_option (\<lambda>st. (st, c)) ot))
    | None \<Rightarrow> Ok None) = Ok k"
    using assms(1) by (simp add: cursor_sort_time_def exec_def split: option.split)
  then show ?thesis
    using assms(1) unfolding SqliteStore_query_def max
    by (auto simp: exec_def sql_limit_def Let_def)
qed

text \<open>A cursor the table does not hold (never stored, or deleted by retention since the last page)
  is ignored: the query starts again from its first page instead of failing.\<close>

lemma stale_cursor_restarts:
  assumes "\<forall>s. flt s = None" "cursor q = Some c" "c \<notin> message_hash ` set t"
  shows "SqliteStore_query flt q t = SqliteStore_query flt (q\<lparr>cursor := None\<rparr>) t"
proof -
  have "find (\<lambda>r. message_hash r = c) t = None" using assms(3) by (auto simp: find_None_iff)
  moreover have "query_filter (q\<lparr>cursor := None\<rparr>) = query_filter q"
    by (simp add: fun_eq_iff query_filter_def)
  ultimately show ?thesis
    using assms(1,2) by (simp add: SqliteStore_query_def cursor_sort_time_def exec_def)
qed

section \<open>A concrete table\<close>

text \<open>A stand-in digest: the first 32 bytes of the input, padded with zeros.\<close>

definition ex_digest :: "bytes \<Rightarrow> bytes" where
  "ex_digest x = take 32 (x @ replicate 32 0)"

definition ex_message :: "u8 \<Rightarrow> WakuMessage" where
  "ex_message b = WakuMessage_new ''/a/1/b/c'' [b]"

definition ex_put :: "u8 \<Rightarrow> table \<Rightarrow> table" where
  "ex_put b t = snd (SqliteStore_put ex_digest (\<lambda>_. None) ''t'' (ex_message b) 5 t)"

definition ex_table :: table where
  "ex_table = ex_put 2 (ex_put 1 [])"

lemma ex_digest_len: "digest_len ex_digest"
  by (auto simp: digest_len_def ex_digest_def min_def)

lemma ex_put_wf: "wf_table ex_digest t \<Longrightarrow> wf_table ex_digest (ex_put b t)"
  unfolding ex_put_def by (rule wf_put [OF ex_digest_len])

lemma ex_table_wf: "wf_table ex_digest ex_table"
  unfolding ex_table_def by (intro ex_put_wf wf_table_Nil)

lemma ex_hash: "deterministic_hash ex_digest ''t'' (ex_message b) =
    [0x74, b, 0x2f, 0x61, 0x2f, 0x31, 0x2f, 0x62, 0x2f, 0x63] @ replicate 22 0"
  by (simp add: deterministic_hash_def hash_input_def ex_digest_def ex_message_def WakuMessage_new_def
      as_bytes_def numeral_eq_Suc)

lemma ex_put_new: "\<forall>r \<in> set t. message_hash r \<noteq> deterministic_hash ex_digest ''t'' (ex_message b) \<Longrightarrow>
    ex_put b t = t @ [new_row ex_digest ''t'' (ex_message b) 5]"
  by (auto simp: ex_put_def SqliteStore_put_def insert_or_ignore_def)

lemma ex_table_eq: "ex_table =
    [new_row ex_digest ''t'' (ex_message 1) 5, new_row ex_digest ''t'' (ex_message 2) 5]"
  by (simp add: ex_table_def ex_put_new ex_hash)

lemma ex_query_all: "query_filter StoreQuery_default r"
  by (simp add: query_filter_def StoreQuery_default_def)

lemma ex_page_query:
  "query_filter (StoreQuery_page_size 1 StoreQuery_default) r"
  "cursor (StoreQuery_page_size 1 StoreQuery_default) = None"
  "page_size (StoreQuery_page_size 1 StoreQuery_default) = 1"
  "include_data (StoreQuery_page_size 1 StoreQuery_default)"
  "forward (StoreQuery_page_size 1 StoreQuery_default)"
  by (simp_all add: query_filter_def StoreQuery_default_def StoreQuery_page_size_def)

theorem paging_complete_witness:
  "\<exists>ms. read_pages (\<lambda>_. None) (StoreQuery_page_size 1 StoreQuery_default) (replicate 3 ex_table) = Some (Ok ms)
     \<and> length ms = 2"
  using paging_complete [OF ex_table_wf, of "\<lambda>_. None" "StoreQuery_page_size 1 StoreQuery_default" 3]
  by (simp add: ex_page_query ex_table_eq)

text \<open>A third message arrives after the first page.\<close>

abbreviation ex_growing :: "table list" where
  "ex_growing \<equiv> ex_table # replicate 3 (ex_put 3 ex_table)"

lemma ex_put_3: "ex_put 3 ex_table = ex_table @ [new_row ex_digest ''t'' (ex_message 3) 5]"
  by (simp add: ex_put_new ex_table_eq ex_hash)

theorem paging_with_concurrent_inserts_witness:
  "\<exists>k rs. 0 < k \<and> read_pages (\<lambda>_. None) (StoreQuery_page_size 1 StoreQuery_default) (take (Suc k) ex_growing)
       = Some (Ok (map (stored True) rs))
     \<and> set ex_table \<subseteq> set rs \<and> set rs \<subseteq> set (ex_put 3 ex_table)"
proof -
  let ?q = "StoreQuery_page_size 1 StoreQuery_default"
  have wf: "\<forall>t \<in> set ex_growing. wf_table ex_digest t" using ex_table_wf ex_put_wf by simp
  have grow: "sorted_wrt (\<lambda>a b. set a \<subseteq> set b) ex_growing"
    by (auto simp: ex_put_3 numeral_eq_Suc)
  have p: "unat (page_size ?q) < 2 ^ 63" "cursor ?q = None" by (simp_all add: ex_page_query)
  have many: "length (filter (query_filter ?q) (last ex_growing)) < length ex_growing"
    by (simp add: ex_page_query ex_put_3) (simp add: ex_table_eq)
  have first: "read_pages (\<lambda>_. None) ?q (take (Suc 0) ex_growing) = None"
    using query_page [OF ex_table_wf, of "\<lambda>_. None" ?q]
    by (simp add: ex_page_query page_len_def pending_no_cursor cursor_row_def ex_table_eq)
  obtain k rs where k: "k < length ex_growing"
    "read_pages (\<lambda>_. None) ?q (take (Suc k) ex_growing) = Some (Ok (map (stored (include_data ?q)) rs))"
    "{r \<in> set (hd ex_growing). query_filter ?q r} \<subseteq> set rs"
    "set rs \<subseteq> {r \<in> set (ex_growing ! k). query_filter ?q r}"
    using paging_with_concurrent_inserts [OF wf grow _ p many, of "\<lambda>_. None"] by blast
  moreover have "k \<noteq> 0" using first k(2) by (metis option.distinct(1))
  moreover from this obtain j where "k = Suc j" by (cases k) auto
  ultimately show ?thesis by (intro exI [of _ k] exI [of _ rs]) (auto simp: ex_page_query)
qed

theorem put_get_roundtrip_witness:
  "SqliteStore_get (\<lambda>_. None) (deterministic_hash ex_digest ''t'' (ex_message 3)) (ex_put 3 ex_table)
     = Ok (Some (ex_message 3))"
proof -
  have "SqliteStore_put ex_digest (\<lambda>_. None) ''t'' (ex_message 3) 5 ex_table = (Ok (), ex_put 3 ex_table)"
    by (simp add: ex_put_def SqliteStore_put_def)
  from put_get_roundtrip [OF ex_digest_len ex_table_wf _ this] show ?thesis
    by (simp add: ex_table_eq ex_hash)
qed

theorem capacity_retention_witness:
  "length (snd (SqliteStore_enforce_capacity (\<lambda>_. None) 1 ex_table)) = 1"
  using capacity_retention [OF ex_table_wf, of "\<lambda>_. None" 1
      "fst (SqliteStore_enforce_capacity (\<lambda>_. None) 1 ex_table)"
      "snd (SqliteStore_enforce_capacity (\<lambda>_. None) 1 ex_table)"]
  by (simp add: ex_table_eq)

lemma huge_capacity_deletes_everything_instance:
  "SqliteStore_enforce_capacity (\<lambda>_. None) 0x8000000000000000 ex_table = (Ok 2, [])"
  using huge_capacity_deletes_everything [of "\<lambda>_. None" "0x8000000000000000" ex_table]
  by (simp add: ex_table_eq)

lemma max_page_size_returns_nothing_instance:
  "SqliteStore_query (\<lambda>_. None) (StoreQuery_page_size (- 1) StoreQuery_default) ex_table
     = Ok \<lparr>messages = [], next_cursor = None\<rparr>"
  by (rule max_page_size_returns_nothing) (simp_all add: StoreQuery_page_size_def)

lemma stale_cursor_restarts_instance:
  "SqliteStore_query (\<lambda>_. None) (StoreQuery_cursor [] StoreQuery_default) ex_table
     = SqliteStore_query (\<lambda>_. None) StoreQuery_default ex_table"
  using stale_cursor_restarts [of "\<lambda>_. None" "StoreQuery_cursor [] StoreQuery_default" "[]" ex_table]
  by (simp add: ex_table_eq ex_hash StoreQuery_cursor_def StoreQuery_default_def)

end
