(* ===== verification/Store_Query.thy ===== *)
theory Store_Query
  imports Sqlite_Store Lp_Frame
begin

text \<open>
  \<open>crates/waku-store/src/store_query.rs\<close>: the 13/WAKU2-STORE v3 messages, the translation of a wire
  request into a query, the server's answer and the codec. The answer is computed from the store's
  \<open>query\<close> operation, an argument here as it is a trait object there; \<open>decode\<close> and \<open>encode\<close> are
  the functions \<open>prost\<close> derives.
\<close>

section \<open>Definitions\<close>

record StoreQueryRequest =
  request_id :: string
  include_data :: bool
  pubsub_topic :: "string option"
  content_topics :: "string list"
  time_start :: "i64 option"
  time_end :: "i64 option"
  message_hashes :: "bytes list"
  pagination_cursor :: "bytes option"
  pagination_forward :: bool
  pagination_limit :: "u64 option"

record WakuMessageKeyValue =
  message_hash :: "bytes option"
  message :: "WakuMessage option"
  pubsub_topic :: "string option"

record StoreQueryResponse =
  request_id :: string
  status_code :: "u32 option"
  status_desc :: "string option"
  messages :: "WakuMessageKeyValue list"
  pagination_cursor :: "bytes option"

text \<open>\<open>as_slice().try_into().ok()\<close> into \<open>[u8; 32]\<close>.\<close>

definition to_array32 :: "bytes \<Rightarrow> MessageHash option" where
  "to_array32 b = (if length b = 32 then Some b else None)"

definition request_to_query :: "StoreQueryRequest \<Rightarrow> StoreQuery" where
  "request_to_query req =
     \<lparr>StoreQuery.pubsub_topic = StoreQueryRequest.pubsub_topic req,
      content_topics = content_topics req,
      time_start_ns = time_start req,
      time_end_ns = time_end req,
      message_hashes = List.map_filter to_array32 (message_hashes req),
      include_data = include_data req,
      page_size = unwrap_or (pagination_limit req) 20,
      forward = pagination_forward req,
      cursor = Option.bind (StoreQueryRequest.pagination_cursor req) to_array32\<rparr>"

definition stored_to_key_value :: "StoredMessage \<Rightarrow> WakuMessageKeyValue" where
  "stored_to_key_value m =
     \<lparr>message_hash = Some (hash m), message = StoredMessage.message m,
      pubsub_topic = Some (StoredMessage.pubsub_topic m)\<rparr>"

definition serve ::
  "(StoreQuery \<Rightarrow> (StoreError, QueryResult) result) \<Rightarrow> StoreQueryRequest \<Rightarrow> StoreQueryResponse" where
  "serve store_query req =
     (case store_query (request_to_query req) of
        Ok res \<Rightarrow>
          \<lparr>StoreQueryResponse.request_id = StoreQueryRequest.request_id req, status_code = Some 200,
           status_desc = Some ''OK'', messages = map stored_to_key_value (QueryResult.messages res),
           pagination_cursor = next_cursor res\<rparr>
      | Err e \<Rightarrow>
          \<lparr>StoreQueryResponse.request_id = StoreQueryRequest.request_id req, status_code = Some 500,
           status_desc = Some (StoreError_to_string e), messages = [], pagination_cursor = None\<rparr>)"

definition store_MAX_FRAME_LEN :: nat where
  "store_MAX_FRAME_LEN = 100 * 1024 * 1024"

definition store_read_uvarint :: "bytes \<Rightarrow> (IoError, u64 \<times> bytes) result" where
  "store_read_uvarint io = read_uvarint io"

definition store_write_uvarint :: "bytes \<Rightarrow> u64 \<Rightarrow> (bytes \<times> nat) option" where
  "store_write_uvarint buf v = write_uvarint buf v"

definition store_read_lp :: "bytes \<Rightarrow> (IoError, bytes \<times> bytes) result" where
  "store_read_lp io =
     bind_result (store_read_uvarint io) (\<lambda>(len, io').
       if unat len > store_MAX_FRAME_LEN
       then Err (IoError InvalidData ''store frame exceeds maximum length'')
       else read_exact (unat len) io')"

definition store_write_lp :: "bytes \<Rightarrow> bytes option" where
  "store_write_lp data =
     (case store_write_uvarint (replicate 10 0) (word_of_nat (length data)) of
        None \<Rightarrow> None
      | Some (pfx, n) \<Rightarrow> Some (take n pfx @ data))"

definition StoreCodec_read_request :: "(bytes \<Rightarrow> (string, StoreQueryRequest) result) \<Rightarrow> bytes \<Rightarrow> (IoError, StoreQueryRequest \<times> bytes) result" where
  "StoreCodec_read_request decode io = read_message store_read_lp decode io"

definition StoreCodec_read_response :: "(bytes \<Rightarrow> (string, StoreQueryResponse) result) \<Rightarrow> bytes \<Rightarrow> (IoError, StoreQueryResponse \<times> bytes) result" where
  "StoreCodec_read_response decode io = read_message store_read_lp decode io"

definition StoreCodec_write_request :: "(StoreQueryRequest \<Rightarrow> bytes) \<Rightarrow> StoreQueryRequest \<Rightarrow> bytes option" where
  "StoreCodec_write_request encode m = write_message store_write_lp encode m"

definition StoreCodec_write_response :: "(StoreQueryResponse \<Rightarrow> bytes) \<Rightarrow> StoreQueryResponse \<Rightarrow> bytes option" where
  "StoreCodec_write_response encode m = write_message store_write_lp encode m"

section \<open>The codec as framed messages\<close>

lemma store_lp_eq:
  "store_read_lp = read_lp store_MAX_FRAME_LEN ''store frame exceeds maximum length''"
  "store_write_lp = write_lp"
  by (simp_all add: fun_eq_iff store_read_lp_def store_write_lp_def read_lp_def write_lp_def
      store_read_uvarint_def store_write_uvarint_def)

interpretation store_frames: lp_framing store_read_lp store_write_lp store_MAX_FRAME_LEN
  "IoError InvalidData ''store frame exceeds maximum length''"
  unfolding store_lp_eq by (rule lp_framing_lp) (simp add: store_MAX_FRAME_LEN_def)

lemma store_request_roundtrip:
  assumes "decode (encode m) = Ok m" and "length (encode m) \<le> store_MAX_FRAME_LEN"
  shows "\<exists>f. StoreCodec_write_request encode m = Some f
    \<and> (\<forall>rest. StoreCodec_read_request decode (f @ rest) = Ok (m, rest))"
  using store_frames.message_roundtrip [of decode encode m, OF assms]
  by (simp add: StoreCodec_write_request_def StoreCodec_read_request_def)

lemma store_response_roundtrip:
  assumes "decode (encode m) = Ok m" and "length (encode m) \<le> store_MAX_FRAME_LEN"
  shows "\<exists>f. StoreCodec_write_response encode m = Some f
    \<and> (\<forall>rest. StoreCodec_read_response decode (f @ rest) = Ok (m, rest))"
  using store_frames.message_roundtrip [of decode encode m, OF assms]
  by (simp add: StoreCodec_write_response_def StoreCodec_read_response_def)

section \<open>Serving from any store\<close>

lemma request_to_query_simps [simp]:
  "StoreQuery.include_data (request_to_query req) = StoreQueryRequest.include_data req"
  "cursor (request_to_query req) = Option.bind (StoreQueryRequest.pagination_cursor req) to_array32"
  "page_size (request_to_query req) = unwrap_or (pagination_limit req) 20"
  "forward (request_to_query req) = pagination_forward req"
  by (simp_all add: request_to_query_def)

lemma serve_Ok:
  "store_query (request_to_query req) = Ok res \<Longrightarrow>
   messages (serve store_query req) = map stored_to_key_value (QueryResult.messages res)
   \<and> pagination_cursor (serve store_query req) = next_cursor res
   \<and> status_code (serve store_query req) = Some 200"
  by (simp add: serve_def)

lemma serve_Err:
  "store_query (request_to_query req) = Err e \<Longrightarrow>
   messages (serve store_query req) = [] \<and> status_code (serve store_query req) = Some 500"
  by (simp add: serve_def)

context message_store
begin

lemma serve_authentic:
  assumes "inv s" "kv \<in> set (messages (serve (\<lambda>q. find q s) req))"
  shows "\<exists>h pt. message_hash kv = Some h \<and> WakuMessageKeyValue.pubsub_topic kv = Some pt
    \<and> (if StoreQueryRequest.include_data req
        then \<exists>m. WakuMessageKeyValue.message kv = Some m \<and> key pt m = h
        else WakuMessageKeyValue.message kv = None)
    \<and> (\<forall>hs found. exists hs s = Ok found \<longrightarrow> h \<in> set hs \<longrightarrow> h \<in> set found)"
proof (cases "find (request_to_query req) s")
  case (Inl e)
  then show ?thesis using assms(2) by (simp add: serve_Err)
next
  case (Inr res)
  with assms(2) obtain sm where "sm \<in> set (QueryResult.messages res)" "kv = stored_to_key_value sm"
    by (auto simp: serve_Ok)
  then show ?thesis
    using find_data [OF assms(1) Inr] find_present [OF assms(1) Inr]
    by (auto simp: stored_to_key_value_def)
qed

end

lemma serve_row:
  assumes "kv \<in> set (messages (serve (\<lambda>q. SqliteStore_query flt q t) req))"
  shows "\<exists>r \<in> set t. message_hash kv = Some (MessageRow.message_hash r)"
proof (cases "SqliteStore_query flt (request_to_query req) t")
  case (Inl e)
  then show ?thesis using assms by (simp add: serve_Err)
next
  case (Inr res)
  with assms obtain sm where "sm \<in> set (QueryResult.messages res)" "kv = stored_to_key_value sm"
    by (auto simp: serve_Ok)
  with query_Ok [OF Inr, of sm] show ?thesis by (auto simp: stored_to_key_value_def)
qed

section \<open>Paging over the wire\<close>

text \<open>
  A client that follows \<open>pagination_cursor\<close>: the tables are those the server meets at each request.
\<close>

fun serve_pages :: "engine \<Rightarrow> StoreQueryRequest \<Rightarrow> table list \<Rightarrow> WakuMessageKeyValue list option" where
  "serve_pages flt req [] = None"
| "serve_pages flt req (t # ts) =
     (let resp = serve (\<lambda>q. SqliteStore_query flt q t) req
      in case pagination_cursor resp of
           None \<Rightarrow> Some (messages resp)
         | Some c \<Rightarrow>
             map_option (\<lambda>rest. messages resp @ rest)
               (serve_pages flt (req\<lparr>StoreQueryRequest.pagination_cursor := Some c\<rparr>) ts))"

lemma query_cursor_len:
  assumes "SqliteStore_query flt q t = Ok res" "next_cursor res = Some c"
  shows "length c = 32"
proof -
  have "QueryResult.messages res \<noteq> []" "c = hash (last (QueryResult.messages res))"
    using assms by (auto simp: SqliteStore_query_def Let_def split: if_splits)
  then show ?thesis using query_Ok [OF assms(1), of "last (QueryResult.messages res)"] by auto
qed

lemma request_to_query_cursor:
  "length c = 32 \<Longrightarrow>
   request_to_query (req\<lparr>StoreQueryRequest.pagination_cursor := Some c\<rparr>) = StoreQuery_cursor c (request_to_query req)"
  by (simp add: request_to_query_def StoreQuery_cursor_def to_array32_def)

lemma serve_pages_read_pages:
  "read_pages flt (request_to_query req) ts = Some (Ok ms) \<Longrightarrow>
   serve_pages flt req ts = Some (map stored_to_key_value ms)"
proof (induction ts arbitrary: req ms)
  case (Cons t ts)
  then obtain res where res: "SqliteStore_query flt (request_to_query req) t = Ok res"
    by (auto split: sum.splits)
  note resp = serve_Ok [of "\<lambda>q. SqliteStore_query flt q t", OF res]
  show ?case
  proof (cases "next_cursor res")
    case None
    with Cons.prems res resp show ?thesis by simp
  next
    case (Some c)
    then have c: "length c = 32" using query_cursor_len [OF res] by simp
    from Cons.prems res Some obtain ms' where
      "read_pages flt (StoreQuery_cursor c (request_to_query req)) ts = Some (Ok ms')"
      "ms = QueryResult.messages res @ ms'"
      by (auto simp: bind_result_Inr_iff)
    with Cons.IH [of "req\<lparr>StoreQueryRequest.pagination_cursor := Some c\<rparr>" ms'] resp Some
    show ?thesis by (simp add: request_to_query_cursor [OF c])
  qed
qed simp

section \<open>Properties\<close>

text \<open>C14: A client that follows the cursors of the store protocol receives every stored message its
  request matches, exactly once and in order, through the wire types: the cursor of each response is
  accepted by the next request, and the walk ends.\<close>

theorem store_protocol_paging:
  assumes "wf_table sha256 t" "\<forall>s. flt s = None"
    and "unat (unwrap_or (pagination_limit req) 20) < 2 ^ 63"
    and "StoreQueryRequest.pagination_cursor req = None"
    and "length (filter (query_filter (request_to_query req)) t) < n"
  shows "serve_pages flt req (replicate n t) =
    Some (map (\<lambda>r. stored_to_key_value (stored (StoreQueryRequest.include_data req) r))
      (order_by (pagination_forward req) (filter (query_filter (request_to_query req)) t)))"
proof -
  let ?q = "request_to_query req"
  have "read_pages flt ?q (replicate n t) = Some (Ok (map (stored (StoreQuery.include_data ?q)) (matching ?q t)))"
    using read_pages_from [OF assms(1,2), of ?q 0 n] assms(3-)
    by (simp add: pending_no_cursor cursor_row_def)
  from serve_pages_read_pages [OF this] show ?thesis by (simp add: comp_def)
qed

text \<open>C16: Whatever a store node answers from its SQLite store is authentic: each returned entry carries
  the hash of a stored row, and when the request asked for data, a message whose RFC-14 hash under the
  returned pubsub topic is that hash; without data, no message at all. Database errors and corrupt
  rows produce status 500 and no messages.\<close>

theorem served_messages_authentic:
  assumes "digest_len sha256" "wf_table sha256 t"
    and "resp = serve (\<lambda>q. SqliteStore_query flt q t) req"
  shows "(status_code resp = Some 200 \<or> status_code resp = Some 500 \<and> messages resp = [])
    \<and> StoreQueryResponse.request_id resp = StoreQueryRequest.request_id req
    \<and> (\<forall>kv \<in> set (messages resp). \<exists>h pt. message_hash kv = Some h
        \<and> WakuMessageKeyValue.pubsub_topic kv = Some pt \<and> h \<in> MessageRow.message_hash ` set t
        \<and> (if StoreQueryRequest.include_data req
            then \<exists>m. WakuMessageKeyValue.message kv = Some m \<and> deterministic_hash sha256 pt m = h
            else WakuMessageKeyValue.message kv = None))"
proof -
  have head: "(status_code resp = Some 200 \<or> status_code resp = Some 500 \<and> messages resp = [])
    \<and> StoreQueryResponse.request_id resp = StoreQueryRequest.request_id req"
    unfolding assms(3) by (simp add: serve_def split: sum.split)
  have "\<exists>h pt. message_hash kv = Some h \<and> WakuMessageKeyValue.pubsub_topic kv = Some pt
        \<and> h \<in> MessageRow.message_hash ` set t
        \<and> (if StoreQueryRequest.include_data req
            then \<exists>m. WakuMessageKeyValue.message kv = Some m \<and> deterministic_hash sha256 pt m = h
            else WakuMessageKeyValue.message kv = None)"
    if "kv \<in> set (messages resp)" for kv
    using sqlite.serve_authentic [of sha256 t kv flt req] serve_row [of kv flt t req] that assms
    by (cases "StoreQueryRequest.include_data req") auto
  with head show ?thesis by blast
qed

text \<open>Hashes in a request that are not 32 bytes long are dropped, so a lookup by hash in which all
  of them are malformed is answered as if it asked for every message.\<close>

lemma malformed_hashes_match_everything:
  assumes "\<forall>h \<in> set (StoreQueryRequest.message_hashes req). length h \<noteq> 32"
  shows "serve store_query req = serve store_query (req\<lparr>StoreQueryRequest.message_hashes := []\<rparr>)"
proof -
  have "List.map_filter to_array32 (StoreQueryRequest.message_hashes req) = []"
    using assms by (simp add: List.map_filter_def to_array32_def filter_empty_conv)
  then have "request_to_query req = request_to_query (req\<lparr>StoreQueryRequest.message_hashes := []\<rparr>)"
    by (simp add: request_to_query_def List.map_filter_def)
  then show ?thesis by (simp add: serve_def split: sum.split)
qed

section \<open>A concrete request\<close>

definition ex_request :: StoreQueryRequest where
  "ex_request =
     \<lparr>StoreQueryRequest.request_id = ''q'', include_data = True, pubsub_topic = None, content_topics = [],
      time_start = None, time_end = None, message_hashes = [[1, 2, 3]], pagination_cursor = None,
      pagination_forward = True, pagination_limit = Some 1\<rparr>"

lemma ex_request_all: "query_filter (request_to_query ex_request) r"
  by (simp add: query_filter_def request_to_query_def ex_request_def List.map_filter_def to_array32_def)

theorem store_protocol_paging_witness:
  "\<exists>kvs. serve_pages (\<lambda>_. None) ex_request (replicate 3 ex_table) = Some kvs \<and> length kvs = 2"
  using store_protocol_paging [OF ex_table_wf, of "\<lambda>_. None" ex_request 3]
  by (simp add: ex_request_all ex_table_eq) (simp add: ex_request_def)

theorem served_messages_authentic_witness:
  "\<exists>resp. resp = serve (\<lambda>q. SqliteStore_query (\<lambda>_. None) q ex_table) ex_request \<and>
     (status_code resp = Some 200 \<or> status_code resp = Some 500 \<and> messages resp = [])"
  using served_messages_authentic [OF ex_digest_len ex_table_wf refl] by blast

lemma malformed_hashes_match_everything_instance:
  "serve (\<lambda>q. SqliteStore_query (\<lambda>_. None) q ex_table) ex_request =
   serve (\<lambda>q. SqliteStore_query (\<lambda>_. None) q ex_table) (ex_request\<lparr>StoreQueryRequest.message_hashes := []\<rparr>)"
  by (rule malformed_hashes_match_everything) (simp add: ex_request_def)

end
