(* ===== verification/Relay_Validation.thy ===== *)
theory Relay_Validation
  imports Waku_Core
begin

text \<open>
  \<open>crates/waku-relay\<close>: the validation policy of 64/WAKU2-NETWORK (\<open>validation.rs\<close>), the gossipsub
  message id and the relay configuration (\<open>lib.rs\<close>). Gossipsub itself, its configuration builder
  and the protobuf decoder of \<open>prost\<close> are arguments. \<open>abs\<close> on \<open>i64\<close> is the release build's, which
  wraps at the minimum.
\<close>

section \<open>Definitions\<close>

subsection \<open>validation.rs\<close>

datatype Validation = Accept | Reject | Ignore

datatype MessageAcceptance = MA_Accept | MA_Reject | MA_Ignore

definition Validation_into :: "Validation \<Rightarrow> MessageAcceptance" where
  "Validation_into v = (case v of Accept \<Rightarrow> MA_Accept | Reject \<Rightarrow> MA_Reject | Ignore \<Rightarrow> MA_Ignore)"

datatype RlnStatus =
  Absent
| Valid (epoch_gap_secs: i64) (double_signaling: bool)
| Invalid

record MessageFacts =
  timestamp_gap_secs :: "i64 option"
  rln :: RlnStatus
  shard_saturated :: bool

record ValidationPolicy =
  enforce_rln :: bool
  timestamp_tolerance_secs :: i64
  max_epoch_gap_secs :: i64

definition ValidationPolicy_default :: ValidationPolicy where
  "ValidationPolicy_default =
     \<lparr>enforce_rln = False, timestamp_tolerance_secs = TIMESTAMP_TOLERANCE_SECS,
      max_epoch_gap_secs = RLN_MAX_EPOCH_GAP_SECS\<rparr>"

definition validate :: "MessageFacts \<Rightarrow> ValidationPolicy \<Rightarrow> Validation" where
  "validate facts policy =
     (if (case timestamp_gap_secs facts of
            Some gap \<Rightarrow> sint (i64_abs gap) > sint (timestamp_tolerance_secs policy)
          | None \<Rightarrow> False)
      then Reject
      else if \<not> enforce_rln policy then Accept
      else case rln facts of
        Absent \<Rightarrow> if shard_saturated facts then Ignore else Accept
      | Invalid \<Rightarrow> Reject
      | Valid gap double \<Rightarrow>
          if sint (i64_abs gap) > sint (max_epoch_gap_secs policy) \<or> double then Reject else Accept)"

subsection \<open>lib.rs\<close>

datatype RelayError = Config string | Build string

record GossipMessage =
  data :: bytes
  topic :: string

definition waku_message_id ::
  "(bytes \<Rightarrow> bytes) \<Rightarrow> (bytes \<Rightarrow> (string, WakuMessage) result) \<Rightarrow> GossipMessage \<Rightarrow> bytes" where
  "waku_message_id sha256 decode m =
     (case decode (data m) of
        Ok msg \<Rightarrow> deterministic_hash sha256 (topic m) msg
      | Err _ \<Rightarrow> sha256 (data m))"

datatype ValidationMode = Strict | Permissive | Anonymous | NoMode

record RelaySettings =
  validation_mode :: ValidationMode
  validate_messages :: bool
  max_transmit_size :: nat
  mesh_n :: nat
  mesh_n_low :: nat
  mesh_n_high :: nat
  mesh_outbound_min :: nat
  heartbeat_interval_secs :: nat
  history_length :: nat
  history_gossip :: nat
  fanout_ttl_secs :: nat
  duplicate_cache_secs :: nat
  flood_publish :: bool

text \<open>The calls on \<open>ConfigBuilder\<close>; the message-id function is \<^const>\<open>waku_message_id\<close>.\<close>

definition relay_settings :: RelaySettings where
  "relay_settings =
     \<lparr>validation_mode = Anonymous, validate_messages = True, max_transmit_size = 1024 * 1024,
      mesh_n = 6, mesh_n_low = 5, mesh_n_high = 12, mesh_outbound_min = 2,
      heartbeat_interval_secs = 1, history_length = 5, history_gossip = 3, fanout_ttl_secs = 60,
      duplicate_cache_secs = 120, flood_publish = True\<rparr>"

definition relay_config :: "(RelaySettings \<Rightarrow> (string, 'c) result) \<Rightarrow> (RelayError, 'c) result" where
  "relay_config build = map_err Config (build relay_settings)"

definition build_relay ::
  "(RelaySettings \<Rightarrow> (string, 'c) result) \<Rightarrow> ('c \<Rightarrow> (string, 'b) result) \<Rightarrow> (RelayError, 'b) result" where
  "build_relay build behaviour_new =
     bind_result (relay_config build) (\<lambda>c. map_err Build (behaviour_new c))"

definition shard_topic :: "ShardId \<Rightarrow> string" where
  "shard_topic s = pubsub_topic s"

section \<open>Properties\<close>

text \<open>C32: The verdict on an inbound message, for every combination of facts and policy. A timestamp gap
  beyond the tolerance in either direction is rejected whether or not proofs are enforced; without
  enforcement everything else is accepted; with it, a message without proof is ignored exactly on a
  saturated shard, and a proof is rejected exactly when it is invalid, outside the epoch window or
  doubly signalled. (The gaps are not \<open>i64::MIN\<close>, whose absolute value overflows.)\<close>

theorem validate_spec:
  assumes "timestamp_gap_secs f \<noteq> Some i64_min" "\<forall>d. rln f \<noteq> Valid i64_min d"
  shows "(validate f p = Reject \<longleftrightarrow>
      (\<exists>g. timestamp_gap_secs f = Some g \<and> \<bar>sint g\<bar> > sint (timestamp_tolerance_secs p))
      \<or> enforce_rln p \<and> (rln f = Invalid \<or>
          (\<exists>e d. rln f = Valid e d \<and> (\<bar>sint e\<bar> > sint (max_epoch_gap_secs p) \<or> d))))
    \<and> (validate f p = Ignore \<longleftrightarrow>
      \<not> (\<exists>g. timestamp_gap_secs f = Some g \<and> \<bar>sint g\<bar> > sint (timestamp_tolerance_secs p))
      \<and> enforce_rln p \<and> rln f = Absent \<and> shard_saturated f)"
proof -
  have gap: "sint (i64_abs g) = \<bar>sint g\<bar>" if "timestamp_gap_secs f = Some g" for g
    using assms(1) that by (intro sint_i64_abs) auto
  have epoch: "sint (i64_abs e) = \<bar>sint e\<bar>" if "rln f = Valid e d" for e d
    using assms(2) that by (intro sint_i64_abs) blast
  show ?thesis
    using gap epoch
    by (cases "timestamp_gap_secs f"; cases "rln f") (auto simp: validate_def)
qed

theorem validate_spec_witness:
  "validate \<lparr>timestamp_gap_secs = Some (- 21), rln = Absent, shard_saturated = False\<rparr>
     ValidationPolicy_default = Reject
   \<and> validate \<lparr>timestamp_gap_secs = Some 3, rln = Absent, shard_saturated = True\<rparr>
       (ValidationPolicy_default\<lparr>enforce_rln := True\<rparr>) = Ignore"
  using validate_spec [of "\<lparr>timestamp_gap_secs = Some (- 21), rln = Absent, shard_saturated = False\<rparr>"
      ValidationPolicy_default]
    validate_spec [of "\<lparr>timestamp_gap_secs = Some 3, rln = Absent, shard_saturated = True\<rparr>"
      "ValidationPolicy_default\<lparr>enforce_rln := True\<rparr>"]
  by (simp add: i64_min_def ValidationPolicy_default_def TIMESTAMP_TOLERANCE_SECS_def)

end
