(* ===== verification/Rust_F64.thy ===== *)
theory Rust_F64
  imports Complex_Main "HOL-Library.Log_Nat"
begin

text \<open>
  The arithmetic of Rust's \<open>f64\<close> on finite numbers: an operation is the exact one followed by rounding to the
  nearest IEEE-754 binary64 number, ties to the even significand (\<open>round_f64\<close>). Numbers are rational; a number
  is scaled by \<open>2 ^ 1074\<close>, so that the binary64 numbers are the integers \<open>m * 2 ^ k\<close> with \<open>m\<close> of at most 53 bits,
  the subnormal ones among them. Overflow beyond \<open>2 ^ 1024\<close> is not modelled: the numbers that are rounded in the
  sources stay far below it. The locale \<open>binary64\<close> is what the clients of this arithmetic use of it.
\<close>

section \<open>Rounding\<close>

definition round_even :: "rat \<Rightarrow> int" where
  "round_even q =
     (let f = \<lfloor>q\<rfloor>; d = q - of_int f
      in if d < 1 / 2 then f else if 1 / 2 < d then f + 1 else if even f then f else f + 1)"

definition SCALE :: rat where
  "SCALE = 2 ^ 1074"

text \<open>The exponent of the last bit of a scaled number.\<close>

definition ulp_exp :: "rat \<Rightarrow> nat" where
  "ulp_exp y = floorlog 2 (nat \<lfloor>y\<rfloor>) - 53"

definition round_scaled :: "rat \<Rightarrow> rat" where
  "round_scaled y = of_int (round_even (y / 2 ^ ulp_exp y)) * 2 ^ ulp_exp y"

definition round_f64 :: "rat \<Rightarrow> rat" where
  "round_f64 x = (if x < 0 then - (round_scaled (- x * SCALE) / SCALE) else round_scaled (x * SCALE) / SCALE)"

section \<open>Its laws\<close>

lemma round_even_int [simp]: "round_even (of_int m) = m"
  by (simp add: round_even_def)

lemma round_even_near: "\<bar>of_int (round_even q) - q\<bar> \<le> 1 / 2"
proof -
  have "0 \<le> q - of_int \<lfloor>q\<rfloor>" "q - of_int \<lfloor>q\<rfloor> < 1" by linarith+
  then show ?thesis unfolding round_even_def Let_def by (simp add: abs_le_iff)
qed

lemma round_even_mono: "p \<le> q \<Longrightarrow> round_even p \<le> round_even q"
proof (cases "\<lfloor>p\<rfloor> = \<lfloor>q\<rfloor>")
  case True
  moreover assume "p \<le> q"
  ultimately show ?thesis by (auto simp: round_even_def Let_def)
next
  case False
  moreover assume "p \<le> q"
  ultimately have "\<lfloor>p\<rfloor> + 1 \<le> \<lfloor>q\<rfloor>" using floor_mono [of p q] by linarith
  moreover have "round_even p \<le> \<lfloor>p\<rfloor> + 1" "\<lfloor>q\<rfloor> \<le> round_even q" by (simp_all add: round_even_def Let_def)
  ultimately show ?thesis by linarith
qed

lemma floorlog_less: "nat \<lfloor>y\<rfloor> < 2 ^ floorlog 2 (nat \<lfloor>y\<rfloor>)"
  using floorlog_bounds [of "nat \<lfloor>y\<rfloor>" 2] by (cases "nat \<lfloor>y\<rfloor> = 0") auto

lemma below_exp: "0 \<le> y \<Longrightarrow> y < 2 ^ (ulp_exp y + 53)"
proof -
  assume y: "0 \<le> y"
  have "nat \<lfloor>y\<rfloor> < 2 ^ (ulp_exp y + 53)"
    by (rule less_le_trans [OF floorlog_less]) (simp add: ulp_exp_def)
  then have "\<lfloor>y\<rfloor> < 2 ^ (ulp_exp y + 53)" using y by (simp add: nat_less_iff)
  then show ?thesis by (simp add: floor_less_iff)
qed

lemma above_exp:
  assumes "0 < ulp_exp y"
  shows "2 ^ (ulp_exp y + 52) \<le> y"
proof -
  let ?n = "nat \<lfloor>y\<rfloor>"
  have l: "floorlog 2 ?n = ulp_exp y + 53" using assms by (simp add: ulp_exp_def)
  then have "0 < ?n" by (cases "?n = 0") (simp_all add: floorlog_def)
  then have "2 ^ (ulp_exp y + 52) \<le> ?n" using floorlog_bounds [of ?n 2] l by (simp add: add.commute)
  then have "2 ^ (ulp_exp y + 52) \<le> \<lfloor>y\<rfloor>" by (simp add: le_nat_iff nat_le_iff add.commute)
  then show ?thesis by (simp add: le_floor_iff)
qed

lemma ulp_exp_mono: "x \<le> y \<Longrightarrow> ulp_exp x \<le> ulp_exp y"
  unfolding ulp_exp_def by (intro diff_le_mono floorlog_mono nat_mono floor_mono)

lemma ulp_exp_le: "0 \<le> y \<Longrightarrow> y < 2 ^ (k + 53) \<Longrightarrow> ulp_exp y \<le> k"
proof -
  assume y: "0 \<le> y" "y < 2 ^ (k + 53)"
  then have "nat \<lfloor>y\<rfloor> < 2 ^ (k + 53)" by (simp add: nat_less_iff floor_less_iff)
  then have "floorlog 2 (nat \<lfloor>y\<rfloor>) \<le> k + 53" by (simp add: floorlog_le_iff)
  then show ?thesis by (simp add: ulp_exp_def)
qed

lemma ulp_exp_unique:
  assumes "2 ^ (k + 52) \<le> y" "y < 2 ^ (k + 53)"
  shows "ulp_exp y = k"
proof -
  have y: "0 \<le> y" using assms(1) by (rule order_trans [rotated]) simp
  have "2 ^ (k + 52) < (2 :: rat) ^ (ulp_exp y + 53)" using assms(1) below_exp [OF y] by (rule le_less_trans)
  then have "k + 52 < ulp_exp y + 53" by (rule power_less_imp_less_exp [rotated]) simp
  then show ?thesis using ulp_exp_le [OF y assms(2)] by simp
qed

text \<open>The binary64 numbers are not changed.\<close>

lemma round_scaled_fits:
  assumes "y = of_int m * 2 ^ k" "0 \<le> y" "y < 2 ^ (k + 53)"
  shows "round_scaled y = y"
proof -
  have "ulp_exp y \<le> k" using assms(2,3) by (rule ulp_exp_le)
  then have "(2 :: rat) ^ k = 2 ^ (k - ulp_exp y) * 2 ^ ulp_exp y" by (simp flip: power_add)
  then have y: "y = of_int (m * 2 ^ (k - ulp_exp y)) * 2 ^ ulp_exp y" using assms(1) by simp
  then have "y / 2 ^ ulp_exp y = of_int (m * 2 ^ (k - ulp_exp y))" by (simp only: divide_eq_eq) simp
  then show ?thesis unfolding round_scaled_def by (simp only: round_even_int y [symmetric])
qed

lemma round_scaled_exact:
  assumes "m \<le> 2 ^ 53"
  shows "round_scaled (of_nat m * 2 ^ k) = of_nat m * 2 ^ k"
proof (cases "m = 2 ^ 53")
  case False
  then have "of_nat m < (2 ^ 53 :: rat)" using assms by (metis le_neq_implies_less of_nat_less_iff of_nat_numeral of_nat_power)
  then show ?thesis by (intro round_scaled_fits [of _ "int m" k]) (simp_all add: power_add)
next
  case True
  then show ?thesis by (intro round_scaled_fits [of _ "2 ^ 52" "Suc k"]) (simp_all add: power_add)
qed

lemma round_scaled_form:
  assumes "0 \<le> y"
  obtains m where "m \<le> 2 ^ 53" "round_scaled y = of_nat m * 2 ^ ulp_exp y"
proof -
  let ?q = "y / 2 ^ ulp_exp y"
  have q: "0 \<le> ?q" "?q \<le> 2 ^ 53" using assms below_exp [OF assms] by (simp_all add: power_add divide_le_eq)
  have "round_even (of_int 0) \<le> round_even ?q" "round_even ?q \<le> round_even (of_int (2 ^ 53))"
    using q by (intro round_even_mono; simp)+
  then have "0 \<le> round_even ?q" "round_even ?q \<le> 2 ^ 53" by (simp_all only: round_even_int)
  then have "nat (round_even ?q) \<le> 2 ^ 53" "round_scaled y = of_nat (nat (round_even ?q)) * 2 ^ ulp_exp y"
    by (simp_all add: round_scaled_def nat_le_iff)
  then show ?thesis by (rule that)
qed

lemma round_scaled_0 [simp]: "round_scaled 0 = 0"
  using round_scaled_exact [of 0 0] by simp

lemma round_scaled_idem: "0 \<le> y \<Longrightarrow> round_scaled (round_scaled y) = round_scaled y"
  by (metis round_scaled_form round_scaled_exact)

lemma round_scaled_mono:
  assumes "0 \<le> x" "x \<le> y"
  shows "round_scaled x \<le> round_scaled y"
proof (cases "ulp_exp x = ulp_exp y")
  case True
  then show ?thesis
    using round_even_mono [of "x / 2 ^ ulp_exp y" "y / 2 ^ ulp_exp y"] assms(2)
    by (simp add: round_scaled_def divide_right_mono)
next
  case False
  let ?k = "ulp_exp x" and ?l = "ulp_exp y"
  have k: "?k < ?l" using ulp_exp_mono [OF assms(2)] False by simp
  obtain m where m: "m \<le> 2 ^ 53" "round_scaled x = of_nat m * 2 ^ ?k" using round_scaled_form [OF assms(1)] .
  have "of_nat m \<le> (2 ^ 53 :: rat)" using m(1) by (metis of_nat_le_iff of_nat_numeral of_nat_power)
  then have "round_scaled x \<le> 2 ^ (?k + 53)" unfolding m(2) by (simp add: power_add)
  also have "\<dots> \<le> 2 ^ (52 + ?l)" using k by (intro power_increasing) simp_all
  also have "\<dots> = of_int (2 ^ 52) * 2 ^ ?l" by (simp add: power_add)
  also have "\<dots> \<le> round_scaled y"
  proof -
    have "of_int (2 ^ 52) \<le> y / 2 ^ ?l" using above_exp [of y] k by (simp add: le_divide_eq power_add mult.commute)
    then have "2 ^ 52 \<le> round_even (y / 2 ^ ?l)" using round_even_mono round_even_int by metis
    then have "of_int (2 ^ 52) \<le> (of_int (round_even (y / 2 ^ ?l)) :: rat)" by (simp only: of_int_le_iff)
    then show ?thesis unfolding round_scaled_def by (intro mult_right_mono) simp_all
  qed
  finally show ?thesis .
qed

lemma round_scaled_nonneg: "0 \<le> y \<Longrightarrow> 0 \<le> round_scaled y"
  using round_scaled_mono [of 0 y] by simp

text \<open>Half a unit in the last place.\<close>

lemma round_scaled_near:
  assumes "0 \<le> y"
  shows "round_scaled y \<le> y + y / 2 ^ 53 + 1 / 2"
proof -
  let ?k = "ulp_exp y"
  have "of_int (round_even (y / 2 ^ ?k)) \<le> y / 2 ^ ?k + 1 / 2" using round_even_near [of "y / 2 ^ ?k"] by linarith
  then have "round_scaled y \<le> (y / 2 ^ ?k + 1 / 2) * 2 ^ ?k" unfolding round_scaled_def by (rule mult_right_mono) simp
  also have "\<dots> = y + 2 ^ ?k / 2" by (simp add: algebra_simps)
  also have "\<dots> \<le> y + y / 2 ^ 53 + 1 / 2"
  proof (cases "?k = 0")
    case False
    then have "2 ^ ?k * 2 ^ 52 \<le> y" using above_exp [of y] by (simp add: power_add)
    then show ?thesis by simp
  qed (use assms in simp)
  finally show ?thesis .
qed

lemma round_scaled_minus:
  assumes "round_scaled y = y" "2 ^ l \<le> y" "y < 2 ^ (l + 53)"
  shows "round_scaled (y - 2 ^ l) = y - 2 ^ l"
proof -
  let ?k = "ulp_exp y"
  have y: "0 \<le> y" using assms(2) by (rule order_trans [rotated]) simp
  obtain m where m: "m \<le> 2 ^ 53" "y = of_nat m * 2 ^ ?k" using round_scaled_form [OF y] assms(1) by metis
  have "?k \<le> l" using ulp_exp_le [OF y assms(3)] .
  then have l: "(2 :: rat) ^ l = of_nat (2 ^ (l - ?k)) * 2 ^ ?k" by (simp flip: power_add)
  have "of_nat (2 ^ (l - ?k)) * 2 ^ ?k \<le> of_nat m * (2 ^ ?k :: rat)" using assms(2) unfolding l m(2) [symmetric] .
  then have "2 ^ (l - ?k) \<le> m" by (simp only: mult_le_cancel_right_pos zero_less_power zero_less_numeral of_nat_le_iff)
  then have "y - 2 ^ l = of_nat (m - 2 ^ (l - ?k)) * 2 ^ ?k"
    using m(2) l by (simp only: of_nat_diff left_diff_distrib)
  then show ?thesis using round_scaled_exact [of "m - 2 ^ (l - ?k)" ?k] m(1) by simp
qed

section \<open>What clients use\<close>

text \<open>Rounding is monotone, does not change integers of up to 53 bits or what it returned before, errs
  by half a unit in the last place, and subtracting 1 from a number between 1 and \<open>2 ^ 53\<close> is exact. \<open>UNIT\<close> is the
  relative error and \<open>TINY\<close> the absolute one of the subnormal numbers.\<close>

definition UNIT :: rat where "UNIT = 1 / 2 ^ 53"
definition TINY :: rat where "TINY = 1 / (2 * SCALE)"

locale binary64 =
  fixes rnd :: "rat \<Rightarrow> rat"
  assumes mono: "x \<le> y \<Longrightarrow> rnd x \<le> rnd y"
    and exact: "n \<le> 2 ^ 53 \<Longrightarrow> rnd (of_nat n) = of_nat n"
    and idem: "rnd (rnd x) = rnd x"
    and near: "0 \<le> x \<Longrightarrow> rnd x \<le> x + x * UNIT + TINY"
    and minus_1: "rnd x = x \<Longrightarrow> 1 \<le> x \<Longrightarrow> x < 2 ^ 53 \<Longrightarrow> rnd (x - 1) = x - 1"
begin

lemma zero [simp]: "rnd 0 = 0"
  using exact [of 0] by simp

lemma nonneg: "0 \<le> x \<Longrightarrow> 0 \<le> rnd x"
  using mono [of 0 x] by simp

end

lemma SCALE_pos: "0 < SCALE"
  by (simp add: SCALE_def)

interpretation f64: binary64 round_f64
proof
  fix x y :: rat and n :: nat
  note S = SCALE_pos
  show "round_f64 x \<le> round_f64 y" if "x \<le> y"
  proof -
    have "round_scaled (x * SCALE) \<le> round_scaled (y * SCALE)" if "0 \<le> x"
      using that \<open>x \<le> y\<close> S by (intro round_scaled_mono) simp_all
    moreover have "round_scaled (- y * SCALE) \<le> round_scaled (- x * SCALE)" if "y < 0"
      using that \<open>x \<le> y\<close> S by (intro round_scaled_mono) (simp_all add: mult_nonpos_nonneg)
    moreover have "0 \<le> round_scaled (- x * SCALE)" if "x < 0"
      using that S by (intro round_scaled_nonneg) (simp add: mult_nonpos_nonneg)
    moreover have "0 \<le> round_scaled (y * SCALE)" if "0 \<le> y" using that S by (intro round_scaled_nonneg) simp
    ultimately show ?thesis using that S by (auto simp: round_f64_def divide_right_mono intro: order_trans [of _ 0])
  qed
  show "round_f64 (of_nat n) = of_nat n" if "n \<le> 2 ^ 53"
    using round_scaled_exact [OF that, of 1074] S unfolding SCALE_def [symmetric] by (simp add: round_f64_def)
  show "round_f64 (round_f64 x) = round_f64 x"
  proof (cases "x < 0")
    case True
    then have "0 \<le> - x * SCALE" using S by (simp add: mult_nonpos_nonneg)
    note w = round_scaled_nonneg [OF this] round_scaled_idem [OF this]
    have x: "round_f64 x = - (round_scaled (- x * SCALE) / SCALE)" using True by (simp add: round_f64_def)
    show ?thesis using w S unfolding x by (auto simp: round_f64_def zero_less_divide_iff)
  next
    case False
    then have "0 \<le> x * SCALE" using S by simp
    note w = round_scaled_nonneg [OF this] round_scaled_idem [OF this]
    have x: "round_f64 x = round_scaled (x * SCALE) / SCALE" using False by (simp add: round_f64_def)
    show ?thesis using w S unfolding x by (auto simp: round_f64_def divide_less_0_iff)
  qed
  show "round_f64 x \<le> x + x * UNIT + TINY" if "0 \<le> x"
  proof -
    have "round_scaled (x * SCALE) / SCALE \<le> (x * SCALE + x * SCALE / 2 ^ 53 + 1 / 2) / SCALE"
      using that S by (intro divide_right_mono round_scaled_near) simp_all
    also have "\<dots> = x + x * UNIT + TINY" using S by (simp add: UNIT_def TINY_def add_divide_distrib)
    finally show ?thesis using that by (simp add: round_f64_def)
  qed
  show "round_f64 (x - 1) = x - 1" if "round_f64 x = x" "1 \<le> x" "x < 2 ^ 53"
  proof -
    have "round_scaled (x * SCALE) = x * SCALE" using that S by (simp add: round_f64_def divide_eq_eq)
    moreover have "2 ^ 1074 \<le> x * SCALE" using that(2) S unfolding SCALE_def [symmetric] by simp
    moreover have "x * SCALE < 2 ^ (1074 + 53)"
      using that(3) S unfolding power_add SCALE_def [symmetric] by simp
    ultimately have "round_scaled (x * SCALE - 2 ^ 1074) = x * SCALE - 2 ^ 1074" by (rule round_scaled_minus)
    then have "round_scaled ((x - 1) * SCALE) = (x - 1) * SCALE"
      unfolding SCALE_def [symmetric] by (simp add: left_diff_distrib)
    then show ?thesis using that(2) S by (simp add: round_f64_def)
  qed
qed

text \<open>One tenth is rounded to what Rust prints as \<open>0.1\<close>.\<close>

lemma round_f64_tenth: "round_f64 (1 / 10) = 3602879701896397 / 36028797018963968"
proof -
  let ?y = "1 / 10 * SCALE"
  have s: "SCALE = 2 ^ 56 * 2 ^ 1018" by (simp add: SCALE_def flip: power_add)
  have y: "?y = 36028797018963968 / 5 * 2 ^ 1018" by (simp add: s)
  have p: "(0 :: rat) < 2 ^ 1018" by (rule zero_less_power) simp
  have "2 ^ 52 * 2 ^ 1018 \<le> ?y" "?y < 2 ^ 53 * 2 ^ 1018"
    unfolding y by (rule mult_right_mono [OF _ less_imp_le [OF p]] mult_strict_right_mono [OF _ p], simp)+
  then have "ulp_exp ?y = 1018" by (intro ulp_exp_unique) (simp_all add: power_add mult.commute)
  moreover have "round_even (36028797018963968 / 5) = 7205759403792794" by code_simp
  ultimately have "round_scaled ?y = 7205759403792794 * 2 ^ 1018"
    unfolding round_scaled_def by (simp only: y nonzero_mult_div_cancel_right power_eq_0_iff) simp
  then show ?thesis unfolding round_f64_def s by simp
qed

end
