(* ===== verification/Rate_Limit.thy ===== *)
theory Rate_Limit
  imports Rust_F64 Waku_Prelude
begin

text \<open>
  \<open>crates/waku-node/src/ratelimit.rs\<close>: the token bucket per peer. An \<open>Instant\<close> is a number of
  nanoseconds. The \<open>f64\<close> operations are the rational ones followed by the rounding \<open>rnd\<close>, an
  argument, which in the program is \<open>round_f64\<close> of \<open>Rust_F64\<close>. \<open>f64_rounding\<close> and the locale \<open>binary64\<close> are what
  the theorems use of it. Peers are of any type.
\<close>

section \<open>Definitions\<close>

record Bucket =
  tokens :: rat
  last_time :: nat

record 'p RateLimiter =
  capacity :: rat
  refill_per_sec :: rat
  buckets :: "'p \<rightharpoonup> Bucket"

definition RateLimiter_new :: "(rat \<Rightarrow> rat) \<Rightarrow> u32 \<Rightarrow> rat \<Rightarrow> 'p RateLimiter" where
  "RateLimiter_new rnd cap period_secs =
     (let c = of_nat (unat (max cap 1))
      in \<lparr>capacity = c, refill_per_sec = rnd (c / max period_secs (1 / 2 ^ 1022)), buckets = Map.empty\<rparr>)"

text \<open>\<open>now.saturating_duration_since(last).as_secs_f64()\<close>.\<close>

definition elapsed_secs :: "(rat \<Rightarrow> rat) \<Rightarrow> nat \<Rightarrow> nat \<Rightarrow> rat" where
  "elapsed_secs rnd now lst =
     (let d = now - lst
      in rnd (rnd (of_nat (d div 1000000000)) + rnd (of_nat (d mod 1000000000) / 1000000000)))"

definition allow :: "(rat \<Rightarrow> rat) \<Rightarrow> 'p \<Rightarrow> nat \<Rightarrow> 'p RateLimiter \<Rightarrow> bool \<times> 'p RateLimiter" where
  "allow rnd peer now rl =
     (let cap = capacity rl;
          refill = refill_per_sec rl;
          b = (case buckets rl peer of Some b \<Rightarrow> b | None \<Rightarrow> \<lparr>tokens = cap, last_time = now\<rparr>);
          elapsed = elapsed_secs rnd now (last_time b);
          tk = min (rnd (tokens b + rnd (elapsed * refill))) cap;
          ok = (tk \<ge> 1);
          tk' = (if ok then rnd (tk - 1) else tk)
      in (ok, rl\<lparr>buckets := (buckets rl)(peer \<mapsto> \<lparr>tokens = tk', last_time = now\<rparr>)\<rparr>))"

record 'p RateLimiters =
  store :: "'p RateLimiter"
  lightpush :: "'p RateLimiter"

definition RateLimiters_default :: "(rat \<Rightarrow> rat) \<Rightarrow> 'p RateLimiters" where
  "RateLimiters_default rnd =
     \<lparr>store = RateLimiter_new rnd 10 1, lightpush = RateLimiter_new rnd 10 1\<rparr>"

section \<open>Sequences of requests\<close>

text \<open>The number of requests of peer \<open>p\<close> that are allowed in a sequence of requests of all peers.\<close>

fun granted :: "(rat \<Rightarrow> rat) \<Rightarrow> 'p \<Rightarrow> 'p RateLimiter \<Rightarrow> ('p \<times> nat) list \<Rightarrow> nat" where
  "granted rnd p rl [] = 0"
| "granted rnd p rl ((q, t) # cs) =
     (let (ok, rl') = allow rnd q t rl
      in (if ok \<and> q = p then 1 else 0) + granted rnd p rl' cs)"

text \<open>The limiter after a sequence of requests.\<close>

definition after_requests :: "(rat \<Rightarrow> rat) \<Rightarrow> ('p \<times> nat) list \<Rightarrow> 'p RateLimiter \<Rightarrow> 'p RateLimiter" where
  "after_requests rnd cs rl = fold (\<lambda>(q, t) l. snd (allow rnd q t l)) cs rl"

definition f64_rounding :: "(rat \<Rightarrow> rat) \<Rightarrow> bool" where
  "f64_rounding rnd \<longleftrightarrow> mono rnd \<and> (\<forall>n \<le> 2 ^ 53. rnd (of_nat n) = of_nat n)"

lemma f64_mono: "f64_rounding rnd \<Longrightarrow> x \<le> y \<Longrightarrow> rnd x \<le> rnd y"
  by (simp add: f64_rounding_def monoD)

lemma f64_exact: "f64_rounding rnd \<Longrightarrow> n \<le> 2 ^ 53 \<Longrightarrow> rnd (of_nat n) = of_nat n"
  by (simp add: f64_rounding_def)

lemma f64_0 [simp]: "f64_rounding rnd \<Longrightarrow> rnd 0 = 0"
  using f64_exact [of rnd 0] by simp

lemma f64_rounding_round_f64: "f64_rounding round_f64"
  by (simp add: f64_rounding_def mono_def f64.mono f64.exact)

text \<open>Arithmetic without rounding, for examples.\<close>

definition unrounded :: "rat \<Rightarrow> rat" where
  "unrounded x = x"

lemma f64_rounding_unrounded: "f64_rounding unrounded"
  by (simp add: f64_rounding_def mono_def unrounded_def)

lemma allow_other:
  "allow rnd q t rl = (ok, rl') \<Longrightarrow> q \<noteq> p \<Longrightarrow> buckets rl' p = buckets rl p"
  and allow_capacity:
  "allow rnd q t rl = (ok, rl') \<Longrightarrow> capacity rl' = capacity rl \<and> refill_per_sec rl' = refill_per_sec rl"
  by (auto simp: allow_def Let_def)

text \<open>The bucket of a peer after its request.\<close>

definition refilled :: "(rat \<Rightarrow> rat) \<Rightarrow> 'p RateLimiter \<Rightarrow> 'p \<Rightarrow> nat \<Rightarrow> rat" where
  "refilled rnd rl p t =
     (case buckets rl p of
        None \<Rightarrow> min (rnd (capacity rl + rnd (elapsed_secs rnd t t * refill_per_sec rl))) (capacity rl)
      | Some b \<Rightarrow>
          min (rnd (tokens b + rnd (elapsed_secs rnd t (last_time b) * refill_per_sec rl))) (capacity rl))"

lemma allow_self:
  "allow rnd p t rl = (ok, rl') \<Longrightarrow>
   ok = (refilled rnd rl p t \<ge> 1)
   \<and> buckets rl' p = Some \<lparr>tokens = (if ok then rnd (refilled rnd rl p t - 1) else refilled rnd rl p t),
       last_time = t\<rparr>"
  by (auto simp: allow_def refilled_def Let_def split: option.splits)

lemma refilled_le: "refilled rnd rl p t \<le> capacity rl"
  by (simp add: refilled_def split: option.split)

lemma elapsed_0 [simp]: "f64_rounding rnd \<Longrightarrow> elapsed_secs rnd t t = 0"
  by (simp add: elapsed_secs_def Let_def)

section \<open>One instant\<close>

lemma granted_at_instant_le:
  assumes "f64_rounding rnd"
  shows "\<forall>(q, t) \<in> set cs. t = now \<Longrightarrow> buckets rl p = Some b \<Longrightarrow> last_time b = now \<Longrightarrow>
    tokens b \<le> of_nat k \<Longrightarrow> k \<le> 2 ^ 53 \<Longrightarrow> granted rnd p rl cs \<le> k"
proof (induction cs arbitrary: rl b k)
  case (Cons c cs)
  obtain q where c: "c = (q, now)" using Cons.prems(1) by (cases c) auto
  obtain ok rl' where a: "allow rnd q now rl = (ok, rl')" by fastforce
  show ?case
  proof (cases "q = p")
    case False
    then show ?thesis
      using Cons.IH [of rl' b k] Cons.prems a allow_other [OF a] by (simp add: c)
  next
    case True
    let ?r = "refilled rnd rl p now"
    have "rnd (tokens b) \<le> of_nat k"
      using f64_mono [OF assms Cons.prems(4)] f64_exact [OF assms Cons.prems(5)] by simp
    then have r: "?r \<le> of_nat k"
      using Cons.prems(2,3) assms by (simp add: refilled_def min_le_iff_disj)
    note self = allow_self [of rnd p now rl ok rl']
    show ?thesis
    proof (cases ok)
      case False
      then have "granted rnd p rl' cs \<le> k"
        using Cons.IH [of rl' _ k] Cons.prems r self a True by auto
      with False show ?thesis using a by (simp add: c)
    next
      case ok: True
      then have "1 \<le> ?r" using self a True by simp
      with r have "1 \<le> (of_nat k :: rat)" by simp
      then obtain j where k: "k = Suc j" by (cases k) auto
      have "rnd (?r - 1) \<le> of_nat j"
        using f64_mono [OF assms, of "?r - 1" "of_nat j"] f64_exact [OF assms, of j] r Cons.prems(5)
        by (simp add: k)
      then have "granted rnd p rl' cs \<le> j"
        using Cons.IH [of rl' _ j] Cons.prems self a True ok k by auto
      with k show ?thesis using a by (simp add: c)
    qed
  qed
qed simp

lemma granted_burst_le:
  assumes "f64_rounding rnd" "capacity rl = of_nat c" "c \<le> 2 ^ 53" "\<forall>(q, t) \<in> set cs. t = now"
  shows "granted rnd p rl cs \<le> c"
  using assms(2,4)
proof (induction cs arbitrary: rl)
  case (Cons x cs)
  obtain q where x: "x = (q, now)" using Cons.prems(2) by (cases x) auto
  obtain ok rl' where a: "allow rnd q now rl = (ok, rl')" by fastforce
  show ?case
  proof (cases "q = p")
    case False
    then show ?thesis
      using Cons.IH [of rl'] Cons.prems a allow_capacity [OF a] by (simp add: x)
  next
    case True
    let ?r = "refilled rnd rl p now"
    have r: "?r \<le> of_nat c" using refilled_le [of rnd rl p now] Cons.prems(1) by simp
    have self: "ok = (?r \<ge> 1)" "buckets rl' p =
        Some \<lparr>tokens = (if ok then rnd (?r - 1) else ?r), last_time = now\<rparr>"
      using allow_self a True by metis+
    show ?thesis
    proof (cases ok)
      case False
      then have "granted rnd p rl' cs \<le> c"
        using granted_at_instant_le [OF assms(1), of cs now rl' p _ c] Cons.prems r self assms(3) by auto
      with False a show ?thesis by (simp add: x)
    next
      case ok: True
      with self r have "1 \<le> (of_nat c :: rat)" by simp
      then obtain j where c: "c = Suc j" by (cases c) auto
      have "rnd (?r - 1) \<le> of_nat j"
        using f64_mono [OF assms(1), of "?r - 1" "of_nat j"] f64_exact [OF assms(1), of j] r assms(3)
        by (simp add: c)
      then have "granted rnd p rl' cs \<le> j"
        using granted_at_instant_le [OF assms(1), of cs now rl' p _ j] Cons.prems self ok c assms(3) by auto
      with c a show ?thesis by (simp add: x)
    qed
  qed
qed simp

lemma granted_at_instant_eq:
  assumes "f64_rounding rnd" "c \<le> 2 ^ 53"
  shows "\<forall>(q, t) \<in> set cs. t = now \<Longrightarrow> capacity rl = of_nat c \<Longrightarrow>
    (buckets rl p = None \<and> k = c \<or> (\<exists>b. buckets rl p = Some b \<and> last_time b = now \<and> tokens b = of_nat k)) \<Longrightarrow>
    k \<le> c \<Longrightarrow> granted rnd p rl cs = min k (length (filter (\<lambda>(q, t). q = p) cs))"
proof (induction cs arbitrary: rl k)
  case (Cons x cs)
  obtain q where x: "x = (q, now)" using Cons.prems(1) by (cases x) auto
  obtain ok rl' where a: "allow rnd q now rl = (ok, rl')" by fastforce
  show ?case
  proof (cases "q = p")
    case False
    then show ?thesis
      using Cons.IH [of rl' k] Cons.prems a allow_other [OF a] allow_capacity [OF a] by (simp add: x)
  next
    case True
    have r: "refilled rnd rl p now = of_nat k"
      using Cons.prems f64_exact [OF assms(1), of k] f64_exact [OF assms] assms
      by (auto simp: refilled_def)
    have self: "ok = (of_nat k \<ge> (1 :: rat))" "buckets rl' p =
        Some \<lparr>tokens = (if ok then rnd (of_nat k - 1) else of_nat k), last_time = now\<rparr>"
      using allow_self a True r by metis+
    show ?thesis
    proof (cases k)
      case 0
      then show ?thesis
        using Cons.IH [of rl' 0] Cons.prems self a True allow_capacity [OF a] by (simp add: x)
    next
      case (Suc j)
      then have "rnd (of_nat k - 1) = of_nat j"
        using f64_exact [OF assms(1), of j] Cons.prems(4) assms(2) by simp
      then show ?thesis
        using Cons.IH [of rl' j] Cons.prems self a True allow_capacity [OF a] Suc by (simp add: x)
    qed
  qed
qed simp

section \<open>A time window\<close>

text \<open>
  What a bucket can gain per second, rounding included. Each of the operations of one refill errs by at most \<open>UNIT\<close> of
  its result, and the sum by at most \<open>UNIT\<close> of the capacity. A refill at the instant of the last one adds
  nothing, and any other is at least a nanosecond later, so the errors do not add up with the number of requests.
\<close>

definition refill_bound :: "rat \<Rightarrow> rat \<Rightarrow> rat" where
  "refill_bound refill cap = refill * (1 + 4 * UNIT) + 1000000000 * (8 * TINY * refill + 2 * TINY + UNIT * cap)"

lemma unit_tiny: "0 < UNIT" "0 < TINY" "TINY * 10 ^ 30 \<le> UNIT" "(1 + UNIT) ^ 3 \<le> 1 + 4 * UNIT" "UNIT < 1"
  by (simp_all add: UNIT_def TINY_def SCALE_def power3_eq_cube)

lemma refill_bound_nonneg: "0 \<le> refill \<Longrightarrow> 0 \<le> cap \<Longrightarrow> 0 \<le> refill_bound refill cap"
  using unit_tiny by (simp add: refill_bound_def)

text \<open>For a limiter made by \<open>new\<close> that is its nominal rate but for the last bits.\<close>

lemma refill_bound_le:
  assumes "0 \<le> refill" "refill \<le> q + q * UNIT + TINY" "0 \<le> q" "1 \<le> cap"
  shows "refill_bound refill cap \<le> q * (1 + 8 * UNIT) + cap / 2 ^ 23"
proof -
  let ?B = "1 + 4 * UNIT + 8000000000 * TINY"
  have B: "?B \<le> 1 + 5 * UNIT" "0 \<le> ?B" "(1 + UNIT) * (1 + 5 * UNIT) \<le> 1 + 8 * UNIT"
    using unit_tiny by (simp_all add: UNIT_def)
  have "refill * ?B \<le> (q * (1 + UNIT) + TINY) * (1 + 5 * UNIT)"
    using assms B unit_tiny by (intro mult_mono) (simp_all add: algebra_simps)
  also have "\<dots> = q * ((1 + UNIT) * (1 + 5 * UNIT)) + TINY * (1 + 5 * UNIT)" by (simp add: algebra_simps)
  also have "\<dots> \<le> q * (1 + 8 * UNIT) + TINY * 2"
    using assms(3) B(3) unit_tiny by (intro add_mono mult_left_mono) (simp_all add: UNIT_def)
  finally have "refill * ?B \<le> q * (1 + 8 * UNIT) + TINY * 2" .
  moreover have "refill_bound refill cap = refill * ?B + 2000000000 * TINY + 1000000000 * UNIT * cap"
    by (simp add: refill_bound_def algebra_simps)
  moreover have "TINY * 2 + 2000000000 * TINY \<le> UNIT * cap"
  proof -
    have "TINY * 2 + 2000000000 * TINY \<le> UNIT" using unit_tiny by simp
    also have "\<dots> \<le> UNIT * cap" using assms(4) unit_tiny(1) by simp
    finally show ?thesis .
  qed
  moreover have "1000000001 * UNIT * cap \<le> cap / 2 ^ 23" using assms(4) by (simp add: UNIT_def)
  ultimately show ?thesis by (simp add: algebra_simps)
qed

lemma secs_nanos: "of_nat (d div 1000000000) + of_nat (d mod 1000000000) / 1000000000 = (of_nat d / 1000000000 :: rat)"
proof -
  have "of_nat d = (of_nat (d div 1000000000) * 1000000000 + of_nat (d mod 1000000000) :: rat)"
    by (metis div_mult_mod_eq of_nat_add of_nat_mult of_nat_numeral)
  then show ?thesis by simp
qed

context binary64
begin

lemma near_le: "0 \<le> x \<Longrightarrow> x \<le> y \<Longrightarrow> rnd x \<le> y + y * UNIT + TINY"
  using near [of x] mult_right_mono [of x y UNIT] unit_tiny(1) by linarith

lemma elapsed_ge_0: "0 \<le> elapsed_secs rnd t u"
  unfolding elapsed_secs_def Let_def by (intro nonneg add_nonneg_nonneg) simp_all

lemma elapsed_same: "elapsed_secs rnd t t = 0"
  by (simp add: elapsed_secs_def)

lemma elapsed_le:
  fixes t u :: nat
  defines "D \<equiv> of_nat (t - u) / 1000000000 :: rat"
  shows "elapsed_secs rnd t u \<le> D * (1 + UNIT) ^ 2 + 4 * TINY"
proof -
  let ?s = "of_nat ((t - u) div 1000000000) :: rat" and ?n = "of_nat ((t - u) mod 1000000000) / 1000000000 :: rat"
  have D: "?s + ?n = D" unfolding D_def by (rule secs_nanos)
  have "rnd ?s + rnd ?n \<le> (?s + ?s * UNIT + TINY) + (?n + ?n * UNIT + TINY)"
    by (intro add_mono near) simp_all
  also have "\<dots> = D * (1 + UNIT) + 2 * TINY" unfolding D [symmetric] by (simp add: algebra_simps)
  finally have x: "rnd ?s + rnd ?n \<le> D * (1 + UNIT) + 2 * TINY" (is "?x \<le> ?y") .
  have "elapsed_secs rnd t u = rnd ?x" by (simp add: elapsed_secs_def Let_def)
  also have "\<dots> \<le> ?y + ?y * UNIT + TINY" using x by (intro near_le add_nonneg_nonneg nonneg) simp_all
  also have "\<dots> = D * (1 + UNIT) ^ 2 + TINY * (3 + 2 * UNIT)" by (simp add: algebra_simps power2_eq_square)
  also have "\<dots> \<le> D * (1 + UNIT) ^ 2 + TINY * 4" using unit_tiny by (intro add_left_mono mult_left_mono) (simp_all add: UNIT_def)
  finally show ?thesis by simp
qed

lemma gained_le:
  fixes refill :: rat and t u :: nat
  defines "D \<equiv> of_nat (t - u) / 1000000000 :: rat"
  assumes "0 \<le> refill"
  shows "rnd (elapsed_secs rnd t u * refill) \<le> D * (refill * (1 + 4 * UNIT)) + 8 * TINY * refill + TINY"
proof -
  let ?e = "elapsed_secs rnd t u" and ?E = "D * (1 + UNIT) ^ 2 + 4 * TINY"
  have D: "0 \<le> D" by (simp add: D_def)
  have "rnd (?e * refill) \<le> ?e * refill * (1 + UNIT) + TINY"
    using near [of "?e * refill"] elapsed_ge_0 [of t u] assms(2) by (simp add: algebra_simps)
  also have "\<dots> \<le> ?E * refill * (1 + UNIT) + TINY"
    using elapsed_le [of t u] assms(2) unit_tiny(1) unfolding D_def by (intro add_right_mono mult_right_mono) simp_all
  also have "\<dots> = D * refill * (1 + UNIT) ^ 3 + TINY * refill * (4 * (1 + UNIT)) + TINY"
    by (simp add: algebra_simps power2_eq_square power3_eq_cube)
  also have "\<dots> \<le> D * refill * (1 + 4 * UNIT) + TINY * refill * 8 + TINY"
    using assms(2) D unit_tiny by (intro add_mono mult_left_mono) simp_all
  finally show ?thesis by (simp add: algebra_simps)
qed

text \<open>The tokens of a bucket after its refill.\<close>

lemma refilled_gain:
  assumes "buckets rl p = Some b" "rnd (tokens b) = tokens b" "0 \<le> tokens b" "0 \<le> refill_per_sec rl" "0 \<le> capacity rl"
  shows "refilled rnd rl p t
    \<le> tokens b + refill_bound (refill_per_sec rl) (capacity rl) * (of_nat (t - last_time b) / 1000000000)"
proof (cases "t \<le> last_time b")
  case True
  then have "elapsed_secs rnd t (last_time b) = 0" by (simp add: elapsed_secs_def)
  then show ?thesis using assms True by (simp add: refilled_def)
next
  case False
  let ?R = "refill_per_sec rl" and ?c = "capacity rl"
  define D where "D = (of_nat (t - last_time b) / 1000000000 :: rat)"
  let ?g = "rnd (elapsed_secs rnd t (last_time b) * ?R)" and ?err = "8 * TINY * ?R + 2 * TINY + UNIT * ?c"
  have g: "0 \<le> ?g" using elapsed_ge_0 assms(4) by (intro nonneg) simp
  have "refilled rnd rl p t = min (rnd (tokens b + ?g)) ?c" using assms(1) by (simp add: refilled_def)
  also have "\<dots> \<le> tokens b + ?g + UNIT * ?c + TINY"
  proof (cases "tokens b + ?g \<le> ?c")
    case True
    then have "(tokens b + ?g) * UNIT \<le> UNIT * ?c" using unit_tiny(1) by (simp add: mult.commute)
    then show ?thesis using near [of "tokens b + ?g"] assms(3) g by linarith
  next
    case False
    moreover have "0 \<le> UNIT * ?c" using unit_tiny(1) assms(5) by simp
    ultimately show ?thesis using unit_tiny(2) min.cobounded2 [of "rnd (tokens b + ?g)" ?c] by linarith
  qed
  also have "\<dots> \<le> tokens b + (D * (?R * (1 + 4 * UNIT)) + ?err)"
    using gained_le [OF assms(4), of t "last_time b"] unfolding D_def by simp
  also have "\<dots> \<le> tokens b + (D * (?R * (1 + 4 * UNIT)) + D * 1000000000 * ?err)"
  proof -
    have "1 \<le> D * 1000000000" using False by (simp add: D_def)
    then have "1 * ?err \<le> D * 1000000000 * ?err"
      using unit_tiny assms(4,5) by (intro mult_right_mono) simp_all
    then show ?thesis by simp
  qed
  finally show ?thesis unfolding D_def [symmetric] refill_bound_def by (simp add: algebra_simps)
qed

text \<open>A limiter up to the instant \<open>T\<close>: the tokens of a bucket are an \<open>f64\<close>.\<close>

definition limiter_ok :: "nat \<Rightarrow> 'p RateLimiter \<Rightarrow> bool" where
  "limiter_ok T rl \<longleftrightarrow> (\<exists>c < 2 ^ 53. capacity rl = of_nat c) \<and> 0 \<le> refill_per_sec rl
     \<and> (\<forall>p b. buckets rl p = Some b \<longrightarrow> rnd (tokens b) = tokens b \<and> 0 \<le> tokens b \<and> last_time b \<le> T)"

lemma refilled_ok:
  assumes "limiter_ok T rl"
  shows "rnd (refilled rnd rl p t) = refilled rnd rl p t \<and> 0 \<le> refilled rnd rl p t \<and> refilled rnd rl p t < 2 ^ 53"
proof -
  obtain c where c: "c < 2 ^ 53" "capacity rl = of_nat c" using assms by (auto simp: limiter_ok_def)
  have cap: "rnd (capacity rl) = capacity rl" "0 \<le> capacity rl" using c exact [of c] by simp_all
  have "of_nat c < (2 ^ 53 :: rat)" using c(1) by (metis of_nat_less_iff of_nat_numeral of_nat_power)
  then have lt: "refilled rnd rl p t < 2 ^ 53" using refilled_le [of rnd rl p t] c(2) by simp
  have "0 \<le> rnd (tokens b + rnd (elapsed_secs rnd t (last_time b) * refill_per_sec rl))" if "buckets rl p = Some b" for b
    using assms that elapsed_ge_0 by (intro nonneg add_nonneg_nonneg) (auto simp: limiter_ok_def intro: nonneg)
  then show ?thesis using lt cap by (auto simp: refilled_def min_def idem elapsed_same split: option.splits)
qed

lemma allow_bucket:
  assumes "limiter_ok T rl" "allow rnd p t rl = (ok, rl')"
  shows "ok = (refilled rnd rl p t \<ge> 1)"
    "buckets rl' p = Some \<lparr>tokens = refilled rnd rl p t - (if ok then 1 else 0), last_time = t\<rparr>"
  using allow_self [OF assms(2)] refilled_ok [OF assms(1), of p t] minus_1 [of "refilled rnd rl p t"] by auto

lemma limiter_ok_allow:
  assumes "limiter_ok T rl" "allow rnd q t rl = (ok, rl')" "t \<le> T"
  shows "limiter_ok T rl'"
proof -
  have "rnd (tokens b) = tokens b \<and> 0 \<le> tokens b \<and> last_time b \<le> T" if "buckets rl' p = Some b" for p b
  proof (cases "p = q")
    case True
    then show ?thesis
      using that allow_bucket [OF assms(1,2)] refilled_ok [OF assms(1), of q t] minus_1 [of "refilled rnd rl q t"] assms(3)
      by auto
  next
    case False
    then show ?thesis using that allow_other [OF assms(2), of p] assms(1) by (auto simp: limiter_ok_def)
  qed
  then show ?thesis using assms(1) allow_capacity [OF assms(2)] by (auto simp: limiter_ok_def)
qed

lemma limiter_ok_after:
  "limiter_ok T rl \<Longrightarrow> \<forall>(q, t) \<in> set cs. t \<le> T \<Longrightarrow>
   limiter_ok T (after_requests rnd cs rl) \<and> capacity (after_requests rnd cs rl) = capacity rl
   \<and> refill_per_sec (after_requests rnd cs rl) = refill_per_sec rl"
proof (induction cs arbitrary: rl)
  case (Cons x cs)
  obtain q t where x: "x = (q, t)" by fastforce
  obtain ok rl' where a: "allow rnd q t rl = (ok, rl')" by fastforce
  have "after_requests rnd (x # cs) rl = after_requests rnd cs rl'" by (simp add: after_requests_def x a)
  then show ?case
    using Cons.IH [of rl'] Cons.prems limiter_ok_allow [OF Cons.prems(1) a] allow_capacity [OF a] x by simp
qed (simp add: after_requests_def)

lemma granted_window:
  "sorted (map snd cs) \<Longrightarrow> \<forall>(q, t) \<in> set cs. last_time b \<le> t \<and> t \<le> T \<Longrightarrow> buckets rl p = Some b \<Longrightarrow> limiter_ok T rl \<Longrightarrow>
   of_nat (granted rnd p rl cs)
     \<le> tokens b + refill_bound (refill_per_sec rl) (capacity rl) * (of_nat (T - last_time b) / 1000000000)"
proof (induction cs arbitrary: rl b)
  case Nil
  then show ?case
    by (auto simp: limiter_ok_def intro!: add_nonneg_nonneg mult_nonneg_nonneg refill_bound_nonneg)
next
  case (Cons x cs)
  obtain q t where x: "x = (q, t)" by fastforce
  obtain ok rl' where a: "allow rnd q t rl = (ok, rl')" by fastforce
  note cap = allow_capacity [OF a]
  have t: "last_time b \<le> t" "t \<le> T" using Cons.prems(2) by (auto simp: x)
  have ok': "limiter_ok T rl'" by (rule limiter_ok_allow [OF Cons.prems(4) a t(2)])
  show ?case
  proof (cases "q = p")
    case False
    then show ?thesis
      using Cons.IH [of b rl'] Cons.prems a allow_other [OF a] cap ok' by (simp add: x)
  next
    case True
    let ?r = "refilled rnd rl p t" and ?rho = "refill_bound (refill_per_sec rl) (capacity rl)"
    have b: "buckets rl' p = Some \<lparr>tokens = ?r - (if ok then 1 else 0), last_time = t\<rparr>"
      using allow_bucket(2) [OF Cons.prems(4), of p t ok rl'] a True by simp
    have later: "\<forall>(q, u) \<in> set cs. t \<le> u \<and> u \<le> T" using Cons.prems(1,2) by (auto simp: x)
    have "of_nat (granted rnd p rl' cs) \<le> ?r - (if ok then 1 else 0) + ?rho * (of_nat (T - t) / 1000000000)"
      using Cons.IH [OF _ _ b ok'] Cons.prems(1) later cap by (simp add: x)
    then have "of_nat (granted rnd p rl (x # cs)) \<le> ?r + ?rho * (of_nat (T - t) / 1000000000)"
      using a True by (simp add: x split: if_splits)
    moreover have "?r \<le> tokens b + ?rho * (of_nat (t - last_time b) / 1000000000)"
      using Cons.prems(3,4) by (intro refilled_gain) (auto simp: limiter_ok_def)
    moreover have "of_nat (T - last_time b) = (of_nat (T - t) + of_nat (t - last_time b) :: rat)"
      using t by (simp flip: of_nat_add)
    ultimately show ?thesis by (simp add: add_divide_distrib distrib_left)
  qed
qed

lemma granted_window_start:
  "sorted (map snd cs) \<Longrightarrow> \<forall>(q, t) \<in> set cs. t0 \<le> t \<and> t \<le> T \<Longrightarrow> limiter_ok T rl \<Longrightarrow>
   of_nat (granted rnd p rl cs)
     \<le> capacity rl + refill_bound (refill_per_sec rl) (capacity rl) * (of_nat (T - t0) / 1000000000)"
proof (induction cs arbitrary: rl)
  case Nil
  then show ?case
    by (auto simp: limiter_ok_def intro!: add_nonneg_nonneg mult_nonneg_nonneg refill_bound_nonneg)
next
  case (Cons x cs)
  obtain q t where x: "x = (q, t)" by fastforce
  obtain ok rl' where a: "allow rnd q t rl = (ok, rl')" by fastforce
  note cap = allow_capacity [OF a]
  have t: "t0 \<le> t" "t \<le> T" using Cons.prems(2) by (auto simp: x)
  have ok': "limiter_ok T rl'" by (rule limiter_ok_allow [OF Cons.prems(3) a t(2)])
  show ?case
  proof (cases "q = p")
    case False
    then show ?thesis using Cons.IH [of rl'] Cons.prems a cap ok' by (simp add: x)
  next
    case True
    let ?r = "refilled rnd rl p t" and ?rho = "refill_bound (refill_per_sec rl) (capacity rl)"
    have b: "buckets rl' p = Some \<lparr>tokens = ?r - (if ok then 1 else 0), last_time = t\<rparr>"
      using allow_bucket(2) [OF Cons.prems(3), of p t ok rl'] a True by simp
    have later: "\<forall>(q, u) \<in> set cs. t \<le> u \<and> u \<le> T" using Cons.prems(1,2) by (auto simp: x)
    have "of_nat (granted rnd p rl' cs) \<le> ?r - (if ok then 1 else 0) + ?rho * (of_nat (T - t) / 1000000000)"
      using granted_window [OF _ _ b ok'] Cons.prems(1) later cap by (simp add: x)
    then have "of_nat (granted rnd p rl (x # cs)) \<le> ?r + ?rho * (of_nat (T - t) / 1000000000)"
      using a True by (simp add: x split: if_splits)
    moreover have "0 \<le> ?rho" using Cons.prems(3) by (auto simp: limiter_ok_def intro!: refill_bound_nonneg)
    then have "?rho * (of_nat (T - t) / 1000000000) \<le> ?rho * (of_nat (T - t0) / 1000000000)"
      using t by (intro mult_left_mono divide_right_mono) simp_all
    ultimately show ?thesis using refilled_le [of rnd rl p t] by linarith
  qed
qed

end

section \<open>Properties\<close>

text \<open>The burst a peer gets at one instant, whatever the other peers ask and whatever happened
  before: never more than the capacity, and for a peer that is new exactly as many as it asks for up
  to the capacity. This holds for every rounding of the arithmetic that is monotone and exact on
  integers.\<close>

lemma rate_limit_burst:
  assumes "f64_rounding rnd" "capacity rl = of_nat c" "c \<le> 2 ^ 53"
    and "\<forall>(q, t) \<in> set cs. t = now"
  shows "granted rnd p rl cs \<le> c \<and>
    (buckets rl p = None \<longrightarrow>
      granted rnd p rl cs = min c (length (filter (\<lambda>(q, t). q = p) cs)))"
  using granted_burst_le [OF assms] granted_at_instant_eq [OF assms(1,3,4,2), of p c] by simp

lemma unat_less_word: "unat (w :: u32) < 2 ^ 32"
  using unsigned_less [of w] by simp

lemma min_positive_small: "1 / 1000000000 \<le> period \<Longrightarrow> max period (1 / 2 ^ 1022) = (period :: rat)"
proof -
  have "(1000000000 :: rat) \<le> 2 ^ 30" by simp
  also have "\<dots> \<le> 2 ^ 1022" by (rule power_increasing) simp_all
  finally have "1 / 2 ^ 1022 \<le> (1 / 1000000000 :: rat)" by (intro divide_left_mono) simp_all
  then show "1 / 1000000000 \<le> period \<Longrightarrow> max period (1 / 2 ^ 1022) = period" by (intro max_absorb1) (rule order_trans)
qed

text \<open>C28: The rate over any window, in the \<open>f64\<close> arithmetic of the code. After any earlier requests, the requests of
  one peer allowed from \<open>t0\<close> to \<open>T\<close> are at most the capacity plus what refills in that time, where rounding adds
  at most one part in \<open>2 ^ 50\<close> to the nominal rate and one part in \<open>2 ^ 23\<close> of the capacity per second, however
  many requests are made. The period is at least a nanosecond, so that no operation overflows.\<close>

theorem rate_limit_window:
  assumes "1 / 1000000000 \<le> period" "\<forall>(q, t) \<in> set earlier. t \<le> t0"
    and "t0 \<le> T" "sorted (map snd cs)" "\<forall>(q, t) \<in> set cs. t0 \<le> t \<and> t \<le> T"
  shows "of_nat (granted round_f64 p
      (after_requests round_f64 earlier (RateLimiter_new round_f64 cap period)) cs)
    \<le> of_nat (unat (max cap 1)) + (of_nat (unat (max cap 1)) / period * (1 + 1 / 2 ^ 50)
        + of_nat (unat (max cap 1)) / 2 ^ 23) * (of_nat (T - t0) / 1000000000)"
proof -
  let ?new = "RateLimiter_new round_f64 cap period" and ?c = "of_nat (unat (max cap 1)) :: rat"
  have m: "max period (1 / 2 ^ 1022) = period"
    by (rule min_positive_small [OF assms(1)])
  have new: "capacity ?new = ?c" "refill_per_sec ?new = round_f64 (?c / period)" "buckets ?new = Map.empty"
    by (simp_all only: RateLimiter_new_def Let_def m RateLimiter.simps)
  have p: "0 < period" by (rule less_le_trans [OF _ assms(1)]) simp
  have c: "unat (max cap 1) < 2 ^ 53" using unat_less_word [of "max cap 1"] by simp
  have "1 \<le> unat (max cap 1)" using word_le_nat_alt [of 1 "max cap 1"] by simp
  then have c1: "1 \<le> ?c" by (metis of_nat_1 of_nat_le_iff)
  have r: "0 \<le> round_f64 (?c / period)" using p by (intro f64.nonneg divide_nonneg_pos of_nat_0_le_iff)
  have ok: "f64.limiter_ok t0 ?new"
    unfolding f64.limiter_ok_def new using c r by auto
  have after: "f64.limiter_ok T (after_requests round_f64 earlier ?new)"
    using f64.limiter_ok_after [OF ok assms(2)] assms(3) by (fastforce simp: f64.limiter_ok_def)
  have "refill_bound (round_f64 (?c / period)) ?c \<le> ?c / period * (1 + 8 * UNIT) + ?c / 2 ^ 23"
    using c1 p r by (intro refill_bound_le f64.near) (simp_all only: divide_nonneg_pos of_nat_0_le_iff)
  also have "1 + 8 * UNIT = 1 + 1 / 2 ^ 50" by (simp add: UNIT_def)
  finally have rate: "refill_bound (round_f64 (?c / period)) ?c * (of_nat (T - t0) / 1000000000)
      \<le> (?c / period * (1 + 1 / 2 ^ 50) + ?c / 2 ^ 23) * (of_nat (T - t0) / 1000000000)"
    by (rule mult_right_mono) simp
  have cap: "capacity (after_requests round_f64 earlier ?new) = ?c"
    "refill_per_sec (after_requests round_f64 earlier ?new) = round_f64 (?c / period)"
    using f64.limiter_ok_after [OF ok assms(2)] unfolding new by blast+
  show ?thesis
    using f64.granted_window_start [OF assms(4,5) after, of p] add_left_mono [OF rate, of ?c] unfolding cap by (rule order_trans)
qed

lemma rate_limit_burst_instance:
  "granted unrounded ''a'' (store (RateLimiters_default unrounded)) (replicate 12 (''a'', 7)) = 10"
proof -
  have c: "capacity (store (RateLimiters_default unrounded)) = of_nat 10"
    "buckets (store (RateLimiters_default unrounded)) ''a'' = None"
    by (simp_all add: RateLimiters_default_def RateLimiter_new_def Let_def max_def word_le_nat_alt)
  show ?thesis
    using rate_limit_burst [OF f64_rounding_unrounded c(1), of "replicate 12 (''a'', 7)" 7 "''a''"] c(2) by simp
qed

text \<open>Of thirty requests within a second at most twenty are allowed.\<close>

theorem rate_limit_window_witness:
  "granted round_f64 ''a'' (after_requests round_f64 [(''a'', 0), (''b'', 3)] (RateLimiter_new round_f64 10 1))
     (replicate 15 (''a'', 5) @ replicate 15 (''a'', 1000000005)) \<le> 20"
proof -
  let ?n = "granted round_f64 ''a'' (after_requests round_f64 [(''a'', 0), (''b'', 3)] (RateLimiter_new round_f64 10 1))
     (replicate 15 (''a'', 5) @ replicate 15 (''a'', 1000000005))"
  have m: "unat (max (10 :: u32) 1) = 10" by (simp add: max_def word_le_nat_alt)
  have s: "sorted (map snd (replicate 15 (''a'', 5 :: nat) @ replicate 15 (''a'', 1000000005)))"
    by (simp add: sorted_append)
  have "of_nat ?n \<le> 10 + (10 / 1 * (1 + 1 / 2 ^ 50) + 10 / 2 ^ 23) * (of_nat (1000000005 - 5) / 1000000000 :: rat)"
    using rate_limit_window [OF _ _ _ s, of 1 "[(''a'', 0), (''b'', 3)]" 5 1000000005 "''a''" 10] unfolding m by simp
  also have "\<dots> < of_nat 21" by simp
  finally show ?thesis unfolding of_nat_less_iff by simp
qed

end
