(* ===== verification/Node_Metrics.thy ===== *)
theory Node_Metrics
  imports Waku_Prelude
begin

text \<open>
  \<open>crates/waku-node/src/metrics.rs\<close>: the counters. \<open>fetch_add\<close> on an \<open>AtomicU64\<close> wraps around; the
  counters are a value that the operations return updated.
\<close>

record Metrics =
  relay_messages :: u64
  store_queries :: u64
  lightpush_requests :: u64
  filter_pushes :: u64
  rate_limited :: u64

record MetricsSnapshot =
  relay_messages :: u64
  store_queries :: u64
  lightpush_requests :: u64
  filter_pushes :: u64
  rate_limited :: u64

definition Metrics_new :: Metrics where
  "Metrics_new =
     \<lparr>Metrics.relay_messages = 0, store_queries = 0, lightpush_requests = 0, filter_pushes = 0,
      rate_limited = 0\<rparr>"

definition Metrics_relay_message :: "Metrics \<Rightarrow> Metrics" where
  "Metrics_relay_message m = m\<lparr>Metrics.relay_messages := Metrics.relay_messages m + 1\<rparr>"

definition Metrics_store_query :: "Metrics \<Rightarrow> Metrics" where
  "Metrics_store_query m = m\<lparr>Metrics.store_queries := Metrics.store_queries m + 1\<rparr>"

definition Metrics_lightpush_request :: "Metrics \<Rightarrow> Metrics" where
  "Metrics_lightpush_request m = m\<lparr>Metrics.lightpush_requests := Metrics.lightpush_requests m + 1\<rparr>"

definition Metrics_filter_pushes_add :: "u64 \<Rightarrow> Metrics \<Rightarrow> Metrics" where
  "Metrics_filter_pushes_add n m = m\<lparr>Metrics.filter_pushes := Metrics.filter_pushes m + n\<rparr>"

definition Metrics_rate_limited :: "Metrics \<Rightarrow> Metrics" where
  "Metrics_rate_limited m = m\<lparr>Metrics.rate_limited := Metrics.rate_limited m + 1\<rparr>"

definition Metrics_snapshot :: "Metrics \<Rightarrow> MetricsSnapshot" where
  "Metrics_snapshot m =
     \<lparr>relay_messages = Metrics.relay_messages m, store_queries = Metrics.store_queries m,
      lightpush_requests = Metrics.lightpush_requests m, filter_pushes = Metrics.filter_pushes m,
      rate_limited = Metrics.rate_limited m\<rparr>"

lemmas Metrics_defs =
  Metrics_relay_message_def Metrics_store_query_def Metrics_lightpush_request_def
  Metrics_filter_pushes_add_def Metrics_rate_limited_def

end
