(* ===== verification/Node_Connections.thy ===== *)
theory Node_Connections
  imports Main
begin

text \<open>
  The ip-colocation guard of \<open>crates/waku-node/src/runtime.rs\<close>: \<open>multiaddr_ip\<close> and what
  \<open>handle_event\<close> does to \<open>ip_counts\<close> when a connection is established or closed. The step relation
  \<open>conn_step\<close> runs the guard against the connections that are really open, as the swarm reports them:
  the guard asks the swarm to disconnect a refused peer, which the swarm later reports as a closed
  connection like any other.
\<close>

section \<open>Definitions\<close>

datatype IpAddr = V4 nat | V6 nat

datatype Protocol = Ip4 nat | Ip6 nat | Tcp nat | OtherProtocol string

type_synonym Multiaddr = "Protocol list"

fun multiaddr_ip :: "Multiaddr \<Rightarrow> IpAddr option" where
  "multiaddr_ip [] = None"
| "multiaddr_ip (Ip4 ip # ps) = Some (V4 ip)"
| "multiaddr_ip (Ip6 ip # ps) = Some (V6 ip)"
| "multiaddr_ip (Tcp _ # ps) = multiaddr_ip ps"
| "multiaddr_ip (OtherProtocol _ # ps) = multiaddr_ip ps"

type_synonym ip_counts = "IpAddr \<rightharpoonup> nat"

text \<open>Established: whether the connection is kept, and the counts. The entry is created by
  \<open>or_insert(0)\<close>, incremented, and decremented again when it exceeds the limit.\<close>

definition ip_established :: "nat \<Rightarrow> IpAddr option \<Rightarrow> ip_counts \<Rightarrow> bool \<times> ip_counts" where
  "ip_established ip_limit ip counts =
     (if ip_limit > 0 then
        (case ip of
           None \<Rightarrow> (True, counts)
         | Some i \<Rightarrow>
             let count = (case counts i of None \<Rightarrow> 0 | Some c \<Rightarrow> c) + 1
             in if count > ip_limit then (False, counts(i \<mapsto> count - 1))
                else (True, counts(i \<mapsto> count)))
      else (True, counts))"

definition ip_closed :: "IpAddr option \<Rightarrow> ip_counts \<Rightarrow> ip_counts" where
  "ip_closed ip counts =
     (case ip of
        None \<Rightarrow> counts
      | Some i \<Rightarrow>
          (case counts i of
             None \<Rightarrow> counts
           | Some c \<Rightarrow> if c - 1 = 0 then counts(i := None) else counts(i \<mapsto> c - 1)))"

section \<open>The guard against the open connections\<close>

text \<open>An open connection: its id, its remote IP and whether the guard kept it.\<close>

type_synonym conn = "nat \<times> IpAddr option \<times> bool"

inductive conn_step :: "nat \<Rightarrow> ip_counts \<times> conn list \<Rightarrow> ip_counts \<times> conn list \<Rightarrow> bool" for ip_limit where
  established: "c \<notin> fst ` set open \<Longrightarrow> ip_established ip_limit ip counts = (kept, counts') \<Longrightarrow>
    conn_step ip_limit (counts, open) (counts', (c, ip, kept) # open)"
| closed: "(c, ip, kept) \<in> set open \<Longrightarrow>
    conn_step ip_limit (counts, open) (ip_closed ip counts, remove1 (c, ip, kept) open)"

inductive conn_reachable :: "nat \<Rightarrow> ip_counts \<times> conn list \<Rightarrow> bool" for ip_limit where
  start: "conn_reachable ip_limit (Map.empty, [])"
| step: "conn_reachable ip_limit s \<Longrightarrow> conn_step ip_limit s s' \<Longrightarrow> conn_reachable ip_limit s'"

inductive_cases conn_stepE: "conn_step ip_limit s s'"

definition kept_from :: "IpAddr \<Rightarrow> conn list \<Rightarrow> nat" where
  "kept_from i open = length (filter (\<lambda>(c, ip, kept). ip = Some i \<and> kept) open)"

abbreviation counted :: "ip_counts \<Rightarrow> IpAddr \<Rightarrow> nat" where
  "counted counts i \<equiv> (case counts i of None \<Rightarrow> 0 | Some c \<Rightarrow> c)"

text \<open>The invariant: every entry is a count from one to the limit, and no more than the connections kept
  from that IP.\<close>

definition counts_ok :: "nat \<Rightarrow> ip_counts \<times> conn list \<Rightarrow> bool" where
  "counts_ok ip_limit s \<longleftrightarrow>
     (\<forall>i c. fst s i = Some c \<longrightarrow> 1 \<le> c \<and> c \<le> ip_limit \<and> c \<le> kept_from i (snd s))"

lemma kept_from_Cons [simp]:
  "kept_from i ((c, ip, kept) # open) = (if ip = Some i \<and> kept then 1 else 0) + kept_from i open"
  by (simp add: kept_from_def)

lemma kept_from_remove1:
  "(c, ip, kept) \<in> set open \<Longrightarrow>
   kept_from i (remove1 (c, ip, kept) open) = kept_from i open - (if ip = Some i \<and> kept then 1 else 0)"
  by (auto simp: kept_from_def filter_remove1 length_remove1)

lemma counts_ok_step:
  assumes "counts_ok ip_limit s" "conn_step ip_limit s s'"
  shows "counts_ok ip_limit s'"
  using assms(2)
proof (cases rule: conn_step.cases)
  case (established c "open" ip counts kept counts')
  then show ?thesis
    using assms(1)
    by (auto simp: counts_ok_def ip_established_def Let_def split: if_splits option.splits)
next
  case (closed c ip kept "open" counts)
  then show ?thesis
    using assms(1)
    by (fastforce simp: counts_ok_def ip_closed_def kept_from_remove1 split: if_splits option.splits)
qed

lemma counts_ok_reachable: "conn_reachable ip_limit s \<Longrightarrow> counts_ok ip_limit s"
proof (induction rule: conn_reachable.induct)
  case start
  show ?case by (simp add: counts_ok_def)
next
  case (step s s')
  then show ?case by (blast intro: counts_ok_step)
qed

lemma fresh_id: "\<exists>c. c \<notin> fst ` set (open :: conn list)"
  using ex_new_if_finite [of "fst ` set open"] by (simp add: infinite_UNIV_nat)

text \<open>A refused connection is subtracted twice: at once, and when it closes.\<close>

lemma refuse_and_close:
  assumes "conn_reachable ip_limit (counts, open)" "0 < ip_limit" "counts i = Some ip_limit"
  shows "\<exists>counts'. conn_reachable ip_limit (counts', open) \<and> counted counts' i = ip_limit - 1"
proof -
  obtain c where c: "c \<notin> fst ` set open" using fresh_id by blast
  have "ip_established ip_limit (Some i) counts = (False, counts(i \<mapsto> ip_limit))"
    using assms(2,3) by (simp add: ip_established_def)
  from conn_reachable.step [OF assms(1) established [OF c this]]
  have "conn_reachable ip_limit (counts(i \<mapsto> ip_limit), (c, Some i, False) # open)" .
  from conn_reachable.step [OF this closed [of c "Some i" False]]
  have "conn_reachable ip_limit (ip_closed (Some i) (counts(i \<mapsto> ip_limit)), open)" by simp
  moreover have "counted (ip_closed (Some i) (counts(i \<mapsto> ip_limit))) i = ip_limit - 1"
    by (simp add: ip_closed_def)
  ultimately show ?thesis by blast
qed

lemma kept_unbounded:
  assumes "0 < ip_limit"
  shows "\<exists>counts open. conn_reachable ip_limit (counts, open) \<and> counted counts i = min k ip_limit
    \<and> kept_from i open = k"
proof (induction k)
  case 0
  show ?case by (intro exI conjI) (rule start, simp_all add: kept_from_def)
next
  case (Suc k)
  then obtain counts "open" where s: "conn_reachable ip_limit (counts, open)"
    "counted counts i = min k ip_limit" "kept_from i open = k" by blast
  have "\<exists>counts. conn_reachable ip_limit (counts, open) \<and> counted counts i = min k (ip_limit - 1)"
  proof (cases "k < ip_limit")
    case True
    with s show ?thesis by auto
  next
    case False
    with s(2) assms have "counts i = Some ip_limit" by (auto split: option.splits)
    from refuse_and_close [OF s(1) assms this] False show ?thesis by auto
  qed
  then obtain counts' where s': "conn_reachable ip_limit (counts', open)"
    "counted counts' i = min k (ip_limit - 1)" by blast
  let ?n = "Suc (min k (ip_limit - 1))"
  obtain c where c: "c \<notin> fst ` set open" using fresh_id by blast
  have "ip_established ip_limit (Some i) counts' = (True, counts'(i \<mapsto> ?n))"
    using assms s'(2) by (auto simp: ip_established_def Let_def)
  from conn_reachable.step [OF s'(1) established [OF c this]] s(3) assms
  show ?case by (intro exI conjI) (assumption, auto)
qed

section \<open>Properties\<close>

text \<open>C29: In every state the guard can reach, every entry of the table is a count from one to the limit
  and no more than the connections kept from that IP; so a connection is refused only when the limit
  is really reached: whenever the guard refuses a connection from an IP, at least as many connections
  from that IP as the limit allows are open and were kept.\<close>

theorem colocation_refusal_justified:
  assumes "conn_reachable ip_limit (counts, open)"
  shows "(\<forall>j c. counts j = Some c \<longrightarrow> 1 \<le> c \<and> c \<le> ip_limit \<and> c \<le> kept_from j open)
    \<and> (\<forall>i counts'. ip_established ip_limit (Some i) counts = (False, counts') \<longrightarrow> ip_limit \<le> kept_from i open)"
  using counts_ok_reachable [OF assms]
  by (fastforce simp: counts_ok_def ip_established_def Let_def less_Suc_eq_le split: if_splits option.splits)

text \<open>The limit does not hold. For every limit and every number of connections there is a run in
  which that many connections from one IP are open at once and none of them was refused: each refused
  connection lowers the count once more when it closes, which makes room for another one.\<close>

lemma colocation_limit_exceeded:
  assumes "0 < ip_limit"
  shows "\<exists>counts open. conn_reachable ip_limit (counts, open) \<and> kept_from i open = ip_limit + n"
  using kept_unbounded [OF assms, of i "ip_limit + n"] by blast

theorem colocation_refusal_justified_witness:
  "conn_reachable 1 (Map.empty(V4 7 \<mapsto> 1), [(0, Some (V4 7), True)])
   \<and> ip_established 1 (Some (V4 7)) (Map.empty(V4 7 \<mapsto> 1)) = (False, Map.empty(V4 7 \<mapsto> 1))
   \<and> 1 \<le> kept_from (V4 7) [(0, Some (V4 7), True)]"
proof -
  have "ip_established 1 (Some (V4 7)) Map.empty = (True, Map.empty(V4 7 \<mapsto> 1))"
    by (simp add: ip_established_def)
  from conn_reachable.step [OF start established [OF _ this]]
  have r: "conn_reachable 1 (Map.empty(V4 7 \<mapsto> 1), [(0, Some (V4 7), True)])" by simp
  have e: "ip_established 1 (Some (V4 7)) (Map.empty(V4 7 \<mapsto> 1)) = (False, Map.empty(V4 7 \<mapsto> 1))"
    by (simp add: ip_established_def)
  show ?thesis using colocation_refusal_justified [OF r] r e by auto
qed

lemma colocation_limit_exceeded_instance:
  "\<exists>counts open. conn_reachable 20 (counts, open) \<and> kept_from (V4 7) open = 21"
  using colocation_limit_exceeded [of 20 "V4 7" 1] by simp

end
