(* ===== verification/Peer_Book.thy ===== *)
theory Peer_Book
  imports Main
begin

text \<open>
  Bounded queues, and the peer book of \<open>crates/waku-node/src/runtime.rs\<close> (\<open>remember_enr\<close>). An ENR is
  of any type; \<open>node_id\<close> is the accessor of the \<open>enr\<close> crate. The locale \<open>bounded_queue\<close> is the
  discipline the peer book shares with the message cache of the REST API: a new element goes to the
  back, and a full queue first drops its oldest one.
\<close>

section \<open>Bounded queues\<close>

locale bounded_queue =
  fixes skip :: "'a \<Rightarrow> 'a list \<Rightarrow> bool"
    and add :: "'a \<Rightarrow> 'a list \<Rightarrow> 'a list"
    and cap :: nat
  assumes cap_pos: "0 < cap"
    and add_skip: "skip x xs \<Longrightarrow> add x xs = xs"
    and add_room: "\<not> skip x xs \<Longrightarrow> length xs < cap \<Longrightarrow> add x xs = xs @ [x]"
    and add_full: "\<not> skip x xs \<Longrightarrow> cap \<le> length xs \<Longrightarrow> add x xs = tl xs @ [x]"
begin

lemma add_length: "length xs \<le> cap \<Longrightarrow> length (add x xs) \<le> cap"
  using cap_pos add_skip [of x xs] add_room [of x xs] add_full [of x xs]
  by (cases "skip x xs"; cases "length xs < cap") auto

lemma add_set: "set (add x xs) \<subseteq> insert x (set xs)"
  using add_skip [of x xs] add_room [of x xs] add_full [of x xs] list.set_sel(2) [of xs]
  by (cases "skip x xs"; cases "length xs < cap"; cases xs) auto

lemma add_newest: "\<not> skip x xs \<Longrightarrow> add x xs \<noteq> [] \<and> last (add x xs) = x"
  using add_room [of x xs] add_full [of x xs] by (cases "length xs < cap") auto

lemma fold_length: "length xs \<le> cap \<Longrightarrow> length (fold add ys xs) \<le> cap"
  by (induction ys arbitrary: xs) (simp_all add: add_length)

lemma fold_set: "set (fold add ys xs) \<subseteq> set ys \<union> set xs"
proof (induction ys arbitrary: xs)
  case (Cons y ys)
  show ?case using Cons [of "add y xs"] add_set [of y xs] by auto
qed simp

lemma add_distinct:
  assumes "\<And>x xs. \<not> skip x xs \<Longrightarrow> f x \<notin> f ` set xs" "distinct (map f xs)"
  shows "distinct (map f (add x xs))"
proof (cases "skip x xs")
  case True
  then show ?thesis using assms(2) by (simp add: add_skip)
next
  case False
  have new: "f x \<notin> f ` set xs" using assms(1) [OF False] .
  have tl: "distinct (map f (tl xs))" "f x \<notin> f ` set (tl xs)"
    using assms(2) new by (cases xs; simp)+
  show ?thesis
    using new tl assms(2) add_room [OF False] add_full [OF False]
    by (cases "length xs < cap") simp_all
qed

lemma fold_distinct:
  assumes "\<And>x xs. \<not> skip x xs \<Longrightarrow> f x \<notin> f ` set xs"
  shows "distinct (map f xs) \<Longrightarrow> distinct (map f (fold add ys xs))"
  by (induction ys arbitrary: xs) (simp_all add: add_distinct [OF assms])

lemma add_last:
  assumes "\<not> skip x (drop (length ys - cap) ys)"
  shows "add x (drop (length ys - cap) ys) = drop (length (ys @ [x]) - cap) (ys @ [x])"
proof (cases "length ys < cap")
  case True
  then show ?thesis using assms add_room by simp
next
  case False
  then have "add x (drop (length ys - cap) ys) = tl (drop (length ys - cap) ys) @ [x]"
    using assms by (intro add_full) auto
  also have "tl (drop (length ys - cap) ys) = drop (Suc (length ys - cap)) ys"
    by (simp add: drop_Suc tl_drop)
  finally show ?thesis using False cap_pos by (simp add: Suc_diff_le)
qed

text \<open>Without skipping, the queue is the last \<open>cap\<close> elements.\<close>

lemma fold_last:
  assumes "\<And>x xs. \<not> skip x xs"
  shows "fold add ys [] = drop (length ys - cap) ys"
  using assms add_last by (induction ys rule: rev_induct) auto

end

section \<open>The peer book\<close>

definition PEER_BOOK_CAP :: nat where
  "PEER_BOOK_CAP = 200"

definition remember_enr :: "('e \<Rightarrow> 'n) \<Rightarrow> 'e \<Rightarrow> 'e list \<Rightarrow> 'e list" where
  "remember_enr node_id e book =
     (if \<exists>x \<in> set book. node_id x = node_id e then book
      else (if length book \<ge> PEER_BOOK_CAP then tl book else book) @ [e])"

interpretation peer_book: bounded_queue
  "\<lambda>e book. \<exists>x \<in> set book. node_id x = node_id e" "remember_enr node_id" PEER_BOOK_CAP for node_id
  by unfold_locales (simp_all add: remember_enr_def PEER_BOOK_CAP_def)

lemma peer_book_wf:
  "length (fold (remember_enr node_id) es []) \<le> 200
   \<and> distinct (map node_id (fold (remember_enr node_id) es []))
   \<and> set (fold (remember_enr node_id) es []) \<subseteq> set es"
proof -
  have "distinct (map node_id (fold (remember_enr node_id) es []))"
    by (rule peer_book.fold_distinct) (auto simp: image_iff)
  then show ?thesis
    using peer_book.fold_length [of "[]" node_id es] peer_book.fold_set [of node_id es "[]"]
    by (simp add: PEER_BOOK_CAP_def)
qed

end
