(* ===== verification/Node_Runtime.thy ===== *)
theory Node_Runtime
  imports Node_Metrics Filter_Registry Store_Query Waku_Lightpush Waku_Peer_Exchange Waku_Metadata
    Relay_Validation Rate_Limit Node_Connections Peer_Book
begin

text \<open>
  The swarm driver of \<open>crates/waku-node/src/runtime.rs\<close>: \<open>handle_event\<close>, \<open>handle_command\<close> and the
  loop \<open>run\<close>. The state is what \<open>run\<close> owns and shares. libp2p is not modelled: what the driver asks of
  the swarm, of the event channel and of the reply channels is the list of effects a handler
  returns, in order, and what it learns from them (the events, the result of publishing, fresh
  request ids, the clocks) is in the events and in the environment. Reply channels and response
  channels are numbers. A handler returns \<open>False\<close> when the event channel is closed, which ends the loop.
\<close>

section \<open>State, environment and effects\<close>

datatype 'p Event =
  Listening Multiaddr
| PeerConnected 'p
| PeerDisconnected 'p
| MetadataMismatch 'p "u32 option"
| MessageReceived ShardId WakuMessage MessageHash 'p
| FilterMessage "string option" WakuMessage

datatype Reply =
  ReplyUnit "(string, unit) result"
| ReplyHash "(string, MessageHash) result"
| ReplyStore "(string, StoreQueryResponse) result"
| ReplyLightpush "(string, LightpushResponse) result"
| ReplyPx "(string, PeerExchangeRpc) result"
| ReplyFilter "(string, FilterSubscribeResponse) result"

datatype 'p Effect =
  Emit "'p Event"
| Reply nat Reply
| DisconnectPeer 'p
| Dial Multiaddr
| GossipSubscribe string
| GossipPublish string bytes
| ReportValidation bytes 'p MessageAcceptance
| SpawnPut string WakuMessage i64
| SendMetadata 'p WakuMetadata
| SendStore 'p StoreQueryRequest
| SendLightpush 'p LightpushRequest
| SendPx 'p PeerExchangeRpc
| SendFilter 'p FilterSubscribeRequest
| SendPush 'p MessagePush
| RespondMetadata nat WakuMetadata
| RespondStore nat StoreQueryResponse
| RespondLightpush nat LightpushResponse
| RespondPx nat PeerExchangeRpc
| RespondFilter nat FilterSubscribeResponse
| RespondPush nat FilterPushResponse

record Pending =
  pend_store :: "nat \<rightharpoonup> nat"
  pend_lightpush :: "nat \<rightharpoonup> nat"
  pend_px :: "nat \<rightharpoonup> nat"
  pend_filter :: "nat \<rightharpoonup> nat"

record ('p, 'e) NodeState =
  pending :: Pending
  filters :: "'p FilterRegistry"
  limits :: "'p RateLimiters"
  ip_table :: ip_counts
  connected :: "'p set"
  listen_addrs :: "Multiaddr list"
  counters :: Metrics
  known_enrs :: "'e list"

record 'e NodeEnv =
  local_cluster :: u32
  local_meta :: WakuMetadata
  node_store :: "(StoreQuery \<Rightarrow> (StoreError, QueryResult) result) option"
  ip_limit :: nat
  evt_open :: bool
  now_instant :: nat
  now_nanos :: i64
  rx_nanos :: i64
  f64_rnd :: "rat \<Rightarrow> rat"
  digest :: "bytes \<Rightarrow> bytes"
  decode_message :: "bytes \<Rightarrow> (string, WakuMessage) result"
  encode_message :: "WakuMessage \<Rightarrow> bytes"
  gossip_subscribe :: "string \<Rightarrow> (string, bool) result"
  gossip_publish :: "string \<Rightarrow> bytes \<Rightarrow> (string, bytes) result"
  mesh_peers :: "string \<Rightarrow> nat"
  swarm_dial :: "Multiaddr \<Rightarrow> (string, unit) result"
  fresh_id :: nat
  enr_to_bytes :: "'e \<Rightarrow> bytes"

definition NodeState_init :: "(rat \<Rightarrow> rat) \<Rightarrow> ('p, 'e) NodeState" where
  "NodeState_init rnd =
     \<lparr>pending = \<lparr>pend_store = Map.empty, pend_lightpush = Map.empty, pend_px = Map.empty,
        pend_filter = Map.empty\<rparr>,
      filters = [], limits = RateLimiters_default rnd, ip_table = Map.empty, connected = {},
      listen_addrs = [], counters = Metrics_new, known_enrs = []\<rparr>"

type_synonym ('p, 'e) outcome = "bool \<times> ('p, 'e) NodeState \<times> 'p Effect list"

text \<open>\<open>evt_tx.send(ev).await.map_err(|_| ())?\<close> after the given effects.\<close>

definition emit :: "'e NodeEnv \<Rightarrow> 'p Event \<Rightarrow> ('p, 'e) NodeState \<Rightarrow> 'p Effect list \<Rightarrow> ('p, 'e) outcome" where
  "emit env ev st fx = (if evt_open env then (True, st, fx @ [Emit ev]) else (False, st, fx))"

section \<open>The handlers of handle_event\<close>

definition on_new_listen_addr :: "'e NodeEnv \<Rightarrow> Multiaddr \<Rightarrow> ('p, 'e) NodeState \<Rightarrow> ('p, 'e) outcome" where
  "on_new_listen_addr env addr st =
     emit env (Listening addr) (st\<lparr>listen_addrs := listen_addrs st @ [addr]\<rparr>) []"

definition on_connection_established ::
  "'e NodeEnv \<Rightarrow> 'p \<Rightarrow> Multiaddr \<Rightarrow> ('p, 'e) NodeState \<Rightarrow> ('p, 'e) outcome" where
  "on_connection_established env p addr st =
     (case ip_established (ip_limit env) (multiaddr_ip addr) (ip_table st) of
        (kept, t) \<Rightarrow>
          if \<not> kept then (True, st\<lparr>ip_table := t\<rparr>, [DisconnectPeer p])
          else emit env (PeerConnected p)
                 (st\<lparr>ip_table := t, connected := insert p (connected st)\<rparr>)
                 [SendMetadata p (local_meta env)])"

definition on_connection_closed ::
  "'e NodeEnv \<Rightarrow> 'p \<Rightarrow> Multiaddr \<Rightarrow> ('p, 'e) NodeState \<Rightarrow> ('p, 'e) outcome" where
  "on_connection_closed env p addr st =
     emit env (PeerDisconnected p)
       (st\<lparr>ip_table := ip_closed (multiaddr_ip addr) (ip_table st), connected := connected st - {p}\<rparr>) []"

text \<open>\<open>since_epoch\<close> is what \<open>duration_since(UNIX_EPOCH)\<close> returns in nanoseconds, \<open>None\<close> for a clock set before 1970.\<close>

definition now_unix_nanos :: "nat option \<Rightarrow> i64" where
  "now_unix_nanos since_epoch = unwrap_or (map_option word_of_nat since_epoch) 0"

definition timestamp_gap :: "i64 \<Rightarrow> i64 \<Rightarrow> i64" where
  "timestamp_gap now_ns ts = i64_div (now_ns - ts) 1000000000"

definition relay_verdict :: "i64 \<Rightarrow> WakuMessage \<Rightarrow> Validation" where
  "relay_verdict now_ns decoded =
     validate \<lparr>timestamp_gap_secs = map_option (timestamp_gap now_ns) (WakuMessage.timestamp decoded),
               rln = Absent, shard_saturated = False\<rparr> ValidationPolicy_default"

definition try_decode :: "'e NodeEnv \<Rightarrow> bytes \<Rightarrow> WakuMessage option" where
  "try_decode env b = result_ok (decode_message env b)"

declare try_decode_def [simp]

definition on_relay_message ::
  "'e NodeEnv \<Rightarrow> 'p \<Rightarrow> bytes \<Rightarrow> GossipMessage \<Rightarrow> ('p, 'e) NodeState \<Rightarrow> ('p, 'e) outcome" where
  "on_relay_message env src mid gm st =
     (case (ShardId_parse (topic gm), try_decode env (data gm)) of
        (Ok sid, Some decoded) \<Rightarrow>
          let verdict = relay_verdict (now_nanos env) decoded;
              report = [ReportValidation mid src (Validation_into verdict)]
          in if verdict = Accept then
               let puts = (if node_store env \<noteq> None \<and> WakuMessage.ephemeral decoded \<noteq> Some True
                           then [SpawnPut (topic gm) decoded (rx_nanos env)] else []);
                   (pushes, n) = push_filter_matches (filters st) (topic gm) decoded;
                   st' = st\<lparr>counters := Metrics_filter_pushes_add (word_of_nat n)
                                            (Metrics_relay_message (counters st))\<rparr>;
                   mid' = (if length mid = 32 then mid
                           else deterministic_hash (digest env) (topic gm) decoded)
               in case emit env (MessageReceived sid decoded mid' src) st'
                         (puts @ map (\<lambda>(p, m). SendPush p m) pushes) of
                    (ok, st'', fx) \<Rightarrow> (ok, st'', if ok then fx @ report else fx)
             else (True, st, report)
      | _ \<Rightarrow> (True, st, [ReportValidation mid src (Validation_into Reject)]))"

text \<open>\<open>handle_metadata\<close>, and the event it may return.\<close>

definition handle_metadata_request :: "'e NodeEnv \<Rightarrow> nat \<Rightarrow> ('p, 'e) NodeState \<Rightarrow> ('p, 'e) outcome" where
  "handle_metadata_request env ch st = (True, st, [RespondMetadata ch (local_meta env)])"

definition handle_metadata_response ::
  "'e NodeEnv \<Rightarrow> 'p \<Rightarrow> WakuMetadata \<Rightarrow> ('p, 'e) NodeState \<Rightarrow> ('p, 'e) outcome" where
  "handle_metadata_response env p resp st =
     (case WakuMetadata.cluster_id resp of
        Some theirs \<Rightarrow>
          if theirs \<noteq> local_cluster env
          then emit env (MetadataMismatch p (Some theirs)) st [DisconnectPeer p]
          else (True, st, [])
      | None \<Rightarrow> (True, st, []))"

definition store_error_response :: "string \<Rightarrow> u32 \<Rightarrow> string \<Rightarrow> StoreQueryResponse" where
  "store_error_response rid code desc =
     \<lparr>StoreQueryResponse.request_id = rid, status_code = Some code, status_desc = Some desc,
      messages = [], pagination_cursor = None\<rparr>"

definition on_store_request ::
  "'e NodeEnv \<Rightarrow> 'p \<Rightarrow> nat \<Rightarrow> StoreQueryRequest \<Rightarrow> ('p, 'e) NodeState \<Rightarrow> ('p, 'e) outcome" where
  "on_store_request env p ch req st =
     (case allow (f64_rnd env) p (now_instant env) (RateLimiters.store (limits st)) of
        (ok, l) \<Rightarrow>
          let st' = st\<lparr>limits := (limits st)\<lparr>RateLimiters.store := l\<rparr>\<rparr>;
              rid = StoreQueryRequest.request_id req
          in if \<not> ok then
               (True, st'\<lparr>counters := Metrics_rate_limited (counters st)\<rparr>,
                [RespondStore ch (store_error_response rid 429 ''rate limited'')])
             else
               (True, st'\<lparr>counters := Metrics_store_query (counters st)\<rparr>,
                [RespondStore ch
                   (case node_store env of
                      Some f \<Rightarrow> serve f req
                    | None \<Rightarrow> store_error_response rid 503 ''store not enabled'')]))"

text \<open>The \<open>remove\<close> of a pending request and the reply on its channel.\<close>

definition resolve :: "(nat \<rightharpoonup> nat) \<Rightarrow> nat \<Rightarrow> Reply \<Rightarrow> (nat \<rightharpoonup> nat) \<times> 'p Effect list" where
  "resolve m rid r = (m(rid := None), case m rid of Some ch \<Rightarrow> [Reply ch r] | None \<Rightarrow> [])"

definition on_store_resolved ::
  "nat \<Rightarrow> (string, StoreQueryResponse) result \<Rightarrow> ('p, 'e) NodeState \<Rightarrow> ('p, 'e) outcome" where
  "on_store_resolved rid r st =
     (case resolve (pend_store (pending st)) rid (ReplyStore r) of
        (m, fx) \<Rightarrow> (True, st\<lparr>pending := (pending st)\<lparr>pend_store := m\<rparr>\<rparr>, fx))"

definition serve_lightpush :: "'e NodeEnv \<Rightarrow> LightpushRequest \<Rightarrow> LightpushResponse \<times> 'p Effect list" where
  "serve_lightpush env req =
     (let rid = LightpushRequest.request_id req; tp = LightpushRequest.pubsub_topic req
      in case LightpushRequest.message req of
           None \<Rightarrow> (LightpushResponse_error rid 400 ''missing message'', [])
         | Some m \<Rightarrow>
             let d = encode_message env m
             in (case gossip_publish env tp d of
                   Ok _ \<Rightarrow> LightpushResponse_ok rid (word_of_nat (mesh_peers env tp))
                 | Err e \<Rightarrow> LightpushResponse_error rid 503 e,
                 [GossipPublish tp d]))"

definition on_lightpush_request ::
  "'e NodeEnv \<Rightarrow> 'p \<Rightarrow> nat \<Rightarrow> LightpushRequest \<Rightarrow> ('p, 'e) NodeState \<Rightarrow> ('p, 'e) outcome" where
  "on_lightpush_request env p ch req st =
     (case allow (f64_rnd env) p (now_instant env) (RateLimiters.lightpush (limits st)) of
        (ok, l) \<Rightarrow>
          let st' = st\<lparr>limits := (limits st)\<lparr>RateLimiters.lightpush := l\<rparr>\<rparr>
          in if \<not> ok then
               (True, st'\<lparr>counters := Metrics_rate_limited (counters st)\<rparr>,
                [RespondLightpush ch
                   (LightpushResponse_error (LightpushRequest.request_id req) 429 ''rate limited'')])
             else
               (case serve_lightpush env req of
                  (resp, fx) \<Rightarrow>
                    (True, st'\<lparr>counters := Metrics_lightpush_request (counters st)\<rparr>,
                     fx @ [RespondLightpush ch resp])))"

definition on_lightpush_resolved ::
  "nat \<Rightarrow> (string, LightpushResponse) result \<Rightarrow> ('p, 'e) NodeState \<Rightarrow> ('p, 'e) outcome" where
  "on_lightpush_resolved rid r st =
     (case resolve (pend_lightpush (pending st)) rid (ReplyLightpush r) of
        (m, fx) \<Rightarrow> (True, st\<lparr>pending := (pending st)\<lparr>pend_lightpush := m\<rparr>\<rparr>, fx))"

definition on_px_request :: "'e NodeEnv \<Rightarrow> nat \<Rightarrow> PeerExchangeRpc \<Rightarrow> ('p, 'e) NodeState \<Rightarrow> ('p, 'e) outcome" where
  "on_px_request env ch req st =
     (let num = unat (unwrap_or (requested req) 0)
      in (True, st,
          [RespondPx ch (PeerExchangeRpc_response (map (enr_to_bytes env) (take num (known_enrs st))))]))"

definition on_px_resolved ::
  "nat \<Rightarrow> (string, PeerExchangeRpc) result \<Rightarrow> ('p, 'e) NodeState \<Rightarrow> ('p, 'e) outcome" where
  "on_px_resolved rid r st =
     (case resolve (pend_px (pending st)) rid (ReplyPx r) of
        (m, fx) \<Rightarrow> (True, st\<lparr>pending := (pending st)\<lparr>pend_px := m\<rparr>\<rparr>, fx))"

definition on_filter_request ::
  "'p \<Rightarrow> nat \<Rightarrow> FilterSubscribeRequest \<Rightarrow> ('p, 'e) NodeState \<Rightarrow> ('p, 'e) outcome" where
  "on_filter_request p ch req st =
     (case apply_filter_request p req (filters st) of
        (resp, f) \<Rightarrow> (True, st\<lparr>filters := f\<rparr>, [RespondFilter ch resp]))"

definition on_filter_resolved ::
  "nat \<Rightarrow> (string, FilterSubscribeResponse) result \<Rightarrow> ('p, 'e) NodeState \<Rightarrow> ('p, 'e) outcome" where
  "on_filter_resolved rid r st =
     (case resolve (pend_filter (pending st)) rid (ReplyFilter r) of
        (m, fx) \<Rightarrow> (True, st\<lparr>pending := (pending st)\<lparr>pend_filter := m\<rparr>\<rparr>, fx))"

definition on_filter_push ::
  "'e NodeEnv \<Rightarrow> nat \<Rightarrow> MessagePush \<Rightarrow> ('p, 'e) NodeState \<Rightarrow> ('p, 'e) outcome" where
  "on_filter_push env ch req st =
     (case (case waku_message req of
              Some m \<Rightarrow> emit env (FilterMessage (MessagePush.pubsub_topic req) m) st []
            | None \<Rightarrow> (True, st, [])) of
        (ok, st', fx) \<Rightarrow>
          (ok, st', if ok then fx @ [RespondPush ch \<lparr>FilterPushResponse.status_code = 200\<rparr>] else fx))"

section \<open>handle_event, handle_command and run\<close>

text \<open>The events of the swarm that \<open>handle_event\<close> distinguishes; everything else is \<open>OtherEvent\<close>.\<close>

datatype 'p SwarmEvent =
  NewListenAddr Multiaddr
| ConnectionEstablished 'p Multiaddr
| ConnectionClosed 'p Multiaddr
| RelayMessage 'p bytes GossipMessage
| MetadataRequest 'p nat WakuMetadata
| MetadataResponse 'p WakuMetadata
| StoreRequest 'p nat StoreQueryRequest
| StoreResponse nat StoreQueryResponse
| StoreFailure nat string
| LightpushReq 'p nat LightpushRequest
| LightpushResp nat LightpushResponse
| LightpushFailure nat string
| PxRequest 'p nat PeerExchangeRpc
| PxResponse nat PeerExchangeRpc
| PxFailure nat string
| FilterRequest 'p nat FilterSubscribeRequest
| FilterResponse nat FilterSubscribeResponse
| FilterFailure nat string
| FilterPushRequest 'p nat MessagePush
| OtherEvent

definition handle_event :: "'e NodeEnv \<Rightarrow> 'p SwarmEvent \<Rightarrow> ('p, 'e) NodeState \<Rightarrow> ('p, 'e) outcome" where
  "handle_event env ev st =
     (case ev of
        NewListenAddr a \<Rightarrow> on_new_listen_addr env a st
      | ConnectionEstablished p a \<Rightarrow> on_connection_established env p a st
      | ConnectionClosed p a \<Rightarrow> on_connection_closed env p a st
      | RelayMessage src mid gm \<Rightarrow> on_relay_message env src mid gm st
      | MetadataRequest p ch _ \<Rightarrow> handle_metadata_request env ch st
      | MetadataResponse p resp \<Rightarrow> handle_metadata_response env p resp st
      | StoreRequest p ch req \<Rightarrow> on_store_request env p ch req st
      | StoreResponse rid resp \<Rightarrow> on_store_resolved rid (Ok resp) st
      | StoreFailure rid e \<Rightarrow> on_store_resolved rid (Err e) st
      | LightpushReq p ch req \<Rightarrow> on_lightpush_request env p ch req st
      | LightpushResp rid resp \<Rightarrow> on_lightpush_resolved rid (Ok resp) st
      | LightpushFailure rid e \<Rightarrow> on_lightpush_resolved rid (Err e) st
      | PxRequest p ch req \<Rightarrow> on_px_request env ch req st
      | PxResponse rid resp \<Rightarrow> on_px_resolved rid (Ok resp) st
      | PxFailure rid e \<Rightarrow> on_px_resolved rid (Err e) st
      | FilterRequest p ch req \<Rightarrow> on_filter_request p ch req st
      | FilterResponse rid resp \<Rightarrow> on_filter_resolved rid (Ok resp) st
      | FilterFailure rid e \<Rightarrow> on_filter_resolved rid (Err e) st
      | FilterPushRequest p ch req \<Rightarrow> on_filter_push env ch req st
      | OtherEvent \<Rightarrow> (True, st, []))"

text \<open>The commands; the last argument of each is its reply channel.\<close>

datatype 'p Command =
  CmdSubscribe ShardId nat
| CmdPublish ShardId WakuMessage nat
| CmdDial Multiaddr nat
| CmdStoreQuery 'p StoreQueryRequest nat
| CmdLightPush 'p LightpushRequest nat
| CmdPeerExchange 'p u64 nat
| CmdFilterSubscribe 'p FilterSubscribeRequest nat
| CmdShutdown

definition publish_reply :: "(string, bytes) result \<Rightarrow> (string, MessageHash) result" where
  "publish_reply r =
     bind_result r (\<lambda>mid.
       if length mid = 32 then Ok mid else Err ''gossipsub returned a non-32-byte message id'')"

definition handle_command ::
  "'e NodeEnv \<Rightarrow> 'p Command \<Rightarrow> ('p, 'e) NodeState \<Rightarrow> ('p, 'e) NodeState \<times> 'p Effect list" where
  "handle_command env cmd st =
     (let pd = pending st; i = fresh_id env
      in case cmd of
           CmdSubscribe sid ch \<Rightarrow>
             let tp = shard_topic sid
             in (st, [GossipSubscribe tp,
                      Reply ch (ReplyUnit (bind_result (gossip_subscribe env tp) (\<lambda>_. Ok ())))])
         | CmdPublish sid m ch \<Rightarrow>
             let tp = shard_topic sid; d = encode_message env m
             in (st, [GossipPublish tp d, Reply ch (ReplyHash (publish_reply (gossip_publish env tp d)))])
         | CmdDial addr ch \<Rightarrow> (st, [Dial addr, Reply ch (ReplyUnit (swarm_dial env addr))])
         | CmdStoreQuery p req ch \<Rightarrow>
             (st\<lparr>pending := pd\<lparr>pend_store := (pend_store pd)(i \<mapsto> ch)\<rparr>\<rparr>, [SendStore p req])
         | CmdLightPush p req ch \<Rightarrow>
             (st\<lparr>pending := pd\<lparr>pend_lightpush := (pend_lightpush pd)(i \<mapsto> ch)\<rparr>\<rparr>, [SendLightpush p req])
         | CmdPeerExchange p n ch \<Rightarrow>
             (st\<lparr>pending := pd\<lparr>pend_px := (pend_px pd)(i \<mapsto> ch)\<rparr>\<rparr>, [SendPx p (PeerExchangeRpc_query n)])
         | CmdFilterSubscribe p req ch \<Rightarrow>
             (st\<lparr>pending := pd\<lparr>pend_filter := (pend_filter pd)(i \<mapsto> ch)\<rparr>\<rparr>, [SendFilter p req])
         | CmdShutdown \<Rightarrow> (st, []))"

text \<open>
  What the \<open>select!\<close> of the loop received: a command, the end of the command channel, or an event.
\<close>

datatype 'p Input = Cmd "'p Command" | CmdClosed | Ev "'p SwarmEvent"

definition run_step :: "'e NodeEnv \<Rightarrow> 'p Input \<Rightarrow> ('p, 'e) NodeState \<Rightarrow> ('p, 'e) outcome" where
  "run_step env inp st =
     (case inp of
        CmdClosed \<Rightarrow> (False, st, [])
      | Cmd CmdShutdown \<Rightarrow> (False, st, [])
      | Cmd cmd \<Rightarrow> (case handle_command env cmd st of (st', fx) \<Rightarrow> (True, st', fx))
      | Ev ev \<Rightarrow> handle_event env ev st)"

fun run :: "('e NodeEnv \<times> 'p Input) list \<Rightarrow> ('p, 'e) NodeState \<Rightarrow> ('p, 'e) NodeState \<times> 'p Effect list" where
  "run [] st = (st, [])"
| "run ((env, inp) # is) st =
     (case run_step env inp st of
        (ok, st', fx) \<Rightarrow>
          if ok then (case run is st' of (st'', fx') \<Rightarrow> (st'', fx @ fx')) else (st', fx))"

section \<open>Clients of the driver\<close>

datatype NodeError = NE_Build string | NE_Listen string | NodeStopped | NE_Command string

text \<open>
  Each method of \<open>NodeHandle\<close> makes a reply channel \<open>ch\<close>, sends one command and waits for its reply. A
  method here gives the command and its result: \<open>sent\<close> is whether the driver still takes commands, and
  \<open>rx\<close> what arrives on the channel, \<open>None\<close> when it is closed unanswered.
\<close>

definition await_reply :: "bool \<Rightarrow> (string, 'a) result option \<Rightarrow> (NodeError, 'a) result" where
  "await_reply sent rx =
     (if \<not> sent then Err NodeStopped
      else case rx of None \<Rightarrow> Err NodeStopped | Some r \<Rightarrow> map_err NE_Command r)"

definition NodeHandle_subscribe ::
  "ShardId \<Rightarrow> nat \<Rightarrow> bool \<Rightarrow> (string, unit) result option \<Rightarrow> 'p Command \<times> (NodeError, unit) result" where
  "NodeHandle_subscribe sid ch sent rx = (CmdSubscribe sid ch, await_reply sent rx)"

definition NodeHandle_publish ::
  "ShardId \<Rightarrow> WakuMessage \<Rightarrow> nat \<Rightarrow> bool \<Rightarrow> (string, MessageHash) result option
     \<Rightarrow> 'p Command \<times> (NodeError, MessageHash) result" where
  "NodeHandle_publish sid m ch sent rx = (CmdPublish sid m ch, await_reply sent rx)"

definition NodeHandle_dial ::
  "Multiaddr \<Rightarrow> nat \<Rightarrow> bool \<Rightarrow> (string, unit) result option \<Rightarrow> 'p Command \<times> (NodeError, unit) result" where
  "NodeHandle_dial addr ch sent rx = (CmdDial addr ch, await_reply sent rx)"

definition NodeHandle_store_query ::
  "'p \<Rightarrow> StoreQueryRequest \<Rightarrow> nat \<Rightarrow> bool \<Rightarrow> (string, StoreQueryResponse) result option
     \<Rightarrow> 'p Command \<times> (NodeError, StoreQueryResponse) result" where
  "NodeHandle_store_query p req ch sent rx = (CmdStoreQuery p req ch, await_reply sent rx)"

definition NodeHandle_light_push ::
  "'p \<Rightarrow> string \<Rightarrow> WakuMessage \<Rightarrow> nat \<Rightarrow> bool \<Rightarrow> (string, LightpushResponse) result option
     \<Rightarrow> 'p Command \<times> (NodeError, LightpushResponse) result" where
  "NodeHandle_light_push p tp m ch sent rx =
     (CmdLightPush p \<lparr>LightpushRequest.request_id = [], pubsub_topic = tp, message = Some m\<rparr> ch,
      await_reply sent rx)"

definition NodeHandle_peer_exchange ::
  "(bytes \<Rightarrow> 'e option) \<Rightarrow> 'p \<Rightarrow> u64 \<Rightarrow> nat \<Rightarrow> bool \<Rightarrow> (string, PeerExchangeRpc) result option
     \<Rightarrow> 'p Command \<times> (NodeError, 'e list) result" where
  "NodeHandle_peer_exchange enr_from_bytes p n ch sent rx =
     (CmdPeerExchange p n ch,
      bind_result (await_reply sent rx) (\<lambda>rpc. Ok (List.map_filter enr_from_bytes (enrs rpc))))"

definition NodeHandle_filter_request ::
  "'p \<Rightarrow> i32 \<Rightarrow> string option \<Rightarrow> string list \<Rightarrow> nat \<Rightarrow> bool \<Rightarrow> (string, FilterSubscribeResponse) result option
     \<Rightarrow> 'p Command \<times> (NodeError, FilterSubscribeResponse) result" where
  "NodeHandle_filter_request p kind tp cts ch sent rx =
     (CmdFilterSubscribe p
        \<lparr>FilterSubscribeRequest.request_id = [], filter_subscribe_type = kind, pubsub_topic = tp,
         content_topics = cts\<rparr> ch,
      await_reply sent rx)"

definition NodeHandle_filter_subscribe ::
  "'p \<Rightarrow> string \<Rightarrow> string list \<Rightarrow> nat \<Rightarrow> bool \<Rightarrow> (string, FilterSubscribeResponse) result option
     \<Rightarrow> 'p Command \<times> (NodeError, FilterSubscribeResponse) result" where
  "NodeHandle_filter_subscribe p tp cts = NodeHandle_filter_request p SUBSCRIBE (Some tp) cts"

definition NodeHandle_filter_unsubscribe ::
  "'p \<Rightarrow> string \<Rightarrow> string list \<Rightarrow> nat \<Rightarrow> bool \<Rightarrow> (string, FilterSubscribeResponse) result option
     \<Rightarrow> 'p Command \<times> (NodeError, FilterSubscribeResponse) result" where
  "NodeHandle_filter_unsubscribe p tp cts = NodeHandle_filter_request p UNSUBSCRIBE (Some tp) cts"

definition NodeHandle_listen_addresses :: "('p \<Rightarrow> Protocol) \<Rightarrow> 'p \<Rightarrow> ('p, 'e) NodeState \<Rightarrow> Multiaddr list" where
  "NodeHandle_listen_addresses p2p me st = map (\<lambda>a. a @ [p2p me]) (listen_addrs st)"

section \<open>A concrete environment\<close>

definition ex_env :: "nat NodeEnv" where
  "ex_env =
     \<lparr>local_cluster = 1, local_meta = \<lparr>WakuMetadata.cluster_id = Some 1, shards = [0]\<rparr>,
      node_store = Some (\<lambda>q. SqliteStore_query (\<lambda>_. None) q ex_table), ip_limit = 0, evt_open = True,
      now_instant = 0, now_nanos = 100000000000, rx_nanos = 100000000001, f64_rnd = unrounded,
      digest = ex_digest,
      decode_message = (\<lambda>b. if b = [1] then Ok (ex_message 1) else Err ''bad''),
      encode_message = (\<lambda>_. [1]), gossip_subscribe = (\<lambda>_. Ok True),
      gossip_publish = (\<lambda>_ d. Ok d), mesh_peers = (\<lambda>_. 3), swarm_dial = (\<lambda>_. Ok ()), fresh_id = 0,
      enr_to_bytes = (\<lambda>_. [])\<rparr>"

end
