(* ===== verification/Node_Relay.thy ===== *)
theory Node_Relay
  imports Node_Runtime
begin

text \<open>
  What the driver does with relay messages, with the clock arithmetic of
  \<open>(now_unix_nanos() - ts) / 1_000_000_000\<close> at its width, and what a closed connection does to the set
  of connected peers.
\<close>

section \<open>The timestamp window\<close>

lemma sint_minus_cases:
  fixes a b :: i64
  assumes "0 \<le> sint a"
  shows "sint (a - b) = sint a - sint b \<and> sint a - sint b < 2 ^ 63
    \<or> sint (a - b) = sint a - sint b - 2 ^ 64 \<and> 2 ^ 63 \<le> sint a - sint b"
proof -
  define d where "d = sint a - sint b"
  define h where "h = (2 :: int) ^ 63"
  have w: "a - b = word_of_int d" by (simp add: d_def)
  have b: "- h \<le> sint b" "sint b < h" "sint a < h"
    using sint_i64_range [of a] sint_i64_range [of b] unfolding h_def by blast+
  have h2: "(2 :: int) ^ 64 = 2 * h" by (simp add: h_def)
  note r = sint_word_of_int_i64 [folded h_def]
  have "sint (a - b) = d \<and> d < h \<or> sint (a - b) = d - 2 * h \<and> h \<le> d"
  proof (cases "d < h")
    case True
    then have "sint (word_of_int d :: i64) = d"
      using assms b by (intro r) (simp_all add: d_def)
    with True show ?thesis unfolding w by blast
  next
    case False
    have "(word_of_int (2 * h) :: i64) = 0" by (simp add: h_def)
    then have "(word_of_int d :: i64) = word_of_int (d - 2 * h)"
      by (simp only: wi_hom_sub [symmetric] diff_zero)
    moreover have "sint (word_of_int (d - 2 * h) :: i64) = d - 2 * h"
      using assms b False by (intro r) (simp_all add: d_def)
    ultimately show ?thesis using False unfolding w by simp
  qed
  then show ?thesis unfolding h2 d_def [symmetric] h_def [symmetric] .
qed

lemma abs_timestamp_gap: "\<bar>sint (timestamp_gap n ts)\<bar> = \<bar>sint (n - ts)\<bar> div 1000000000"
proof -
  define w where "w = sint (n - ts)"
  define h where "h = (2 :: int) ^ 63"
  define q where "q = \<bar>w\<bar> div 1000000000"
  have r: "\<bar>w\<bar> \<le> h" using sint_i64_range [of "n - ts"] unfolding h_def [symmetric] w_def by linarith
  have h: "0 < h" by (simp add: h_def)
  have q: "0 \<le> q" "q < h" using r h unfolding q_def by linarith+
  have "sint (word_of_int (sgn w * q) :: i64) = sgn w * q"
    using q by (intro sint_word_of_int_i64 [folded h_def]) (auto simp: sgn_if)
  moreover have "sint (1000000000 :: i64) = 1000000000" by simp
  ultimately have "sint (timestamp_gap n ts) = sgn w * q"
    unfolding timestamp_gap_def i64_div_def w_def q_def by simp
  moreover have "w = 0 \<Longrightarrow> q = 0" by (simp add: q_def)
  ultimately show ?thesis using q unfolding w_def [symmetric] q_def [symmetric] by (auto simp: sgn_if)
qed

text \<open>The clock reads below \<open>2 ^ 63 - 21 \<cdot> 10 ^ 9\<close> nanoseconds until the year 2262.\<close>

definition clock_ok :: "i64 \<Rightarrow> bool" where
  "clock_ok n \<longleftrightarrow> 0 \<le> sint n \<and> sint n < 2 ^ 63 - 21000000000"

lemma clock_ok_now:
  assumes "\<forall>d. since_epoch = Some d \<longrightarrow> d < 2 ^ 63 - 21000000000"
  shows "clock_ok (now_unix_nanos since_epoch)"
proof (cases since_epoch)
  case (Some d)
  then have d: "int d < 2 ^ 63 - 21000000000" using assms by auto
  have "sint (word_of_int (int d) :: i64) = int d"
    using d by (intro sint_word_of_int_i64) auto
  with Some d show ?thesis by (simp add: clock_ok_def now_unix_nanos_def)
qed (simp add: clock_ok_def now_unix_nanos_def)

lemma gap_in_window:
  assumes "clock_ok n"
  shows "\<bar>sint (timestamp_gap n ts)\<bar> > 20 \<longleftrightarrow> 21000000000 \<le> \<bar>sint n - sint ts\<bar>"
proof -
  define h where "h = (2 :: int) ^ 63"
  have n: "0 \<le> sint n" "sint n < h - 21000000000" using assms unfolding clock_ok_def h_def by auto
  have h2: "(2 :: int) ^ 64 = 2 * h" by (simp add: h_def)
  have "\<bar>sint (timestamp_gap n ts)\<bar> > 20 \<longleftrightarrow> 21000000000 \<le> \<bar>sint (n - ts)\<bar>"
    unfolding abs_timestamp_gap by linarith
  then show ?thesis
    using sint_minus_cases [OF n(1), of ts, unfolded h2, folded h_def] n(2)
      sint_i64_range(1) [of ts, folded h_def] by linarith
qed

lemma gap_not_min: "timestamp_gap n ts \<noteq> i64_min"
proof
  assume a: "timestamp_gap n ts = i64_min"
  define h where "h = (2 :: int) ^ 63"
  have "0 < h" by (simp add: h_def)
  moreover have "\<bar>sint (n - ts)\<bar> div 1000000000 = h"
    unfolding h_def by (simp add: abs_timestamp_gap [symmetric] a sint_i64_min)
  ultimately show False using sint_i64_range [of "n - ts", folded h_def] by linarith
qed

definition fresh_message :: "i64 \<Rightarrow> WakuMessage \<Rightarrow> bool" where
  "fresh_message n m \<longleftrightarrow>
     (case WakuMessage.timestamp m of None \<Rightarrow> True | Some ts \<Rightarrow> \<bar>sint n - sint ts\<bar> < 21000000000)"

lemma relay_verdict_eq:
  "clock_ok n \<Longrightarrow> relay_verdict n m = (if fresh_message n m then Accept else Reject)"
  using gap_in_window [of n] gap_not_min [of n]
  by (auto simp: relay_verdict_def validate_def fresh_message_def ValidationPolicy_default_def
      TIMESTAMP_TOLERANCE_SECS_def sint_i64_abs not_less split: option.split)

section \<open>Properties\<close>

text \<open>C6: What the driver does with a relay message, on every input. It accepts the message exactly if the
  topic is a shard topic, the payload decodes and the timestamp, if there is one, is less than 21
  seconds away from the local clock in either direction; also timestamps for which the difference
  overflows 64 bits are refused. An accepted message is stored unless it is ephemeral, pushed to the
  matching filter clients, handed to the application under its RFC-14 hash and only then reported to
  gossipsub as accepted; any other message is reported as rejected and has no other effect.\<close>

theorem relay_message_handling:
  assumes "clock_ok (now_nanos env)" "evt_open env"
    and "mid = waku_message_id (digest env) (decode_message env) gm"
    and "on_relay_message env src mid gm st = (ok, st', fx)"
  shows "ok \<and>
    (if \<exists>sid m. ShardId_parse (topic gm) = Ok sid \<and> decode_message env (data gm) = Ok m
          \<and> fresh_message (now_nanos env) m
     then \<exists>sid m. ShardId_parse (topic gm) = Ok sid \<and> decode_message env (data gm) = Ok m
       \<and> fx = (if node_store env \<noteq> None \<and> WakuMessage.ephemeral m \<noteq> Some True
               then [SpawnPut (topic gm) m (rx_nanos env)] else [])
             @ map (\<lambda>(p, push). SendPush p push) (fst (push_filter_matches (filters st) (topic gm) m))
             @ [Emit (MessageReceived sid m (deterministic_hash (digest env) (topic gm) m) src),
                ReportValidation mid src MA_Accept]
       \<and> Metrics.relay_messages (counters st') = Metrics.relay_messages (counters st) + 1
     else fx = [ReportValidation mid src MA_Reject] \<and> st' = st)"
proof (cases "ShardId_parse (topic gm)")
  case (Inl e)
  then show ?thesis using assms(4) by (auto simp: on_relay_message_def Validation_into_def)
next
  case sid: (Inr sid)
  show ?thesis
  proof (cases "decode_message env (data gm)")
    case (Inl e)
    then show ?thesis using assms(4) sid by (auto simp: on_relay_message_def Validation_into_def)
  next
    case (Inr m)
    obtain pushes n where p: "push_filter_matches (filters st) (topic gm) m = (pushes, n)" by fastforce
    have "mid = deterministic_hash (digest env) (topic gm) m"
      using assms(3) Inr by (simp add: waku_message_id_def)
    then show ?thesis
      using assms(2,4) sid Inr p relay_verdict_eq [OF assms(1), of m]
      by (auto simp: on_relay_message_def emit_def Let_def Validation_into_def Metrics_defs
          split: if_splits)
  qed
qed

text \<open>A peer counts as disconnected as soon as any one of its connections closes: with two open
  connections to a peer, closing one of them removes it from the connected peers.\<close>

lemma closing_one_connection_drops_peer:
  assumes "evt_open env" "ip_limit env = 0"
  shows "p \<in> connected (fst (run [(env, Ev (ConnectionEstablished p a)), (env, Ev (ConnectionEstablished p b))] st))
    \<and> p \<notin> connected (fst (run [(env, Ev (ConnectionEstablished p a)), (env, Ev (ConnectionEstablished p b)),
        (env, Ev (ConnectionClosed p b))] st))"
  using assms
  by (simp add: run_step_def handle_event_def on_connection_established_def on_connection_closed_def
      ip_established_def emit_def)

section \<open>Concrete runs\<close>

theorem relay_message_handling_witness:
  "ReportValidation (ex_digest [2]) (7 :: nat) MA_Reject \<in>
     set (snd (snd (on_relay_message ex_env 7 (ex_digest [2]) \<lparr>data = [2], topic = ''/waku/2/rs/1/0''\<rparr>
       (NodeState_init unrounded))))"
proof -
  let ?gm = "\<lparr>data = [2], topic = ''/waku/2/rs/1/0''\<rparr>"
  obtain ok st' fx where r: "on_relay_message ex_env (7 :: nat) (ex_digest [2]) ?gm (NodeState_init unrounded) = (ok, st', fx)"
    using prod_cases3 by blast
  have "clock_ok (now_nanos ex_env)" "evt_open ex_env"
    "ex_digest [2] = waku_message_id (digest ex_env) (decode_message ex_env) ?gm"
    "decode_message ex_env (data ?gm) = Err ''bad''"
    by (simp_all add: clock_ok_def ex_env_def waku_message_id_def)
  with relay_message_handling [OF this(1-3) r] r show ?thesis by simp
qed

lemma closing_one_connection_drops_peer_instance:
  "(7 :: nat) \<notin> connected (fst (run [(ex_env, Ev (ConnectionEstablished 7 [Ip4 1])),
     (ex_env, Ev (ConnectionEstablished 7 [Ip4 2])), (ex_env, Ev (ConnectionClosed 7 [Ip4 2]))]
     (NodeState_init unrounded)))"
proof -
  have "evt_open ex_env" "ip_limit ex_env = 0" by (simp_all add: ex_env_def)
  then show ?thesis by (rule closing_one_connection_drops_peer [THEN conjunct2])
qed

end
