(* ===== verification/Node_Requests.thy ===== *)
theory Node_Requests
  imports Node_Runtime
begin

text \<open>
  Requests the node sends and the replies it owes. \<open>Pending\<close> has one table per protocol from request
  ids to reply channels; a command enters its channel, and the response or the failure of the request
  takes it out and answers on it. The locale \<open>request_table\<close> states that discipline for one table of a
  step function and shows what the callers rely on; it is interpreted for the four tables of the driver.
\<close>

section \<open>Request tables\<close>

lemma map_filter_append [simp]: "List.map_filter f (xs @ ys) = List.map_filter f xs @ List.map_filter f ys"
  by (simp add: List.map_filter_def)

locale request_table =
  fixes step :: "'i \<Rightarrow> 's \<Rightarrow> 's \<times> 'f list"
    and table :: "'s \<Rightarrow> nat \<rightharpoonup> nat"
    and opens :: "'i \<Rightarrow> (nat \<times> nat) option"
    and resolves :: "'i \<Rightarrow> (nat \<times> 'r) option"
    and answers :: "'f \<Rightarrow> (nat \<times> 'r) option"
  assumes open_step: "opens i = Some (r, c) \<Longrightarrow>
      table (fst (step i s)) = (table s)(r \<mapsto> c) \<and> List.map_filter answers (snd (step i s)) = []"
    and resolve_step: "opens i = None \<Longrightarrow> resolves i = Some (r, x) \<Longrightarrow>
      table (fst (step i s)) = (table s)(r := None)
      \<and> List.map_filter answers (snd (step i s)) = (case table s r of None \<Rightarrow> [] | Some c \<Rightarrow> [(c, x)])"
    and other_step: "opens i = None \<Longrightarrow> resolves i = None \<Longrightarrow>
      table (fst (step i s)) = table s \<and> List.map_filter answers (snd (step i s)) = []"
begin

fun steps :: "'i list \<Rightarrow> 's \<Rightarrow> 's \<times> 'f list" where
  "steps [] s = (s, [])"
| "steps (i # is) s =
     (case step i s of (s', fx) \<Rightarrow> case steps is s' of (s'', fx') \<Rightarrow> (s'', fx @ fx'))"

text \<open>The replies, computed from the inputs alone.\<close>

fun replies :: "(nat \<rightharpoonup> nat) \<Rightarrow> 'i list \<Rightarrow> (nat \<times> 'r) list" where
  "replies m [] = []"
| "replies m (i # is) =
     (case opens i of
        Some (r, c) \<Rightarrow> replies (m(r \<mapsto> c)) is
      | None \<Rightarrow>
          (case resolves i of
             Some (r, x) \<Rightarrow> (case m r of None \<Rightarrow> [] | Some c \<Rightarrow> [(c, x)]) @ replies (m(r := None)) is
           | None \<Rightarrow> replies m is))"

lemma steps_replies: "List.map_filter answers (snd (steps is s)) = replies (table s) is"
proof (induction "is" arbitrary: s)
  case (Cons i "is")
  obtain s' fx where st: "step i s = (s', fx)" by fastforce
  obtain s'' fx' where "steps is s' = (s'', fx')" by fastforce
  then have "List.map_filter answers (snd (steps (i # is) s)) = List.map_filter answers fx @ replies (table s') is"
    using Cons [of s'] st by simp
  then show ?case
    using open_step [of i _ _ s] resolve_step [of i _ _ s] other_step [of i s] st
    by (auto split: option.split)
qed (simp add: List.map_filter_def)

lemma replies_known: "fst ` set (replies m is) \<subseteq> ran m \<union> snd ` set (List.map_filter opens is)"
proof (induction "is" arbitrary: m)
  case (Cons i "is")
  show ?case
  proof (cases "opens i")
    case (Some rc)
    obtain r c where rc: "rc = (r, c)" by fastforce
    have "ran (m(r \<mapsto> c)) \<subseteq> insert c (ran m)" by (auto simp: ran_def)
    moreover have "fst ` set (replies (m(r \<mapsto> c)) is)
        \<subseteq> ran (m(r \<mapsto> c)) \<union> snd ` set (List.map_filter opens is)" by (rule Cons.IH)
    ultimately show ?thesis using Some rc by (simp add: List.map_filter_simps) blast
  next
    case None
    show ?thesis
    proof (cases "resolves i")
      case (Some rx)
      obtain r x where rx: "rx = (r, x)" by fastforce
      have "ran (m(r := None)) \<subseteq> ran m" by (auto simp: ran_def)
      moreover have "fst ` set (replies (m(r := None)) is)
          \<subseteq> ran (m(r := None)) \<union> snd ` set (List.map_filter opens is)" by (rule Cons.IH)
      ultimately have "fst ` set (replies (m(r := None)) is)
          \<subseteq> ran m \<union> snd ` set (List.map_filter opens is)" by blast
      then show ?thesis
        using None Some rx by (cases "m r") (simp_all add: List.map_filter_simps ranI)
    qed (use Cons.IH [of m] None in \<open>auto simp: List.map_filter_simps\<close>)
  qed
qed simp

text \<open>No channel is answered twice, if the channels are different.\<close>

definition fresh_channels :: "(nat \<rightharpoonup> nat) \<Rightarrow> 'i list \<Rightarrow> bool" where
  "fresh_channels m is \<longleftrightarrow> inj_on m (dom m) \<and> ran m \<inter> snd ` set (List.map_filter opens is) = {}
     \<and> distinct (map snd (List.map_filter opens is))"

lemma fresh_channels_open:
  assumes "fresh_channels m (i # is)" "opens i = Some (r, c)"
  shows "fresh_channels (m(r \<mapsto> c)) is"
proof -
  have c: "c \<notin> ran m" "c \<notin> snd ` set (List.map_filter opens is)" "ran m \<inter> snd ` set (List.map_filter opens is) = {}"
    and d: "inj_on m (dom m)" "distinct (map snd (List.map_filter opens is))"
    using assms by (auto simp: fresh_channels_def List.map_filter_simps)
  have "inj_on (m(r \<mapsto> c)) (dom (m(r \<mapsto> c)))" using d(1) c(1) by (auto simp: inj_on_def ran_def dom_def)
  moreover have "ran (m(r \<mapsto> c)) \<subseteq> insert c (ran m)" by (auto simp: ran_def)
  ultimately show ?thesis unfolding fresh_channels_def using c(2,3) d(2) by blast
qed

lemma fresh_channels_resolve:
  assumes "fresh_channels m (i # is)" "opens i = None"
  shows "fresh_channels (m(r := None)) is" "m r = Some c \<Longrightarrow> c \<notin> ran (m(r := None)) \<and> c \<notin> snd ` set (List.map_filter opens is)"
    "fresh_channels m is"
proof -
  have f: "inj_on m (dom m)" "ran m \<inter> snd ` set (List.map_filter opens is) = {}" "distinct (map snd (List.map_filter opens is))"
    using assms by (auto simp: fresh_channels_def List.map_filter_simps)
  have "inj_on (m(r := None)) (dom (m(r := None)))" "ran (m(r := None)) \<subseteq> ran m"
    using f(1) by (auto simp: inj_on_def ran_def dom_def)
  then show "fresh_channels (m(r := None)) is" unfolding fresh_channels_def using f by blast
  show "c \<notin> ran (m(r := None)) \<and> c \<notin> snd ` set (List.map_filter opens is)" if "m r = Some c"
    using that f(1,2) ranI [of m r c] by (auto simp: ran_def inj_on_def dom_def)
  show "fresh_channels m is" using f by (simp add: fresh_channels_def)
qed

lemma replies_distinct: "fresh_channels m is \<Longrightarrow> distinct (map fst (replies m is))"
proof (induction "is" arbitrary: m)
  case (Cons i "is")
  show ?case
  proof (cases "opens i")
    case (Some rc)
    then show ?thesis using Cons.IH fresh_channels_open [OF Cons.prems] by (cases rc) simp
  next
    case None
    note f = fresh_channels_resolve [OF Cons.prems None]
    show ?thesis
    proof (cases "resolves i")
      case (Some rx)
      obtain r x where rx: "rx = (r, x)" by fastforce
      have "c \<notin> fst ` set (replies (m(r := None)) is)" if "m r = Some c" for c
        using f(2) [OF that] replies_known [of "m(r := None)" "is"] by blast
      then show ?thesis using Cons.IH [OF f(1) [of r]] None Some rx by (cases "m r") (simp_all del: fun_upd_apply)
    qed (use Cons.IH [OF f(3)] None in simp)
  qed
qed simp

lemma replies_once:
  "inj_on m (dom m) \<Longrightarrow> ran m \<inter> snd ` set (List.map_filter opens is) = {} \<Longrightarrow>
   distinct (map snd (List.map_filter opens is)) \<Longrightarrow> distinct (map fst (replies m is))"
  by (rule replies_distinct) (simp add: fresh_channels_def)

text \<open>A request is answered with the first response to it.\<close>

lemma replies_pending:
  "m r = Some c \<Longrightarrow>
   \<forall>i \<in> set is. (\<forall>c'. opens i \<noteq> Some (r, c')) \<and> (opens i = None \<longrightarrow> (\<forall>x. resolves i \<noteq> Some (r, x))) \<Longrightarrow>
   opens j = None \<Longrightarrow> resolves j = Some (r, x) \<Longrightarrow> (c, x) \<in> set (replies m (is @ j # js))"
  by (induction "is" arbitrary: m) (auto split: option.splits)

lemma replies_append_mem: "\<exists>m'. set (replies m' js) \<subseteq> set (replies m (is @ js))"
  by (induction "is" arbitrary: m) (fastforce split: option.splits)+

lemma answered_first:
  assumes "opens i = Some (r, c)" "opens j = None" "resolves j = Some (r, x)"
    and "\<forall>k \<in> set is2. (\<forall>c'. opens k \<noteq> Some (r, c')) \<and> (opens k = None \<longrightarrow> (\<forall>x. resolves k \<noteq> Some (r, x)))"
  shows "(c, x) \<in> set (replies m (is1 @ i # is2 @ j # is3))"
proof -
  have "(c, x) \<in> set (replies m' (i # is2 @ j # is3))" for m'
    using assms(1) replies_pending [of "m'(r \<mapsto> c)" r c is2 j x is3] assms(2-) by simp
  then show ?thesis using replies_append_mem [of "i # is2 @ j # is3" m is1] by blast
qed

text \<open>What a step enters into the table, and where its answers come from.\<close>

lemma table_entry:
  "table (fst (step i s)) r = Some c \<Longrightarrow> opens i = Some (r, c) \<or> table s r = Some c"
  using open_step [of i _ _ s] resolve_step [of i _ _ s] other_step [of i s]
  by (cases "opens i"; cases "resolves i") (auto split: if_splits)

lemma answer_source:
  assumes "f \<in> set (snd (step i s))" "answers f = Some (c, x)"
  shows "\<exists>r. resolves i = Some (r, x) \<and> table s r = Some c"
proof -
  have "(c, x) \<in> set (List.map_filter answers (snd (step i s)))"
    using assms by (force simp: List.map_filter_def)
  then show ?thesis
    using open_step [of i _ _ s] resolve_step [of i _ _ s] other_step [of i s]
    by (cases "opens i"; cases "resolves i") (auto split: option.splits)
qed

end

section \<open>The tables of the driver\<close>

definition driver_step ::
  "'e NodeEnv \<times> 'p Input \<Rightarrow> ('p, 'e) NodeState \<Rightarrow> ('p, 'e) NodeState \<times> 'p Effect list" where
  "driver_step i st = snd (run_step (fst i) (snd i) st)"

definition store_opens :: "'e NodeEnv \<times> 'p Input \<Rightarrow> (nat \<times> nat) option" where
  "store_opens i = (case snd i of Cmd (CmdStoreQuery _ _ ch) \<Rightarrow> Some (fresh_id (fst i), ch) | _ \<Rightarrow> None)"

definition store_resolves :: "'e NodeEnv \<times> 'p Input \<Rightarrow> (nat \<times> (string, StoreQueryResponse) result) option" where
  "store_resolves i =
     (case snd i of
        Ev (StoreResponse rid r) \<Rightarrow> Some (rid, Ok r)
      | Ev (StoreFailure rid e) \<Rightarrow> Some (rid, Err e)
      | _ \<Rightarrow> None)"

definition store_answers :: "'p Effect \<Rightarrow> (nat \<times> (string, StoreQueryResponse) result) option" where
  "store_answers f = (case f of Reply ch (ReplyStore r) \<Rightarrow> Some (ch, r) | _ \<Rightarrow> None)"

definition lightpush_opens :: "'e NodeEnv \<times> 'p Input \<Rightarrow> (nat \<times> nat) option" where
  "lightpush_opens i = (case snd i of Cmd (CmdLightPush _ _ ch) \<Rightarrow> Some (fresh_id (fst i), ch) | _ \<Rightarrow> None)"

definition lightpush_resolves :: "'e NodeEnv \<times> 'p Input \<Rightarrow> (nat \<times> (string, LightpushResponse) result) option" where
  "lightpush_resolves i =
     (case snd i of
        Ev (LightpushResp rid r) \<Rightarrow> Some (rid, Ok r)
      | Ev (LightpushFailure rid e) \<Rightarrow> Some (rid, Err e)
      | _ \<Rightarrow> None)"

definition lightpush_answers :: "'p Effect \<Rightarrow> (nat \<times> (string, LightpushResponse) result) option" where
  "lightpush_answers f = (case f of Reply ch (ReplyLightpush r) \<Rightarrow> Some (ch, r) | _ \<Rightarrow> None)"

definition px_opens :: "'e NodeEnv \<times> 'p Input \<Rightarrow> (nat \<times> nat) option" where
  "px_opens i = (case snd i of Cmd (CmdPeerExchange _ _ ch) \<Rightarrow> Some (fresh_id (fst i), ch) | _ \<Rightarrow> None)"

definition px_resolves :: "'e NodeEnv \<times> 'p Input \<Rightarrow> (nat \<times> (string, PeerExchangeRpc) result) option" where
  "px_resolves i =
     (case snd i of
        Ev (PxResponse rid r) \<Rightarrow> Some (rid, Ok r)
      | Ev (PxFailure rid e) \<Rightarrow> Some (rid, Err e)
      | _ \<Rightarrow> None)"

definition px_answers :: "'p Effect \<Rightarrow> (nat \<times> (string, PeerExchangeRpc) result) option" where
  "px_answers f = (case f of Reply ch (ReplyPx r) \<Rightarrow> Some (ch, r) | _ \<Rightarrow> None)"

definition filter_opens :: "'e NodeEnv \<times> 'p Input \<Rightarrow> (nat \<times> nat) option" where
  "filter_opens i = (case snd i of Cmd (CmdFilterSubscribe _ _ ch) \<Rightarrow> Some (fresh_id (fst i), ch) | _ \<Rightarrow> None)"

definition filter_resolves :: "'e NodeEnv \<times> 'p Input \<Rightarrow> (nat \<times> (string, FilterSubscribeResponse) result) option" where
  "filter_resolves i =
     (case snd i of
        Ev (FilterResponse rid r) \<Rightarrow> Some (rid, Ok r)
      | Ev (FilterFailure rid e) \<Rightarrow> Some (rid, Err e)
      | _ \<Rightarrow> None)"

definition filter_answers :: "'p Effect \<Rightarrow> (nat \<times> (string, FilterSubscribeResponse) result) option" where
  "filter_answers f = (case f of Reply ch (ReplyFilter r) \<Rightarrow> Some (ch, r) | _ \<Rightarrow> None)"

text \<open>Handlers that leave the tables alone and reply to nobody.\<close>

definition quiet :: "('p, 'e) outcome \<Rightarrow> ('p, 'e) NodeState \<Rightarrow> bool" where
  "quiet out st \<longleftrightarrow> pending (fst (snd out)) = pending st \<and> (\<forall>ch r. Reply ch r \<notin> set (snd (snd out)))"

lemma quiet_emit: "quiet (emit env ev st' fx) st \<longleftrightarrow> pending st' = pending st \<and> (\<forall>ch r. Reply ch r \<notin> set fx)"
  by (auto simp: quiet_def emit_def)

lemma quiet_relay: "quiet (on_relay_message env src mid gm st) st"
  by (auto simp: quiet_def on_relay_message_def emit_def Let_def split: sum.split option.split prod.split)

lemma quiet_established: "quiet (on_connection_established env p a st) st"
  by (auto simp: on_connection_established_def quiet_emit split: prod.split) (simp add: quiet_def)

lemma quiet_lightpush: "quiet (on_lightpush_request env p ch req st) st"
  by (auto simp: quiet_def on_lightpush_request_def serve_lightpush_def Let_def split: prod.split option.split)

lemma quiet_store: "quiet (on_store_request env p ch req st) st"
  by (auto simp: quiet_def on_store_request_def Let_def split: prod.split)

lemma quiet_rest:
  "quiet (on_new_listen_addr env a st) st" "quiet (on_connection_closed env p a st) st"
  "quiet (handle_metadata_request env ch st) st" "quiet (handle_metadata_response env p md st) st"
  "quiet (on_px_request env ch px st) st" "quiet (on_filter_request p ch fr st) st"
  "quiet (on_filter_push env ch mp st) st" "quiet (True, st, []) st" "quiet (False, st, []) st"
  by (auto simp: quiet_def emit_def on_new_listen_addr_def on_connection_closed_def
      handle_metadata_request_def handle_metadata_response_def on_px_request_def on_filter_request_def
      on_filter_push_def Let_def split: option.split prod.split)

lemmas quiet_handlers = quiet_relay quiet_established quiet_lightpush quiet_store quiet_rest

lemma map_filter_Nil: "\<forall>x \<in> set xs. f x = None \<Longrightarrow> List.map_filter f xs = []"
  by (simp add: List.map_filter_def filter_empty_conv)

lemma quiet_answers:
  assumes "quiet out st"
  shows "List.map_filter store_answers (snd (snd out)) = []"
    "List.map_filter lightpush_answers (snd (snd out)) = []"
    "List.map_filter px_answers (snd (snd out)) = []"
    "List.map_filter filter_answers (snd (snd out)) = []"
  using assms
  by (auto intro!: map_filter_Nil
      simp: quiet_def store_answers_def lightpush_answers_def px_answers_def filter_answers_def
      split: Effect.split Reply.split)

lemmas answers_defs = store_answers_def lightpush_answers_def px_answers_def filter_answers_def
lemmas opens_defs = store_opens_def lightpush_opens_def px_opens_def filter_opens_def
lemmas resolves_defs = store_resolves_def lightpush_resolves_def px_resolves_def filter_resolves_def
lemmas resolved_defs = on_store_resolved_def on_lightpush_resolved_def on_px_resolved_def
  on_filter_resolved_def resolve_def

lemma driver_step_quiet:
  "\<forall>cmd. inp \<noteq> Cmd cmd \<Longrightarrow> store_resolves (env, inp) = None \<Longrightarrow> lightpush_resolves (env, inp) = None \<Longrightarrow>
   px_resolves (env, inp) = None \<Longrightarrow> filter_resolves (env, inp) = None \<Longrightarrow>
   quiet (run_step env inp st) st"
  by (cases inp)
    (auto simp: run_step_def handle_event_def quiet_handlers resolves_defs split: SwarmEvent.splits)

lemmas step_defs = driver_step_def run_step_def handle_event_def handle_command_def Let_def
  List.map_filter_simps

text \<open>An input either is a command, or resolves a request of one protocol, or is quiet.\<close>

lemma input_cases:
  obtains (cmd) c where "snd i = Cmd c"
    | (store) rid r where "store_resolves i = Some (rid, r)"
    | (lightpush) rid r where "lightpush_resolves i = Some (rid, r)"
    | (px) rid r where "px_resolves i = Some (rid, r)"
    | (filter) rid r where "filter_resolves i = Some (rid, r)"
    | (quiet) "quiet (run_step (fst i) (snd i) st) st" "\<forall>c. snd i \<noteq> Cmd c"
        "store_resolves i = None" "lightpush_resolves i = None" "px_resolves i = None" "filter_resolves i = None"
  using driver_step_quiet [of "snd i" "fst i" st] by (cases i) fastforce

text \<open>What one step does to a table and answers from it, given the request it opens and the one it resolves.\<close>

definition table_after :: "(nat \<times> nat) option \<Rightarrow> (nat \<times> 'r) option \<Rightarrow> (nat \<rightharpoonup> nat) \<Rightarrow> nat \<rightharpoonup> nat" where
  "table_after opened resolved m =
     (case opened of
        Some (r, c) \<Rightarrow> m(r \<mapsto> c)
      | None \<Rightarrow> (case resolved of Some (r, _) \<Rightarrow> m(r := None) | None \<Rightarrow> m))"

definition answers_from :: "(nat \<times> nat) option \<Rightarrow> (nat \<times> 'r) option \<Rightarrow> (nat \<rightharpoonup> nat) \<Rightarrow> (nat \<times> 'r) list" where
  "answers_from opened resolved m =
     (case (opened, resolved) of
        (None, Some (r, x)) \<Rightarrow> (case m r of None \<Rightarrow> [] | Some c \<Rightarrow> [(c, x)])
      | _ \<Rightarrow> [])"

lemma opens_command: "\<forall>c. snd i \<noteq> Cmd c \<Longrightarrow>
    store_opens i = None \<and> lightpush_opens i = None \<and> px_opens i = None \<and> filter_opens i = None"
  by (auto simp: opens_defs split: Input.split)

lemma tables_step:
  fixes i :: "'e NodeEnv \<times> 'p Input" and s :: "('p, 'e) NodeState"
  defines "p \<equiv> pending s" and "p' \<equiv> pending (fst (driver_step i s))" and "fx \<equiv> snd (driver_step i s)"
  shows "pend_store p' = table_after (store_opens i) (store_resolves i) (pend_store p)
      \<and> List.map_filter store_answers fx = answers_from (store_opens i) (store_resolves i) (pend_store p)"
    "pend_lightpush p' = table_after (lightpush_opens i) (lightpush_resolves i) (pend_lightpush p)
      \<and> List.map_filter lightpush_answers fx = answers_from (lightpush_opens i) (lightpush_resolves i) (pend_lightpush p)"
    "pend_px p' = table_after (px_opens i) (px_resolves i) (pend_px p)
      \<and> List.map_filter px_answers fx = answers_from (px_opens i) (px_resolves i) (pend_px p)"
    "pend_filter p' = table_after (filter_opens i) (filter_resolves i) (pend_filter p)
      \<and> List.map_filter filter_answers fx = answers_from (filter_opens i) (filter_resolves i) (pend_filter p)"
  unfolding assms
  by (cases rule: input_cases [where i = i and st = s];
      auto simp: quiet_def driver_step_def opens_command quiet_answers answers_from_def table_after_def
        run_step_def handle_event_def handle_command_def Let_def List.map_filter_simps
        opens_defs resolves_defs resolved_defs answers_defs
      split: Command.splits Input.splits SwarmEvent.splits option.split)+

interpretation store_requests: request_table driver_step "\<lambda>s. pend_store (pending s)"
  store_opens store_resolves store_answers
  by unfold_locales (simp_all add: tables_step table_after_def answers_from_def)

interpretation lightpush_requests: request_table driver_step "\<lambda>s. pend_lightpush (pending s)"
  lightpush_opens lightpush_resolves lightpush_answers
  by unfold_locales (simp_all add: tables_step table_after_def answers_from_def)

interpretation px_requests: request_table driver_step "\<lambda>s. pend_px (pending s)"
  px_opens px_resolves px_answers
  by unfold_locales (simp_all add: tables_step table_after_def answers_from_def)

interpretation filter_requests: request_table driver_step "\<lambda>s. pend_filter (pending s)"
  filter_opens filter_resolves filter_answers
  by unfold_locales (simp_all add: tables_step table_after_def answers_from_def)

section \<open>The loop\<close>

abbreviation driver_steps ::
  "('e NodeEnv \<times> 'p Input) list \<Rightarrow> ('p, 'e) NodeState \<Rightarrow> ('p, 'e) NodeState \<times> 'p Effect list" where
  "driver_steps \<equiv> request_table.steps driver_step"

lemma run_prefix: "\<exists>k. run is st = driver_steps (take k is) st"
proof (induction "is" arbitrary: st)
  case (Cons i "is")
  obtain env inp where i: "i = (env, inp)" by fastforce
  obtain ok st' fx where r: "run_step env inp st = (ok, st', fx)" using prod_cases3 by blast
  then have ds: "driver_step i st = (st', fx)" using i by (simp add: driver_step_def)
  show ?case
  proof (cases ok)
    case True
    obtain k where "run is st' = driver_steps (take k is) st'" using Cons by blast
    then have "run (i # is) st = driver_steps (take (Suc k) (i # is)) st"
      using True r i ds by simp
    then show ?thesis by blast
  next
    case False
    then have "run (i # is) st = driver_steps (take 1 (i # is)) st"
      using r i ds by simp
    then show ?thesis by blast
  qed
qed simp

definition keeps_running :: "'e NodeEnv \<times> 'p Input \<Rightarrow> bool" where
  "keeps_running i \<longleftrightarrow> evt_open (fst i) \<and> snd i \<noteq> CmdClosed \<and> snd i \<noteq> Cmd CmdShutdown"

lemma run_step_continues: "keeps_running (env, inp) \<Longrightarrow> fst (run_step env inp st)"
  by (auto simp: keeps_running_def run_step_def handle_event_def resolved_defs emit_def
      on_new_listen_addr_def on_connection_established_def on_connection_closed_def on_relay_message_def
      handle_metadata_request_def handle_metadata_response_def on_store_request_def
      on_lightpush_request_def on_px_request_def on_filter_request_def on_filter_push_def Let_def
      split: Input.split Command.split SwarmEvent.split prod.split option.split sum.split)

lemma run_all: "\<forall>i \<in> set is. keeps_running i \<Longrightarrow> run is st = driver_steps is st"
proof (induction "is" arbitrary: st)
  case (Cons i "is")
  obtain env inp where i: "i = (env, inp)" by fastforce
  obtain ok st' fx where r: "run_step env inp st = (ok, st', fx)" using prod_cases3 by blast
  have ok using run_step_continues [of env inp st] Cons.prems i r by simp
  moreover have "driver_step i st = (st', fx)" using i r by (simp add: driver_step_def)
  moreover have "run is st' = driver_steps is st'" using Cons by simp
  ultimately show ?case using i r by simp
qed simp

lemma distinct_map_filter_take:
  "distinct (map f (List.map_filter g xs)) \<Longrightarrow> distinct (map f (List.map_filter g (take k xs)))"
proof -
  assume a: "distinct (map f (List.map_filter g xs))"
  have "List.map_filter g xs = List.map_filter g (take k xs) @ List.map_filter g (drop k xs)"
    by (metis append_take_drop_id map_filter_append)
  with a show ?thesis by simp
qed

lemma set_map_filter: "y \<in> set (List.map_filter f xs) \<longleftrightarrow> (\<exists>x \<in> set xs. f x = Some y)"
  by (force simp: List.map_filter_def)

lemma store_answers_iff: "store_answers f = Some (ch, r) \<longleftrightarrow> f = Reply ch (ReplyStore r)"
  by (auto simp: store_answers_def split: Effect.split Reply.split)

lemma init_tables [simp]:
  "pend_store (pending (NodeState_init rnd)) = Map.empty"
  "pend_lightpush (pending (NodeState_init rnd)) = Map.empty"
  "pend_px (pending (NodeState_init rnd)) = Map.empty"
  "pend_filter (pending (NodeState_init rnd)) = Map.empty"
  by (simp_all add: NodeState_init_def)

section \<open>Properties\<close>

text \<open>C26: However responses, failures, late and repeated answers arrive, and wherever the loop stops, no
  caller is answered twice: in every run from the start in which the callers use different reply
  channels, each channel of a store query, a light push, a peer exchange and a filter request gets at
  most one reply.\<close>

theorem replies_at_most_once:
  assumes "distinct (map snd (List.map_filter store_opens is))"
    and "distinct (map snd (List.map_filter lightpush_opens is))"
    and "distinct (map snd (List.map_filter px_opens is))"
    and "distinct (map snd (List.map_filter filter_opens is))"
  shows "let fx = snd (run is (NodeState_init rnd)) in
    distinct (map fst (List.map_filter store_answers fx))
    \<and> distinct (map fst (List.map_filter lightpush_answers fx))
    \<and> distinct (map fst (List.map_filter px_answers fx))
    \<and> distinct (map fst (List.map_filter filter_answers fx))"
proof -
  obtain k where k: "run is (NodeState_init rnd) = driver_steps (take k is) (NodeState_init rnd)"
    using run_prefix by blast
  show ?thesis
    unfolding k Let_def store_requests.steps_replies lightpush_requests.steps_replies
      px_requests.steps_replies filter_requests.steps_replies
    by (intro conjI store_requests.replies_once lightpush_requests.replies_once
        px_requests.replies_once filter_requests.replies_once distinct_map_filter_take assms) simp_all
qed

text \<open>C27: A caller is answered: while the loop is running, a store query whose request is answered by the
  peer delivers that very response on the caller's channel, whatever happens in between, as long as
  libp2p does not reuse the request id and has not resolved it before.\<close>

theorem store_reply_delivered:
  assumes "\<forall>i \<in> set (before_it @ (env, Cmd (CmdStoreQuery p req ch)) # between
      @ (env', Ev (StoreResponse (fresh_id env) resp)) # after_it). keeps_running i"
    and "\<forall>i \<in> set between. (\<forall>c. store_opens i \<noteq> Some (fresh_id env, c))
      \<and> (\<forall>x. store_resolves i \<noteq> Some (fresh_id env, x))"
  shows "Reply ch (ReplyStore (Ok resp)) \<in> set (snd (run (before_it
    @ (env, Cmd (CmdStoreQuery p req ch)) # between
    @ (env', Ev (StoreResponse (fresh_id env) resp)) # after_it) st))"
proof -
  let ?i = "(env, Cmd (CmdStoreQuery p req ch))"
  let ?j = "(env', Ev (StoreResponse (fresh_id env) resp))"
  have "store_opens ?i = Some (fresh_id env, ch)" "store_opens ?j = None"
    "store_resolves ?j = Some (fresh_id env, Ok resp)"
    by (simp_all add: store_opens_def store_resolves_def)
  from store_requests.answered_first [OF this, of between "pend_store (pending st)" before_it after_it]
  have "(ch, Ok resp) \<in> set (List.map_filter store_answers
      (snd (run (before_it @ ?i # between @ ?j # after_it) st)))"
    using assms by (simp only: run_all store_requests.steps_replies) blast
  then show ?thesis by (auto simp: set_map_filter store_answers_iff)
qed

definition ex_query :: "nat \<Rightarrow> nat Input" where
  "ex_query ch = Cmd (CmdStoreQuery 5 \<lparr>StoreQueryRequest.request_id = ''r'', include_data = True,
     pubsub_topic = None, content_topics = [], time_start = None, time_end = None, message_hashes = [],
     pagination_cursor = None, pagination_forward = True, pagination_limit = None\<rparr> ch)"

definition ex_response :: StoreQueryResponse where
  "ex_response = \<lparr>StoreQueryResponse.request_id = ''r'', status_code = Some 200, status_desc = Some ''OK'',
     messages = [], pagination_cursor = None\<rparr>"

theorem replies_at_most_once_witness:
  "distinct (map fst (List.map_filter store_answers (snd (run
     [(ex_env, ex_query 1), (ex_env, Ev (StoreResponse 0 ex_response)), (ex_env, Ev (StoreResponse 0 ex_response))]
     (NodeState_init unrounded)))))"
  using replies_at_most_once [of "[(ex_env, ex_query 1), (ex_env, Ev (StoreResponse 0 ex_response)),
      (ex_env, Ev (StoreResponse 0 ex_response))]" unrounded]
  by (simp add: opens_defs ex_query_def List.map_filter_simps Let_def del: run.simps)

theorem store_reply_delivered_witness:
  "Reply 1 (ReplyStore (Ok ex_response)) \<in> set (snd (run
     [(ex_env, ex_query 1), (ex_env, Ev (NewListenAddr [Ip4 1])), (ex_env, Ev (StoreResponse 0 ex_response))]
     (NodeState_init unrounded)))"
  using store_reply_delivered [of "[]" ex_env 5 _ 1 "[(ex_env, Ev (NewListenAddr [Ip4 1]))]" ex_env ex_response "[]"
      "NodeState_init unrounded"]
  by (simp add: keeps_running_def ex_env_def ex_query_def store_opens_def store_resolves_def del: run.simps)

end
