(* ===== verification/Node_Runs.thy ===== *)
theory Node_Runs
  imports Node_Relay Node_Requests
begin

text \<open>
  Runs of the driver: the effects of a run from those of its steps, the filter registry it ends with,
  and the archive that the writes it spawns fill, read back over the store protocol.
\<close>

section \<open>Effects and state of a run\<close>

lemma driver_steps_append:
  "snd (driver_steps (xs @ ys) st) = snd (driver_steps xs st) @ snd (driver_steps ys (fst (driver_steps xs st)))"
  "fst (driver_steps (xs @ ys) st) = fst (driver_steps ys (fst (driver_steps xs st)))"
  by (induction xs arbitrary: st) (simp_all add: case_prod_beta)

lemma run_effect:
  assumes "\<forall>i \<in> set inputs. keeps_running i" "i \<in> set inputs" "\<And>s. f \<in> set (snd (driver_step i s))"
  shows "f \<in> set (snd (run inputs st))"
proof -
  obtain xs ys where "inputs = xs @ i # ys" using assms(2) by (meson split_list)
  then show ?thesis
    using assms(3) [of "fst (driver_steps xs st)"] run_all [OF assms(1), of st]
    by (auto simp: driver_steps_append case_prod_beta)
qed

definition filter_request_of :: "'e NodeEnv \<times> 'p Input \<Rightarrow> ('p \<times> FilterSubscribeRequest) option" where
  "filter_request_of i = (case snd i of Ev (FilterRequest p ch req) \<Rightarrow> Some (p, req) | _ \<Rightarrow> None)"

lemma filters_driver_step:
  "filters (fst (driver_step i st)) =
     (case filter_request_of i of Some (p, req) \<Rightarrow> snd (apply_filter_request p req (filters st)) | None \<Rightarrow> filters st)"
  by (auto simp: filter_request_of_def driver_step_def run_step_def handle_event_def handle_command_def
      resolved_defs emit_def
      on_new_listen_addr_def on_connection_established_def on_connection_closed_def on_relay_message_def
      handle_metadata_request_def handle_metadata_response_def on_store_request_def
      on_lightpush_request_def on_px_request_def on_filter_request_def on_filter_push_def Let_def
      split: Input.split Command.split SwarmEvent.split prod.split option.split sum.split)

lemma filters_run:
  assumes "\<forall>i \<in> set inputs. keeps_running i"
  shows "filters (fst (run inputs (NodeState_init rnd))) = registry_after (List.map_filter filter_request_of inputs)"
proof -
  have "filters (fst (driver_steps inputs st)) =
      fold (\<lambda>(p, r) f. snd (apply_filter_request p r f)) (List.map_filter filter_request_of inputs) (filters st)" for st
    by (induction inputs arbitrary: st)
      (simp_all add: List.map_filter_simps case_prod_beta filters_driver_step split: option.split)
  then show ?thesis
    by (simp add: run_all [OF assms] registry_after_def NodeState_init_def)
qed

definition push_of :: "'p Effect \<Rightarrow> ('p \<times> MessagePush) option" where
  "push_of f = (case f of SendPush p push \<Rightarrow> Some (p, push) | _ \<Rightarrow> None)"

lemma push_of_simps [simp]:
  "push_of (SendPush p push) = Some (p, push)" "push_of (Emit ev) = None"
  "push_of (ReportValidation i q v) = None" "push_of (SpawnPut pt m rx) = None"
  by (simp_all add: push_of_def)

lemma push_of_pushes: "List.map_filter push_of (map (\<lambda>(p, m). SendPush p m) xs) = xs"
  by (induction xs) (auto simp: List.map_filter_simps)

section \<open>The archive a run fills\<close>

definition spawn_put_of :: "'p Effect \<Rightarrow> (string \<times> WakuMessage \<times> i64) option" where
  "spawn_put_of f = (case f of SpawnPut pt m rx \<Rightarrow> Some (pt, m, rx) | _ \<Rightarrow> None)"

definition archive :: "(bytes \<Rightarrow> bytes) \<Rightarrow> (string \<times> WakuMessage \<times> i64) list \<Rightarrow> table \<Rightarrow> table" where
  "archive sha256 puts t = fold (\<lambda>(pt, m, rx) t. snd (SqliteStore_put sha256 (\<lambda>_. None) pt m rx t)) puts t"

lemma archive_simps [simp]:
  "archive sha256 [] t = t"
  "archive sha256 ((pt, m, rx) # puts) t = archive sha256 puts (insert_or_ignore (new_row sha256 pt m rx) t)"
  by (simp_all add: archive_def SqliteStore_put_def)

lemma archive_wf: "digest_len sha256 \<Longrightarrow> wf_table sha256 t \<Longrightarrow> wf_table sha256 (archive sha256 puts t)"
  by (induction puts arbitrary: t) (auto simp: wf_insert_or_ignore wf_new_row)

lemma archive_old: "MessageRow.message_hash ` set t \<subseteq> MessageRow.message_hash ` set (archive sha256 puts t)"
proof (induction puts arbitrary: t)
  case (Cons a puts)
  obtain pt m rx where a: "a = (pt, m, rx)" using prod_cases3 by blast
  have "MessageRow.message_hash ` set t
      \<subseteq> MessageRow.message_hash ` set (insert_or_ignore (new_row sha256 pt m rx) t)"
    by (auto simp: insert_or_ignore_def)
  with Cons show ?case unfolding a by simp blast
qed simp

lemma archive_new:
  "(pt, m, rx) \<in> set puts \<Longrightarrow> deterministic_hash sha256 pt m \<in> MessageRow.message_hash ` set (archive sha256 puts t)"
proof (induction puts arbitrary: t)
  case (Cons a puts)
  have "deterministic_hash sha256 pt m \<in> MessageRow.message_hash ` set (insert_or_ignore (new_row sha256 pt m rx) t)"
    by (auto simp: insert_or_ignore_def image_iff)
  with Cons archive_old [of "insert_or_ignore (new_row sha256 pt m rx) t" sha256 puts] show ?case
    by (cases a) auto
qed simp

lemma archive_rows:
  "r \<in> set (archive sha256 puts t) \<Longrightarrow> r \<in> set t \<or> (\<exists>pt m rx. (pt, m, rx) \<in> set puts \<and> r = new_row sha256 pt m rx)"
proof (induction puts arbitrary: t)
  case (Cons a puts)
  obtain pt m rx where a: "a = (pt, m, rx)" using prod_cases3 by blast
  from Cons.IH [of "insert_or_ignore (new_row sha256 pt m rx) t"] Cons.prems show ?case
    unfolding a by (auto simp: insert_or_ignore_def split: if_splits)
qed simp

lemma filter_unique:
  "distinct (map f xs) \<Longrightarrow> x \<in> set xs \<Longrightarrow> filter (\<lambda>y. f y = f x) xs = [x]"
  by (induction xs) (auto simp: filter_empty_conv image_iff)

definition hash_request :: "MessageHash \<Rightarrow> StoreQueryRequest" where
  "hash_request h =
     \<lparr>StoreQueryRequest.request_id = [], include_data = True, pubsub_topic = None, content_topics = [],
      time_start = None, time_end = None, message_hashes = [h], pagination_cursor = None,
      pagination_forward = True, pagination_limit = None\<rparr>"

lemma serve_by_hash:
  assumes "wf_table sha256 t" "r \<in> set t"
  shows "serve_pages (\<lambda>_. None) (hash_request (MessageRow.message_hash r)) (replicate 2 t) =
    Some [stored_to_key_value (stored True r)]"
proof -
  let ?q = "request_to_query (hash_request (MessageRow.message_hash r))"
  have len: "length (MessageRow.message_hash r) = 32" using assms by (auto simp: wf_table_def wf_row_def)
  have q: "query_filter ?q = (\<lambda>y. MessageRow.message_hash y = MessageRow.message_hash r)"
    using len by (simp add: fun_eq_iff query_filter_def request_to_query_def hash_request_def to_array32_def
        List.map_filter_simps)
  have "filter (query_filter ?q) t = [r]"
    unfolding q by (rule filter_unique) (use assms in \<open>simp_all add: wf_table_def\<close>)
  then have m: "matching ?q t = [r]" by (simp add: order_by_def)
  have p: "unat (page_size ?q) < 2 ^ 63" by (simp add: hash_request_def)
  have c: "cursor_row ?q t = None" by (simp add: cursor_row_def hash_request_def)
  have "read_pages (\<lambda>_. None) ?q (replicate 2 t) =
      Some (Ok (map (stored (StoreQuery.include_data ?q)) (drop 0 (matching ?q t))))"
    by (rule read_pages_from [OF assms(1) _ p]) (simp_all only: pending_no_cursor [OF c] m, simp_all)
  from serve_pages_read_pages [OF this] show ?thesis unfolding m by (simp add: hash_request_def)
qed

text \<open>An accepted message is written, and what is written can be fetched by its hash.\<close>

lemma accepted_put:
  assumes "\<forall>i \<in> set inputs. keeps_running i" "(env, Ev (RelayMessage src mid gm)) \<in> set inputs"
    and "ShardId_parse (topic gm) = Ok sid" "decode_message env (data gm) = Ok m"
    and "clock_ok (now_nanos env)" "fresh_message (now_nanos env) m"
    and "node_store env \<noteq> None" "WakuMessage.ephemeral m \<noteq> Some True"
  shows "(topic gm, m, rx_nanos env) \<in> set (List.map_filter spawn_put_of (snd (run inputs st)))"
proof -
  have "SpawnPut (topic gm) m (rx_nanos env) \<in> set (snd (driver_step (env, Ev (RelayMessage src mid gm)) s))" for s
    using assms(3,4,7,8) relay_verdict_eq [OF assms(5), of m] assms(6)
    by (auto simp: driver_step_def run_step_def handle_event_def on_relay_message_def emit_def Let_def
        split: prod.split)
  from run_effect [OF assms(1,2) this, of st] show ?thesis by (force simp: set_map_filter spawn_put_of_def)
qed

lemma archived_served:
  assumes "(tp, m, rx) \<in> set puts" "digest_len sha256" "wf_table sha256 t" "h = deterministic_hash sha256 tp m"
    and "\<forall>(pt, m', rx) \<in> set puts. deterministic_hash sha256 pt m' = h \<longrightarrow> pt = tp \<and> m' = m"
    and "h \<notin> MessageRow.message_hash ` set t"
  shows "serve_pages (\<lambda>_. None) (hash_request h) (replicate 2 (archive sha256 puts t)) =
    Some [\<lparr>WakuMessageKeyValue.message_hash = Some h, message = Some m, pubsub_topic = Some tp\<rparr>]"
proof -
  obtain r where r: "r \<in> set (archive sha256 puts t)" "MessageRow.message_hash r = h"
    using archive_new [OF assms(1), of sha256 t] assms(4) by (metis imageE)
  have "r \<notin> set t" using r(2) assms(6) by (metis imageI)
  then obtain pt m' rx' where p: "(pt, m', rx') \<in> set puts" "r = new_row sha256 pt m' rx'"
    using archive_rows [OF r(1)] by blast
  with r(2) assms(5) have "r = new_row sha256 tp m rx'" by auto
  then have "stored_to_key_value (stored True r) = \<lparr>WakuMessageKeyValue.message_hash = Some h, message = Some m,
      pubsub_topic = Some tp\<rparr>"
    by (simp add: stored_to_key_value_def stored_def assms(4))
  with serve_by_hash [OF archive_wf [OF assms(2,3)] r(1)] r(2) show ?thesis by simp
qed

section \<open>A concrete relay message\<close>

definition ex_relayed :: GossipMessage where
  "ex_relayed = \<lparr>data = [1], topic = Waku_Core.pubsub_topic (ShardId_new 1 0)\<rparr>"

lemma ex_relayed_ok:
  "ShardId_parse (topic ex_relayed) = Ok (ShardId_new 1 0)" "decode_message ex_env (data ex_relayed) = Ok (ex_message 1)"
  "clock_ok (now_nanos ex_env)" "fresh_message (now_nanos ex_env) (ex_message 1)"
  "WakuMessage.ephemeral (ex_message 1) \<noteq> Some True" "node_store ex_env \<noteq> None"
  by (simp_all add: ex_relayed_def ex_env_def clock_ok_def fresh_message_def ex_message_def WakuMessage_new_def
      ShardId_parse_pubsub_topic)

end
