(* ===== verification/Rln_Relay.thy ===== *)
theory Rln_Relay
  imports Waku_Prelude "HOL-Library.AList" "HOL-Library.Countable"
begin

text \<open>
  \<open>crates/waku-rln/src/lib.rs\<close>: identities, proofs, the nullifier log, the relay context and the
  validator of inbound proofs. The cryptography is zerokit's: its functions are the fields of
  \<open>Zerokit\<close>, an argument of the definitions, over a type of field elements, of Groth16 proofs, of
  witnesses and of membership trees. \<open>IdSecret\<close> is the field element it dereferences to, and the maps of
  the log are association lists with distinct keys.
\<close>

section \<open>Definitions\<close>

datatype RlnError = Rln string

record 'f RLNProofValues =
  pv_root :: 'f
  pv_x :: 'f
  pv_y :: 'f
  pv_nullifier :: 'f
  pv_external_nullifier :: 'f

record ('f, 'g) RLNProof =
  proof_part :: 'g
  proof_values :: "'f RLNProofValues"

record ('f, 'g, 'w, 't) Zerokit =
  keygen :: "nat \<Rightarrow> 'f \<times> 'f"
  poseidon_hash :: "'f list \<Rightarrow> 'f"
  hash_to_field_le :: "bytes \<Rightarrow> 'f"
  fr_from :: "u64 \<Rightarrow> 'f"
  fr_to_bytes_le :: "'f \<Rightarrow> bytes"
  compute_id_secret :: "'f \<times> 'f \<Rightarrow> 'f \<times> 'f \<Rightarrow> (string, 'f) result"
  rln_proof_to_bytes_le :: "('f, 'g) RLNProof \<Rightarrow> (string, bytes) result"
  bytes_le_to_rln_proof :: "bytes \<Rightarrow> (string, ('f, 'g) RLNProof \<times> nat) result"
  RLN_new :: "(string, 't) result"
  leaves_set :: "'t \<Rightarrow> nat"
  set_next_leaf :: "'f \<Rightarrow> 't \<Rightarrow> (string, unit) result \<times> 't"
  get_root :: "'t \<Rightarrow> 'f"
  get_merkle_proof :: "nat \<Rightarrow> 't \<Rightarrow> (string, 'f list \<times> bytes) result"
  RLNWitnessInput_new :: "'f \<Rightarrow> 'f \<Rightarrow> 'f \<Rightarrow> 'f list \<Rightarrow> bytes \<Rightarrow> 'f \<Rightarrow> 'f \<Rightarrow> (string, 'w) result"
  generate_rln_proof :: "'w \<Rightarrow> 't \<Rightarrow> (string, 'g \<times> 'f RLNProofValues) result"
  verify_with_roots :: "'g \<Rightarrow> 'f RLNProofValues \<Rightarrow> 'f \<Rightarrow> 'f list \<Rightarrow> 't \<Rightarrow> (string, bool) result"

subsection \<open>Identities and proofs\<close>

record 'f RlnIdentity =
  id_secret :: 'f
  id_commitment :: 'f
  user_message_limit :: u64

text \<open>\<open>seed\<close> is the randomness \<open>keygen\<close> draws.\<close>

definition RlnIdentity_generate :: "('f, 'g, 'w, 't) Zerokit \<Rightarrow> nat \<Rightarrow> u64 \<Rightarrow> 'f RlnIdentity" where
  "RlnIdentity_generate zk seed lmt =
     (let (secret, com) = keygen zk seed
      in \<lparr>id_secret = secret, id_commitment = com, user_message_limit = lmt\<rparr>)"

definition RlnIdentity_commitment :: "'f RlnIdentity \<Rightarrow> 'f" where
  "RlnIdentity_commitment idt = id_commitment idt"

definition rate_commitment :: "('f, 'g, 'w, 't) Zerokit \<Rightarrow> 'f RlnIdentity \<Rightarrow> 'f" where
  "rate_commitment zk idt = poseidon_hash zk [id_commitment idt, fr_from zk (user_message_limit idt)]"

record ('f, 'g) RlnProof =
  inner :: "('f, 'g) RLNProof"

definition RlnProof_root :: "('f, 'g) RlnProof \<Rightarrow> 'f" where
  "RlnProof_root p = pv_root (proof_values (inner p))"

definition RlnProof_external_nullifier :: "('f, 'g) RlnProof \<Rightarrow> 'f" where
  "RlnProof_external_nullifier p = pv_external_nullifier (proof_values (inner p))"

definition RlnProof_nullifier :: "('f, 'g) RlnProof \<Rightarrow> 'f" where
  "RlnProof_nullifier p = pv_nullifier (proof_values (inner p))"

definition RlnProof_share :: "('f, 'g) RlnProof \<Rightarrow> 'f \<times> 'f" where
  "RlnProof_share p = (pv_x (proof_values (inner p)), pv_y (proof_values (inner p)))"

definition RlnProof_to_bytes :: "('f, 'g, 'w, 't) Zerokit \<Rightarrow> ('f, 'g) RlnProof \<Rightarrow> (RlnError, bytes) result" where
  "RlnProof_to_bytes zk p = map_err Rln (rln_proof_to_bytes_le zk (inner p))"

definition RlnProof_from_bytes :: "('f, 'g, 'w, 't) Zerokit \<Rightarrow> bytes \<Rightarrow> (RlnError, ('f, 'g) RlnProof) result" where
  "RlnProof_from_bytes zk b =
     bind_result (map_err Rln (bytes_le_to_rln_proof zk b)) (\<lambda>(i, _). Ok \<lparr>inner = i\<rparr>)"

subsection \<open>The nullifier log\<close>

datatype 'f NullifierOutcome =
  FirstSeen
| Duplicate
| DoubleSignaling (recovered_secret: 'f)

type_synonym 'f EpochNullifiers = "(bytes \<times> ('f \<times> 'f)) list"

record 'f NullifierLog =
  seen :: "(bytes \<times> 'f EpochNullifiers) list"

definition NullifierLog_new :: "'f NullifierLog" where
  "NullifierLog_new = \<lparr>seen = []\<rparr>"

text \<open>\<open>self.seen.entry(epoch_key).or_default()\<close>.\<close>

definition bucket_of :: "bytes \<Rightarrow> 'f NullifierLog \<Rightarrow> 'f EpochNullifiers" where
  "bucket_of ek lg = unwrap_or (map_of (seen lg) ek) []"

definition observe ::
  "('f, 'g, 'w, 't) Zerokit \<Rightarrow> ('f, 'g) RlnProof \<Rightarrow> 'f NullifierLog
     \<Rightarrow> (RlnError, 'f NullifierOutcome) result \<times> 'f NullifierLog" where
  "observe zk p lg =
     (let epoch_key = fr_to_bytes_le zk (RlnProof_external_nullifier p);
          nullifier_key = fr_to_bytes_le zk (RlnProof_nullifier p);
          (x, y) = RlnProof_share p;
          bucket = bucket_of epoch_key lg
      in case map_of bucket nullifier_key of
           None \<Rightarrow>
             (Ok FirstSeen, \<lparr>seen = AList.update epoch_key (AList.update nullifier_key (x, y) bucket) (seen lg)\<rparr>)
         | Some (px, py) \<Rightarrow>
             (if px = x \<and> py = y then Ok Duplicate
              else bind_result (map_err Rln (compute_id_secret zk (px, py) (x, y)))
                     (\<lambda>secret. Ok (DoubleSignaling secret)),
              \<lparr>seen = AList.update epoch_key bucket (seen lg)\<rparr>))"

definition forget_epoch :: "('f, 'g, 'w, 't) Zerokit \<Rightarrow> 'f \<Rightarrow> 'f NullifierLog \<Rightarrow> 'f NullifierLog" where
  "forget_epoch zk ext lg = \<lparr>seen = AList.delete (fr_to_bytes_le zk ext) (seen lg)\<rparr>"

definition tracked_epochs :: "'f NullifierLog \<Rightarrow> nat" where
  "tracked_epochs lg = length (seen lg)"

subsection \<open>The relay context\<close>

record ('f, 't) RlnRelay =
  tree :: 't
  rln_identifier :: 'f

definition RlnRelay_new :: "('f, 'g, 'w, 't) Zerokit \<Rightarrow> (RlnError, ('f, 't) RlnRelay) result" where
  "RlnRelay_new zk =
     bind_result (map_err Rln (RLN_new zk)) (\<lambda>t.
       Ok \<lparr>tree = t, rln_identifier = hash_to_field_le zk (as_bytes ''rln-relay-v2'')\<rparr>)"

definition RlnRelay_register ::
  "('f, 'g, 'w, 't) Zerokit \<Rightarrow> 'f RlnIdentity \<Rightarrow> ('f, 't) RlnRelay
     \<Rightarrow> (RlnError, nat) result \<times> ('f, 't) RlnRelay" where
  "RlnRelay_register zk idt rr =
     (let index = leaves_set zk (tree rr);
          (r, t) = set_next_leaf zk (rate_commitment zk idt) (tree rr)
      in (bind_result (map_err Rln r) (\<lambda>_. Ok index), rr\<lparr>tree := t\<rparr>))"

definition RlnRelay_root :: "('f, 'g, 'w, 't) Zerokit \<Rightarrow> ('f, 't) RlnRelay \<Rightarrow> 'f" where
  "RlnRelay_root zk rr = get_root zk (tree rr)"

definition RlnRelay_external_nullifier :: "('f, 'g, 'w, 't) Zerokit \<Rightarrow> ('f, 't) RlnRelay \<Rightarrow> u64 \<Rightarrow> 'f" where
  "RlnRelay_external_nullifier zk rr epoch = poseidon_hash zk [fr_from zk epoch, rln_identifier rr]"

definition RlnRelay_prove ::
  "('f, 'g, 'w, 't) Zerokit \<Rightarrow> ('f, 't) RlnRelay \<Rightarrow> 'f RlnIdentity \<Rightarrow> nat \<Rightarrow> bytes \<Rightarrow> u64 \<Rightarrow> u64
     \<Rightarrow> (RlnError, ('f, 'g) RlnProof) result" where
  "RlnRelay_prove zk rr idt index signal epoch message_id =
     bind_result (map_err Rln (get_merkle_proof zk index (tree rr))) (\<lambda>(path_elements, identity_path_index).
     let x = hash_to_field_le zk signal;
         ext = poseidon_hash zk [fr_from zk epoch, rln_identifier rr]
     in bind_result (map_err Rln (RLNWitnessInput_new zk (id_secret idt)
            (fr_from zk (user_message_limit idt)) (fr_from zk message_id)
            path_elements identity_path_index x ext)) (\<lambda>witness.
        bind_result (map_err Rln (generate_rln_proof zk witness (tree rr))) (\<lambda>(prf, vals).
        Ok \<lparr>inner = \<lparr>proof_part = prf, proof_values = vals\<rparr>\<rparr>)))"

definition RlnRelay_verify ::
  "('f, 'g, 'w, 't) Zerokit \<Rightarrow> ('f, 't) RlnRelay \<Rightarrow> ('f, 'g) RlnProof \<Rightarrow> (RlnError, bool) result" where
  "RlnRelay_verify zk rr p =
     (let roots = [RlnRelay_root zk rr]
      in Ok (unwrap_or (result_ok (verify_with_roots zk (proof_part (inner p)) (proof_values (inner p))
              (pv_x (proof_values (inner p))) roots (tree rr))) False))"

subsection \<open>The validator of inbound proofs\<close>

datatype InboundVerdict = InboundValid (flagged: bool) | InboundInvalid

record ('f, 't) RlnValidator =
  relay_ctx :: "('f, 't) RlnRelay"
  nullifier_log :: "'f NullifierLog"
  epoch_size_secs :: u64

definition RlnValidator_new :: "('f, 't) RlnRelay \<Rightarrow> u64 \<Rightarrow> ('f, 't) RlnValidator" where
  "RlnValidator_new rr secs = \<lparr>relay_ctx = rr, nullifier_log = NullifierLog_new, epoch_size_secs = max secs 1\<rparr>"

definition RlnValidator_register ::
  "('f, 'g, 'w, 't) Zerokit \<Rightarrow> 'f RlnIdentity \<Rightarrow> ('f, 't) RlnValidator
     \<Rightarrow> (RlnError, nat) result \<times> ('f, 't) RlnValidator" where
  "RlnValidator_register zk idt v =
     (let (r, rr) = RlnRelay_register zk idt (relay_ctx v) in (r, v\<lparr>relay_ctx := rr\<rparr>))"

definition epoch_at :: "('f, 't) RlnValidator \<Rightarrow> u64 \<Rightarrow> u64" where
  "epoch_at v now_secs = now_secs div epoch_size_secs v"

definition verify_inbound ::
  "('f, 'g, 'w, 't) Zerokit \<Rightarrow> ('f, 'g) RlnProof \<Rightarrow> bytes \<Rightarrow> u64 \<Rightarrow> ('f, 't) RlnValidator
     \<Rightarrow> InboundVerdict \<times> ('f, 't) RlnValidator" where
  "verify_inbound zk p signal now_secs v =
     (if fst (RlnProof_share p) \<noteq> hash_to_field_le zk signal then (InboundInvalid, v)
      else if \<not> unwrap_or (result_ok (RlnRelay_verify zk (relay_ctx v) p)) False then (InboundInvalid, v)
      else
        let current = epoch_at v now_secs;
            ext = RlnProof_external_nullifier p;
            in_window = (ext = RlnRelay_external_nullifier zk (relay_ctx v) current
              \<or> (current > 0 \<and> ext = RlnRelay_external_nullifier zk (relay_ctx v) (current - 1)))
        in if \<not> in_window then (InboundInvalid, v)
           else
             let (r, lg) = observe zk p (nullifier_log v);
                 double = (case r of Ok (DoubleSignaling _) \<Rightarrow> True | _ \<Rightarrow> False)
             in (InboundValid double, v\<lparr>nullifier_log := lg\<rparr>))"

section \<open>First-write logs\<close>

text \<open>
  What the validator relies on: a log keeps, for every key, the value of the first entry written
  under it.
\<close>

locale first_write_log =
  fixes record_in :: "'p \<Rightarrow> 'l \<Rightarrow> 'l"
    and look :: "'l \<Rightarrow> 'k \<rightharpoonup> 'v"
    and key :: "'p \<Rightarrow> 'k"
    and content :: "'p \<Rightarrow> 'v"
  assumes look_write: "look (record_in p l) k =
    (if k = key p \<and> look l k = None then Some (content p) else look l k)"
begin

lemma look_stable: "look l k = Some v \<Longrightarrow> look (fold record_in ps l) k = Some v"
  by (induction ps arbitrary: l) (simp_all add: look_write)

lemma look_fold:
  "look l k = None \<Longrightarrow> look (fold record_in ps l) k = map_option content (List.find (\<lambda>p. key p = k) ps)"
  by (induction ps arbitrary: l) (simp_all add: look_write look_stable)

end

definition slot_of :: "('f, 'g, 'w, 't) Zerokit \<Rightarrow> ('f, 'g) RlnProof \<Rightarrow> bytes \<times> bytes" where
  "slot_of zk p = (fr_to_bytes_le zk (RlnProof_external_nullifier p), fr_to_bytes_le zk (RlnProof_nullifier p))"

definition share_at :: "'f NullifierLog \<Rightarrow> bytes \<times> bytes \<Rightarrow> ('f \<times> 'f) option" where
  "share_at lg k = map_of (bucket_of (fst k) lg) (snd k)"

lemma bucket_of_update [simp]:
  "bucket_of e \<lparr>seen = AList.update ek b (seen lg)\<rparr> = (if e = ek then b else bucket_of e lg)"
  by (simp add: bucket_of_def update_conv')

lemma share_at_observe:
  "share_at (snd (observe zk p lg)) k =
     (if k = slot_of zk p \<and> share_at lg k = None then Some (RlnProof_share p) else share_at lg k)"
proof -
  obtain x y where sh: "RlnProof_share p = (x, y)" by fastforce
  obtain e n where k: "k = (e, n)" by fastforce
  show ?thesis
  proof (cases "map_of (bucket_of (fr_to_bytes_le zk (RlnProof_external_nullifier p)) lg)
      (fr_to_bytes_le zk (RlnProof_nullifier p))")
    case None
    then show ?thesis
      using sh k by (auto simp: observe_def Let_def slot_of_def update_conv' share_at_def)
  next
    case (Some ps)
    then show ?thesis
      using sh k by (cases ps) (auto simp: observe_def Let_def slot_of_def share_at_def)
  qed
qed

interpretation slots: first_write_log "\<lambda>p lg. snd (observe zk p lg)" share_at "slot_of zk" RlnProof_share
  for zk :: "('f, 'g, 'w, 't) Zerokit"
  by unfold_locales (rule share_at_observe)

lemma share_at_forget: "share_at (forget_epoch zk e lg) (fr_to_bytes_le zk e, n) = None"
  by (simp add: share_at_def forget_epoch_def bucket_of_def delete_conv')

lemma observe_outcome:
  "fst (observe zk p lg) =
     (case share_at lg (slot_of zk p) of
        None \<Rightarrow> Ok FirstSeen
      | Some sh \<Rightarrow>
          if sh = RlnProof_share p then Ok Duplicate
          else bind_result (map_err Rln (compute_id_secret zk sh (RlnProof_share p))) (\<lambda>s. Ok (DoubleSignaling s)))"
  by (cases "RlnProof_share p")
    (auto simp: observe_def Let_def share_at_def slot_of_def split: option.split)

section \<open>Histories\<close>

definition log_after :: "('f, 'g, 'w, 't) Zerokit \<Rightarrow> ('f, 'g) RlnProof list \<Rightarrow> 'f NullifierLog \<Rightarrow> 'f NullifierLog" where
  "log_after zk ps lg = fold (\<lambda>p l. snd (observe zk p l)) ps lg"

datatype ('f, 'g) ValidatorInput =
  Register "'f RlnIdentity"
| Inbound "('f, 'g) RlnProof" bytes u64

text \<open>The inbound messages of a history with their verdicts and the validator that gave them.\<close>

fun verdicts ::
  "('f, 'g, 'w, 't) Zerokit \<Rightarrow> ('f, 'g) ValidatorInput list \<Rightarrow> ('f, 't) RlnValidator
     \<Rightarrow> (('f, 't) RlnValidator \<times> ('f, 'g) RlnProof \<times> bytes \<times> u64 \<times> InboundVerdict) list" where
  "verdicts zk [] v = []"
| "verdicts zk (Register idt # is) v = verdicts zk is (snd (RlnValidator_register zk idt v))"
| "verdicts zk (Inbound p signal now # is) v =
     (case verify_inbound zk p signal now v of
        (r, v') \<Rightarrow> (v, p, signal, now, r) # verdicts zk is v')"

text \<open>zerokit's \<open>compute_id_secret\<close> interpolates the line through two shares with different \<open>x\<close>.\<close>

definition interpolates :: "('f :: field, 'g, 'w, 't) Zerokit \<Rightarrow> bool" where
  "interpolates zk \<longleftrightarrow>
     (\<forall>x1 y1 x2 y2. x1 \<noteq> x2 \<longrightarrow>
        compute_id_secret zk (x1, y1) (x2, y2) = Ok (y1 - x1 * ((y2 - y1) / (x2 - x1))))"

lemma interpolates_line:
  assumes "interpolates zk" "x1 \<noteq> x2"
  shows "compute_id_secret zk (x1, s + a * x1) (x2, s + a * x2) = Ok s"
proof -
  have "(s + a * x2 - (s + a * x1)) / (x2 - x1) = a"
    using assms(2) by (simp add: field_simps)
  moreover have "compute_id_secret zk (x1, s + a * x1) (x2, s + a * x2) =
      Ok (s + a * x1 - x1 * ((s + a * x2 - (s + a * x1)) / (x2 - x1)))"
    using assms unfolding interpolates_def by blast
  ultimately show ?thesis by simp
qed

lemma valid_unflagged:
  assumes "interpolates zk" "verify_inbound zk p signal now v = (InboundValid False, v')"
  shows "hash_to_field_le zk signal = fst (RlnProof_share p)"
    "\<exists>y. share_at (nullifier_log v') (slot_of zk p) = Some (fst (RlnProof_share p), y)"
    "\<forall>sh. share_at (nullifier_log v) (slot_of zk p) = Some sh \<longrightarrow> fst sh = fst (RlnProof_share p)"
proof -
  obtain r lg where o: "observe zk p (nullifier_log v) = (r, lg)" by fastforce
  from assms(2) o show "hash_to_field_le zk signal = fst (RlnProof_share p)"
    by (auto simp: verify_inbound_def Let_def split: if_splits)
  from assms(2) o have v': "nullifier_log v' = lg" and r: "\<forall>s. r \<noteq> Ok (DoubleSignaling s)"
    by (auto simp: verify_inbound_def Let_def split: if_splits)
  have x: "fst sh = fst (RlnProof_share p)" if "share_at (nullifier_log v) (slot_of zk p) = Some sh" for sh
  proof (rule ccontr)
    assume "fst sh \<noteq> fst (RlnProof_share p)"
    then have "\<exists>s. r = Ok (DoubleSignaling s)"
      using assms(1) observe_outcome [of zk p "nullifier_log v"] o that
      by (cases sh, cases "RlnProof_share p") (auto simp: interpolates_def)
    with r show False by blast
  qed
  then show "\<forall>sh. share_at (nullifier_log v) (slot_of zk p) = Some sh \<longrightarrow> fst sh = fst (RlnProof_share p)" by blast
  have "share_at lg (slot_of zk p) = (if share_at (nullifier_log v) (slot_of zk p) = None then Some (RlnProof_share p)
      else share_at (nullifier_log v) (slot_of zk p))"
    using share_at_observe [of zk p "nullifier_log v" "slot_of zk p"] o by simp
  with x v' show "\<exists>y. share_at (nullifier_log v') (slot_of zk p) = Some (fst (RlnProof_share p), y)"
    by (cases "share_at (nullifier_log v) (slot_of zk p)") (auto simp: prod_eq_iff intro: exI [of _ "snd (RlnProof_share p)"])
qed

lemma inbound_keeps:
  "share_at (nullifier_log v) k = Some sh \<Longrightarrow> share_at (nullifier_log (snd (verify_inbound zk p signal now v))) k = Some sh"
  using share_at_observe [of zk p "nullifier_log v" k]
  by (auto simp: verify_inbound_def Let_def split: prod.split)

lemma register_keeps: "nullifier_log (snd (RlnValidator_register zk idt v)) = nullifier_log v"
  by (simp add: RlnValidator_register_def split: prod.split)

lemma later_unflagged:
  assumes "interpolates zk"
  shows "share_at (nullifier_log v) k = Some (x, y) \<Longrightarrow>
    (v', p, signal, now, InboundValid False) \<in> set (verdicts zk is v) \<Longrightarrow> slot_of zk p = k \<Longrightarrow>
    hash_to_field_le zk signal = x"
proof (induction "is" arbitrary: v y)
  case (Cons i "is")
  show ?case
  proof (cases i)
    case (Register idt)
    have "share_at (nullifier_log (snd (RlnValidator_register zk idt v))) k = Some (x, y)"
      using Cons.prems(1) by (simp add: register_keeps)
    from Cons.IH [OF this _ Cons.prems(3)] Cons.prems(2) Register show ?thesis by simp
  next
    case (Inbound q sg t)
    obtain r w where r: "verify_inbound zk q sg t v = (r, w)" by fastforce
    have "share_at (nullifier_log w) k = Some (x, y)"
      using inbound_keeps [OF Cons.prems(1), of zk q sg t] r by simp
    note ih = Cons.IH [OF this _ Cons.prems(3)]
    show ?thesis
    proof (cases "(v', p, signal, now, InboundValid False) \<in> set (verdicts zk is w)")
      case False
      then have "q = p" "sg = signal" "r = InboundValid False"
        using Cons.prems(2) Inbound r by auto
      then show ?thesis
        using valid_unflagged(1,3) [OF assms, of q sg t v w] r Cons.prems by simp
    qed (rule ih)
  qed
qed simp

lemma verdict_split:
  assumes "verdicts zk is v = xs @ (w, p, signal, now, r) # ys"
  shows "\<exists>w' js. verify_inbound zk p signal now w = (r, w') \<and> ys = verdicts zk js w'"
  using assms
proof (induction zk "is" v arbitrary: xs rule: verdicts.induct)
  case (3 zk q sg t "is" v)
  obtain r' v' where "verify_inbound zk q sg t v = (r', v')" by fastforce
  with 3 show ?case by (cases xs) auto
qed auto

text \<open>The messages that arrive.\<close>

definition inbound_signals :: "('f, 'g) ValidatorInput list \<Rightarrow> bytes set" where
  "inbound_signals is = {signal. \<exists>p now. Inbound p signal now \<in> set is}"

lemma verdict_signal: "(w, p, signal, now, r) \<in> set (verdicts zk is v) \<Longrightarrow> signal \<in> inbound_signals is"
proof (induction zk "is" v rule: verdicts.induct)
  case (3 zk q sg t "is" v)
  obtain r' v' where "verify_inbound zk q sg t v = (r', v')" by fastforce
  with 3 show ?case by (auto simp: inbound_signals_def)
qed (auto simp: inbound_signals_def)

section \<open>Properties\<close>

text \<open>C19: The rate limit is enforced: whatever proofs arrive, valid or not, in whatever epochs and while
  members join, two inbound messages that use the same slot of an epoch (the same external and
  internal nullifier) and are both accepted unflagged have the same hash to the field, and are the same
  message unless two of the messages that arrive collide under that hash. Each accepted proof binds to
  the hash of its message, verifies against the membership root at that moment and is of the current
  or the previous epoch.\<close>

theorem slot_admits_one_message:
  assumes "interpolates zk"
    and "verdicts zk is v = xs @ (v1, p, sig1, now1, InboundValid False) # ys"
  shows "hash_to_field_le zk sig1 = fst (RlnProof_share p)
    \<and> RlnRelay_verify zk (relay_ctx v1) p = Ok True
    \<and> (\<exists>e. RlnProof_external_nullifier p = RlnRelay_external_nullifier zk (relay_ctx v1) e
          \<and> (e = epoch_at v1 now1 \<or> 0 < epoch_at v1 now1 \<and> e = epoch_at v1 now1 - 1))
    \<and> (\<forall>v2 q sig2 now2. (v2, q, sig2, now2, InboundValid False) \<in> set ys
          \<and> RlnProof_external_nullifier q = RlnProof_external_nullifier p
          \<and> RlnProof_nullifier q = RlnProof_nullifier p
          \<longrightarrow> hash_to_field_le zk sig2 = hash_to_field_le zk sig1
            \<and> (inj_on (hash_to_field_le zk) (inbound_signals is) \<longrightarrow> sig2 = sig1))"
proof -
  obtain w js where w: "verify_inbound zk p sig1 now1 v1 = (InboundValid False, w)" and ys: "ys = verdicts zk js w"
    using verdict_split [OF assms(2)] by blast
  have b: "hash_to_field_le zk sig1 = fst (RlnProof_share p)" by (rule valid_unflagged(1) [OF assms(1) w])
  obtain y where sh: "share_at (nullifier_log w) (slot_of zk p) = Some (fst (RlnProof_share p), y)"
    using valid_unflagged(2) [OF assms(1) w] by blast
  have "RlnRelay_verify zk (relay_ctx v1) p = Ok True"
    using w by (auto simp: verify_inbound_def RlnRelay_verify_def split: if_splits)
  moreover have "\<exists>e. RlnProof_external_nullifier p = RlnRelay_external_nullifier zk (relay_ctx v1) e
      \<and> (e = epoch_at v1 now1 \<or> 0 < epoch_at v1 now1 \<and> e = epoch_at v1 now1 - 1)"
    using w by (force simp: verify_inbound_def Let_def split: if_splits)
  moreover have "hash_to_field_le zk sig2 = hash_to_field_le zk sig1
      \<and> (inj_on (hash_to_field_le zk) (inbound_signals is) \<longrightarrow> sig2 = sig1)"
    if m: "(v2, q, sig2, now2, InboundValid False) \<in> set ys"
      and "RlnProof_external_nullifier q = RlnProof_external_nullifier p" "RlnProof_nullifier q = RlnProof_nullifier p"
    for v2 q sig2 now2
  proof -
    have slot: "slot_of zk q = slot_of zk p" using that by (simp add: slot_of_def)
    have h: "hash_to_field_le zk sig2 = hash_to_field_le zk sig1"
      using later_unflagged [OF assms(1) sh _ slot] m ys b by simp
    have "sig1 \<in> inbound_signals is" by (rule verdict_signal [of v1 p _ now1 "InboundValid False" zk _ v]) (simp add: assms(2))
    moreover have "sig2 \<in> inbound_signals is"
      by (rule verdict_signal [of v2 q _ now2 "InboundValid False" zk _ v]) (simp add: assms(2) m)
    ultimately show ?thesis using h by (auto dest: inj_onD)
  qed
  ultimately show ?thesis using b by blast
qed

text \<open>C20: Double signalling is detected and punished: after any proofs observed since an epoch was
  forgotten, a proof of that epoch is new, a replay or a double signal exactly as the first proof of
  its slot says, and when the shares of the slot lie on one line, as those of one member do, the
  secret recovered is that member's.\<close>

theorem double_signal_recovers_secret:
  assumes "interpolates zk" "inj (fr_to_bytes_le zk)"
    and "\<forall>q \<in> set (p # ps). RlnProof_external_nullifier q = e \<and> RlnProof_nullifier q = n \<longrightarrow>
      snd (RlnProof_share q) = s + a * fst (RlnProof_share q)"
    and "RlnProof_external_nullifier p = e" "RlnProof_nullifier p = n"
  shows "fst (observe zk p (log_after zk ps (forget_epoch zk e lg))) =
    (case List.find (\<lambda>q. RlnProof_external_nullifier q = e \<and> RlnProof_nullifier q = n) ps of
       None \<Rightarrow> Ok FirstSeen
     | Some q \<Rightarrow>
         if fst (RlnProof_share q) = fst (RlnProof_share p) then Ok Duplicate else Ok (DoubleSignaling s))"
proof -
  let ?P = "\<lambda>q. RlnProof_external_nullifier q = e \<and> RlnProof_nullifier q = n"
  have slot: "slot_of zk q = slot_of zk p \<longleftrightarrow> ?P q" for q
    using assms(2,4,5) by (auto simp: slot_of_def inj_eq)
  have look: "share_at (log_after zk ps (forget_epoch zk e lg)) (slot_of zk p) =
      map_option RlnProof_share (List.find ?P ps)"
  proof -
    have "share_at (forget_epoch zk e lg) (slot_of zk p) = None"
      using assms(4) by (simp add: slot_of_def share_at_forget)
    then show ?thesis unfolding log_after_def by (simp only: slots.look_fold slot)
  qed
  show ?thesis
  proof (cases "List.find ?P ps")
    case None
    with look show ?thesis by (simp add: observe_outcome)
  next
    case (Some q)
    then have "q \<in> set ps" "?P q" by (auto simp: find_Some_iff)
    with assms(3-5) have q: "RlnProof_share q = (fst (RlnProof_share q), s + a * fst (RlnProof_share q))"
      and p: "RlnProof_share p = (fst (RlnProof_share p), s + a * fst (RlnProof_share p))"
      by (simp_all add: prod_eq_iff)
    have "RlnProof_share q = RlnProof_share p \<longleftrightarrow> fst (RlnProof_share q) = fst (RlnProof_share p)"
      by (subst q, subst p) auto
    moreover have "fst (RlnProof_share q) \<noteq> fst (RlnProof_share p) \<Longrightarrow>
        compute_id_secret zk (RlnProof_share q) (RlnProof_share p) = Ok s"
      by (subst q, subst p) (rule interpolates_line [OF assms(1)])
    ultimately show ?thesis using Some look by (simp add: observe_outcome)
  qed
qed

section \<open>A concrete instance\<close>

text \<open>Rational numbers as the field; the hash is the length and every proof verifies.\<close>

definition ex_zerokit :: "(rat, unit, unit, nat) Zerokit" where
  "ex_zerokit =
     \<lparr>keygen = (\<lambda>seed. (of_nat seed, of_nat seed + 1)), poseidon_hash = sum_list,
      hash_to_field_le = (\<lambda>b. of_nat (length b)), fr_from = (\<lambda>w. of_nat (unat w)),
      fr_to_bytes_le = (\<lambda>r. replicate (to_nat r) 0),
      compute_id_secret = (\<lambda>(x1, y1) (x2, y2).
        if x1 = x2 then Err ''division by zero'' else Ok (y1 - x1 * ((y2 - y1) / (x2 - x1)))),
      rln_proof_to_bytes_le = (\<lambda>_. Ok []), bytes_le_to_rln_proof = (\<lambda>_. Err ''unsupported''),
      RLN_new = Ok 0, leaves_set = id, set_next_leaf = (\<lambda>_ t. (Ok (), Suc t)), get_root = of_nat,
      get_merkle_proof = (\<lambda>_ _. Ok ([], [])), RLNWitnessInput_new = (\<lambda>_ _ _ _ _ _ _. Ok ()),
      generate_rln_proof = (\<lambda>_ _. Err ''unsupported''), verify_with_roots = (\<lambda>_ _ _ _ _. Ok True)\<rparr>"

definition ex_proof :: "rat \<Rightarrow> (rat, unit) RlnProof" where
  "ex_proof x = \<lparr>inner = \<lparr>proof_part = (), proof_values =
     \<lparr>pv_root = 0, pv_x = x, pv_y = 9 + 2 * x, pv_nullifier = 4, pv_external_nullifier = 6\<rparr>\<rparr>\<rparr>"

definition ex_validator :: "(rat, nat) RlnValidator" where
  "ex_validator = RlnValidator_new \<lparr>tree = 0, rln_identifier = 5\<rparr> 600"

lemma ex_interpolates: "interpolates ex_zerokit"
  by (simp add: interpolates_def ex_zerokit_def)

lemma ex_inj: "inj (fr_to_bytes_le ex_zerokit)"
proof (rule injI)
  fix r q
  assume "fr_to_bytes_le ex_zerokit r = fr_to_bytes_le ex_zerokit q"
  then have "to_nat r = to_nat q" by (simp add: ex_zerokit_def replicate_eq_replicate)
  then show "r = q" by simp
qed

abbreviation ex_inbound :: "(rat, unit) ValidatorInput list" where
  "ex_inbound \<equiv> [Inbound (ex_proof 1) [7] 700, Inbound (ex_proof 1) [7] 700, Inbound (ex_proof 2) [7, 8] 700]"

theorem slot_admits_one_message_witness:
  "map (\<lambda>(_, _, _, _, r). r) (verdicts ex_zerokit ex_inbound ex_validator) =
     [InboundValid False, InboundValid False, InboundValid True]
   \<and> {sig2. \<exists>v2 q now2. (v2, q, sig2, now2, InboundValid False) \<in> set (tl (verdicts ex_zerokit ex_inbound ex_validator))
        \<and> RlnProof_external_nullifier q = 6 \<and> RlnProof_nullifier q = 4} \<subseteq> {[7]}"
proof -
  have e: "(700 :: 64 word) div 600 = 1" by simp
  note defs = verify_inbound_def ex_proof_def ex_validator_def RlnValidator_new_def ex_zerokit_def
    RlnProof_share_def RlnRelay_verify_def epoch_at_def RlnProof_external_nullifier_def
    RlnRelay_external_nullifier_def Let_def observe_def RlnProof_nullifier_def NullifierLog_new_def bucket_of_def
  define w where "w = ex_validator\<lparr>nullifier_log :=
    \<lparr>seen = [(replicate (to_nat (6 :: rat)) 0, [(replicate (to_nat (4 :: rat)) 0, (1, 11))])]\<rparr>\<rparr>"
  have v1: "verify_inbound ex_zerokit (ex_proof 1) [7] 700 ex_validator = (InboundValid False, w)"
    using e by (simp add: w_def defs)
  have v2: "verify_inbound ex_zerokit (ex_proof 1) [7] 700 w = (InboundValid False, w)"
    using e by (simp add: w_def defs)
  have "fst (verify_inbound ex_zerokit (ex_proof 2) [7, 8] 700 w) = InboundValid True"
    using e by (simp add: w_def defs)
  then obtain v3 where v3: "verify_inbound ex_zerokit (ex_proof 2) [7, 8] 700 w = (InboundValid True, v3)"
    by (metis prod.collapse)
  have v: "verdicts ex_zerokit ex_inbound ex_validator =
      [] @ (ex_validator, ex_proof 1, [7], 700, InboundValid False)
        # [(w, ex_proof 1, [7], 700, InboundValid False), (w, ex_proof 2, [7, 8], 700, InboundValid True)]"
    using v1 v2 v3 by simp
  have "inbound_signals ex_inbound = {[7], [7, 8]}" by (auto simp: inbound_signals_def)
  then have "inj_on (hash_to_field_le ex_zerokit) (inbound_signals ex_inbound)"
    by (simp add: inj_on_def ex_zerokit_def)
  moreover have "RlnProof_external_nullifier (ex_proof 1) = 6" "RlnProof_nullifier (ex_proof 1) = 4"
    by (simp_all add: ex_proof_def RlnProof_external_nullifier_def RlnProof_nullifier_def)
  ultimately have "{sig2. \<exists>v2 q now2. (v2, q, sig2, now2, InboundValid False) \<in> set (tl (verdicts ex_zerokit ex_inbound ex_validator))
        \<and> RlnProof_external_nullifier q = 6 \<and> RlnProof_nullifier q = 4} \<subseteq> {[7]}"
    using slot_admits_one_message [OF ex_interpolates v] unfolding v by (simp del: set_simps) blast
  with v show ?thesis by simp
qed

theorem double_signal_recovers_secret_witness:
  "fst (observe ex_zerokit (ex_proof 2)
     (log_after ex_zerokit [ex_proof 1, ex_proof 3] (forget_epoch ex_zerokit 6 NullifierLog_new))) =
   Ok (DoubleSignaling 9)"
  using double_signal_recovers_secret [OF ex_interpolates ex_inj, of "ex_proof 2" "[ex_proof 1, ex_proof 3]" 6 4 9 2
      NullifierLog_new]
  by (simp add: ex_proof_def RlnProof_external_nullifier_def RlnProof_nullifier_def RlnProof_share_def)

end
