(* ===== verification/Waku_Network.thy ===== *)
theory Waku_Network
  imports Node_Runs
begin

text \<open>
  Nodes that talk to each other. Every node runs the driver of \<open>crates/waku-node/src/runtime.rs\<close>
  (\<open>run_step\<close>); a trace is the sequence of their steps in any interleaving, each with the environment,
  the input and the effects of the step. What libp2p promises is the guard \<open>delivered\<close> of the step
  rule: connections are authenticated, so a request or a response that arrives from an honest peer was
  sent by that peer, and a response belongs to the request whose id it carries. Nothing else is assumed:
  messages may be lost, delayed, reordered and repeated, requests may fail at any time, and the peers
  that are not honest send anything.
\<close>

section \<open>Traces\<close>

record ('p, 'e) Step =
  who :: 'p
  step_env :: "'e NodeEnv"
  step_input :: "'p Input"
  effects :: "'p Effect list"

abbreviation inputs_of :: "'p \<Rightarrow> ('p, 'e) Step list \<Rightarrow> ('e NodeEnv \<times> 'p Input) list" where
  "inputs_of a tr \<equiv> map (\<lambda>s. (step_env s, step_input s)) (filter (\<lambda>s. who s = a) tr)"

text \<open>Peer \<open>p\<close> did the effect \<open>f\<close>, or did it on the input \<open>inp\<close>.\<close>

definition did :: "('p, 'e) Step list \<Rightarrow> 'p \<Rightarrow> 'p Effect \<Rightarrow> bool" where
  "did tr p f \<longleftrightarrow> (\<exists>s \<in> set tr. who s = p \<and> f \<in> set (effects s))"

definition did_on :: "('p, 'e) Step list \<Rightarrow> 'p \<Rightarrow> 'p SwarmEvent \<Rightarrow> 'p Effect \<Rightarrow> bool" where
  "did_on tr p ev f \<longleftrightarrow> (\<exists>s \<in> set tr. who s = p \<and> step_input s = Ev ev \<and> f \<in> set (effects s))"

text \<open>Peer \<open>a\<close> sent the command \<open>cmd\<close> as the request with id \<open>i\<close>.\<close>

definition asked :: "('p, 'e) Step list \<Rightarrow> 'p \<Rightarrow> nat \<Rightarrow> 'p Command \<Rightarrow> bool" where
  "asked tr a i cmd \<longleftrightarrow> (\<exists>s \<in> set tr. who s = a \<and> fresh_id (step_env s) = i \<and> step_input s = Cmd cmd)"

definition delivered_event :: "'p set \<Rightarrow> ('p, 'e) Step list \<Rightarrow> 'p \<Rightarrow> 'p SwarmEvent \<Rightarrow> bool" where
  "delivered_event honest tr a ev =
     (case ev of
        MetadataRequest p ch md \<Rightarrow> p \<in> honest \<longrightarrow> did tr p (SendMetadata a md)
      | MetadataResponse p md \<Rightarrow>
          p \<in> honest \<longrightarrow> (\<exists>ch md'. did_on tr p (MetadataRequest a ch md') (RespondMetadata ch md))
      | StoreRequest p ch req \<Rightarrow> p \<in> honest \<longrightarrow> did tr p (SendStore a req)
      | StoreResponse i resp \<Rightarrow>
          \<forall>p req c. asked tr a i (CmdStoreQuery p req c) \<and> p \<in> honest \<longrightarrow>
            (\<exists>ch. did_on tr p (StoreRequest a ch req) (RespondStore ch resp))
      | LightpushReq p ch req \<Rightarrow> p \<in> honest \<longrightarrow> did tr p (SendLightpush a req)
      | LightpushResp i resp \<Rightarrow>
          \<forall>p req c. asked tr a i (CmdLightPush p req c) \<and> p \<in> honest \<longrightarrow>
            (\<exists>ch. did_on tr p (LightpushReq a ch req) (RespondLightpush ch resp))
      | PxRequest p ch rpc \<Rightarrow> p \<in> honest \<longrightarrow> did tr p (SendPx a rpc)
      | PxResponse i rpc \<Rightarrow>
          \<forall>p n c. asked tr a i (CmdPeerExchange p n c) \<and> p \<in> honest \<longrightarrow>
            (\<exists>ch. did_on tr p (PxRequest a ch (PeerExchangeRpc_query n)) (RespondPx ch rpc))
      | FilterRequest p ch req \<Rightarrow> p \<in> honest \<longrightarrow> did tr p (SendFilter a req)
      | FilterResponse i resp \<Rightarrow>
          \<forall>p req c. asked tr a i (CmdFilterSubscribe p req c) \<and> p \<in> honest \<longrightarrow>
            (\<exists>ch. did_on tr p (FilterRequest a ch req) (RespondFilter ch resp))
      | FilterPushRequest p ch push \<Rightarrow> p \<in> honest \<longrightarrow> did tr p (SendPush a push)
      | _ \<Rightarrow> True)"

definition delivered :: "'p set \<Rightarrow> ('p, 'e) Step list \<Rightarrow> 'p \<Rightarrow> 'p Input \<Rightarrow> bool" where
  "delivered honest tr a inp = (case inp of Ev ev \<Rightarrow> delivered_event honest tr a ev | _ \<Rightarrow> True)"

text \<open>
  The states the nodes can reach together with the trace: a node that has stopped has no state. The
  rule \<open>learn\<close> is the discovery task of a node, which shares the peer book with the driver.
\<close>

inductive network ::
  "(rat \<Rightarrow> rat) \<Rightarrow> ('e \<Rightarrow> 'n) \<Rightarrow> 'p set \<Rightarrow> ('p \<Rightarrow> ('p, 'e) NodeState option) \<Rightarrow> ('p, 'e) Step list \<Rightarrow> bool"
  for rnd :: "rat \<Rightarrow> rat" and node_id :: "'e \<Rightarrow> 'n" and honest :: "'p set" where
  start: "network rnd node_id honest (\<lambda>_. Some (NodeState_init rnd)) []"
| step: "network rnd node_id honest S tr \<Longrightarrow> S a = Some st \<Longrightarrow> delivered honest tr a inp \<Longrightarrow>
    run_step env inp st = (ok, st', fx) \<Longrightarrow>
    network rnd node_id honest (S(a := if ok then Some st' else None))
      (tr @ [\<lparr>who = a, step_env = env, step_input = inp, effects = fx\<rparr>])"
| learn: "network rnd node_id honest S tr \<Longrightarrow> S a = Some st \<Longrightarrow>
    network rnd node_id honest (S(a := Some (st\<lparr>known_enrs := remember_enr node_id e (known_enrs st)\<rparr>))) tr"

section \<open>Every step of a trace\<close>

text \<open>A step happened in a state the nodes had reached by the steps before it.\<close>

lemma network_split:
  assumes "network rnd node_id honest S tr" "s \<in> set tr"
  obtains S1 tr1 tr2 st where "tr = tr1 @ s # tr2" "network rnd node_id honest S1 tr1" "S1 (who s) = Some st"
    "delivered honest tr1 (who s) (step_input s)"
    "effects s = snd (driver_step (step_env s, step_input s) st)"
  using assms
proof (induction arbitrary: thesis rule: network.induct)
  case (step S tr a st inp env ok st' fx)
  show ?case
  proof (cases "s \<in> set tr")
    case True
    then obtain S1 tr1 tr2 st1 where "tr = tr1 @ s # tr2" "network rnd node_id honest S1 tr1" "S1 (who s) = Some st1"
      "delivered honest tr1 (who s) (step_input s)" "effects s = snd (driver_step (step_env s, step_input s) st1)"
      using step.IH by blast
    then show ?thesis by (intro step.prems(1) [of tr1 _ S1 st1]) simp_all
  next
    case False
    with step.prems(2) have "s = \<lparr>who = a, step_env = env, step_input = inp, effects = fx\<rparr>" by simp
    with step.hyps show ?thesis by (intro step.prems(1) [of tr "[]" S st]) (simp_all add: driver_step_def)
  qed
next
  case (learn S tr a st e)
  then show ?case by blast
qed simp

text \<open>An entry of a pending table was made by a request of the node.\<close>

lemma network_table:
  assumes step: "\<And>i s r c. table (fst (driver_step i s)) r = Some c \<Longrightarrow> opens i = Some (r, c) \<or> table s r = Some c"
    and init: "table (NodeState_init rnd) = Map.empty"
    and book: "\<And>st f. table (st\<lparr>known_enrs := f\<rparr>) = table st"
    and "network rnd node_id honest S tr" "S a = Some st" "table st r = Some c"
  shows "\<exists>s \<in> set tr. who s = a \<and> opens (step_env s, step_input s) = Some (r, c)"
  using assms(4-)
proof (induction arbitrary: a st r c rule: network.induct)
  case start
  then show ?case using init by simp
next
  case (step S tr b st0 inp env ok st' fx)
  show ?case
  proof (cases "a = b")
    case True
    then have "fst (driver_step (env, inp) st0) = st" using step by (auto simp: driver_step_def split: if_splits)
    then have "opens (env, inp) = Some (r, c) \<or> table st0 r = Some c" using assms(1) step.prems(2) by metis
    with step.IH [OF step.hyps(2)] True show ?thesis by auto
  next
    case False
    with step.IH [of a st r c] step.prems show ?thesis by auto
  qed
next
  case (learn S tr b st0 e)
  then show ?case using book by (cases "a = b") auto
qed

lemma request_answered:
  assumes "request_table driver_step table opens resolves answers"
    and "table (NodeState_init rnd) = Map.empty" "\<And>st f. table (st\<lparr>known_enrs := f\<rparr>) = table st"
    and net: "network rnd node_id honest S tr" "s \<in> set tr" "f \<in> set (effects s)" "answers f = Some (c, x)"
  shows "\<exists>tr1 tr2 i s'. tr = tr1 @ s # tr2 \<and> delivered honest tr1 (who s) (step_input s)
    \<and> resolves (step_env s, step_input s) = Some (i, x)
    \<and> s' \<in> set tr1 \<and> who s' = who s \<and> opens (step_env s', step_input s') = Some (i, c)"
proof -
  obtain S1 tr1 tr2 st where *: "tr = tr1 @ s # tr2" "network rnd node_id honest S1 tr1" "S1 (who s) = Some st"
    "delivered honest tr1 (who s) (step_input s)" "effects s = snd (driver_step (step_env s, step_input s) st)"
    using net(1,2) by (rule network_split)
  have "f \<in> set (snd (driver_step (step_env s, step_input s) st))" using net(3) *(5) by simp
  then obtain i where i: "resolves (step_env s, step_input s) = Some (i, x)" "table st i = Some c"
    using request_table.answer_source [OF assms(1) _ net(4)] by blast
  have "\<exists>s' \<in> set tr1. who s' = who s \<and> opens (step_env s', step_input s') = Some (i, c)"
    by (rule network_table [where table = table, OF _ assms(2,3) *(2,3) i(2)])
      (rule request_table.table_entry [OF assms(1)])
  with * i show ?thesis by blast
qed

text \<open>
  From the reply of a caller back to the step in which the peer answered: \<open>cmd\<close> is the command that sends
  the request, \<open>resp_ev\<close> the event of its response, and \<open>req_ev\<close> and \<open>resp_fx\<close> are the request and the response
  at the peer.
\<close>

lemma reply_traced:
  fixes S :: "'p \<Rightarrow> ('p, 'e) NodeState option" and opens :: "'e NodeEnv \<times> 'p Input \<Rightarrow> (nat \<times> nat) option"
    and resolves :: "'e NodeEnv \<times> 'p Input \<Rightarrow> (nat \<times> 'x) option" and tr :: "('p, 'e) Step list"
  assumes "request_table driver_step table opens resolves answers"
    and "table (NodeState_init rnd) = Map.empty" "\<And>st f. table (st\<lparr>known_enrs := f\<rparr>) = table st"
    and "network rnd node_id honest S tr" "did tr a f" "answers f = Some (c, x)"
    and resolves: "\<And>env inp i. resolves (env, inp) = Some (i, x) \<Longrightarrow> inp = Ev (resp_ev i)"
    and opens: "\<And>env inp i. opens (env, inp) = Some (i, c) \<Longrightarrow>
      \<exists>b req. inp = Cmd (cmd b req c) \<and> fresh_id env = i"
    and only: "\<forall>b' req' i. asked tr a i (cmd b' req' c) \<longrightarrow> b' = b \<and> req' = req"
    and peer: "\<And>(tr1 :: ('p, 'e) Step list) i. delivered_event honest tr1 a (resp_ev i) \<Longrightarrow> asked tr1 a i (cmd b req c) \<Longrightarrow>
      \<exists>ch. did_on tr1 b (req_ev ch) (resp_fx ch)"
  shows "\<exists>s \<in> set tr. \<exists>ch S1 tr1 st. who s = b \<and> step_input s = Ev (req_ev ch)
    \<and> network rnd node_id honest S1 tr1 \<and> S1 b = Some st
    \<and> effects s = snd (driver_step (step_env s, Ev (req_ev ch)) st) \<and> resp_fx ch \<in> set (effects s)"
proof -
  obtain s where s: "s \<in> set tr" "who s = a" "f \<in> set (effects s)" using assms(5) by (auto simp: did_def)
  obtain tr1 tr2 i s' where *: "tr = tr1 @ s # tr2" "delivered honest tr1 a (step_input s)"
    "resolves (step_env s, step_input s) = Some (i, x)" "s' \<in> set tr1" "who s' = a"
    "opens (step_env s', step_input s') = Some (i, c)"
    using request_answered [OF assms(1-4) s(1,3) assms(6)] s(2) by auto
  obtain b' req' where "step_input s' = Cmd (cmd b' req' c)" "fresh_id (step_env s') = i"
    using opens [OF *(6)] by blast
  then have asked: "asked tr1 a i (cmd b' req' c)" using *(4,5) by (auto simp: asked_def)
  then have "b' = b" "req' = req" using only *(1) by (auto simp: asked_def)
  then obtain ch where "did_on tr1 b (req_ev ch) (resp_fx ch)"
    using peer [of tr1 i] asked *(2) resolves [OF *(3)] by (auto simp: delivered_def)
  then obtain t where t: "t \<in> set tr" "who t = b" "step_input t = Ev (req_ev ch)" "resp_fx ch \<in> set (effects t)"
    using *(1) by (auto simp: did_on_def)
  obtain S1 tr3 st where "network rnd node_id honest S1 tr3" "S1 (who t) = Some st"
    "effects t = snd (driver_step (step_env t, step_input t) st)"
    using network_split [OF assms(4) t(1)] by metis
  with t show ?thesis by (intro bexI [OF _ t(1)]) auto
qed

lemmas store_traced = reply_traced [OF store_requests.request_table_axioms]
lemmas lightpush_traced = reply_traced [OF lightpush_requests.request_table_axioms]
lemmas px_traced = reply_traced [OF px_requests.request_table_axioms]

section \<open>What the handlers answer\<close>

lemma respond_store:
  "RespondStore ch resp \<in> set (snd (driver_step (env, Ev (StoreRequest p ch req)) st)) \<Longrightarrow>
   resp = store_error_response (StoreQueryRequest.request_id req) 429 ''rate limited''
   \<or> resp = (case node_store env of
         Some f \<Rightarrow> serve f req
       | None \<Rightarrow> store_error_response (StoreQueryRequest.request_id req) 503 ''store not enabled'')"
  by (auto simp: driver_step_def run_step_def handle_event_def on_store_request_def Let_def
      split: prod.splits if_splits)

lemma respond_lightpush:
  assumes "RespondLightpush ch resp \<in> set (snd (driver_step (env, Ev (LightpushReq p ch req)) st))"
    "LightpushResponse.status_code resp = 200" "LightpushRequest.message req = Some m"
  shows "GossipPublish (LightpushRequest.pubsub_topic req) (encode_message env m)
      \<in> set (snd (driver_step (env, Ev (LightpushReq p ch req)) st))
    \<and> (\<exists>mid. gossip_publish env (LightpushRequest.pubsub_topic req) (encode_message env m) = Ok mid)
    \<and> relay_peer_count resp = word_of_nat (mesh_peers env (LightpushRequest.pubsub_topic req))"
  using assms
  by (auto simp: driver_step_def run_step_def handle_event_def on_lightpush_request_def serve_lightpush_def Let_def
      LightpushResponse_ok_def LightpushResponse_error_def split: prod.splits if_splits sum.splits)

lemma respond_px:
  "RespondPx ch rpc \<in> set (snd (driver_step (env, Ev (PxRequest p ch (PeerExchangeRpc_query n))) st)) \<Longrightarrow>
   enrs rpc = map (enr_to_bytes env) (take (unat n) (known_enrs st))"
  by (auto simp: driver_step_def run_step_def handle_event_def on_px_request_def Let_def requested_def enrs_def
      PeerExchangeRpc_query_def PeerExchangeRpc_response_def comp_def)

lemmas handler_defs = driver_step_def run_step_def handle_event_def handle_command_def emit_def resolved_defs
  on_new_listen_addr_def on_connection_established_def on_connection_closed_def on_relay_message_def
  handle_metadata_request_def handle_metadata_response_def on_store_request_def on_lightpush_request_def
  serve_lightpush_def on_px_request_def on_filter_request_def on_filter_push_def Let_def

lemmas input_splits = Input.splits Command.splits SwarmEvent.splits prod.splits option.splits sum.splits if_splits

lemma push_source:
  assumes "SendPush p push \<in> set (snd (driver_step i st))"
  shows "\<exists>src mid gm sid m. snd i = Ev (RelayMessage src mid gm) \<and> ShardId_parse (topic gm) = Ok sid
    \<and> decode_message (fst i) (data gm) = Ok m \<and> relay_verdict (now_nanos (fst i)) m = Accept
    \<and> (p, push) \<in> set (fst (push_filter_matches (filters st) (topic gm) m))"
  using assms by (auto simp: handler_defs split: input_splits)

lemma push_member:
  assumes "(p, push) \<in> set (fst (push_filter_matches (registry_after rs) tp m))"
  shows "push = \<lparr>waku_message = Some m, MessagePush.pubsub_topic = Some tp\<rparr>
    \<and> (\<exists>sub \<in> set (client_subs p rs). FilterSub_matches sub tp (WakuMessage.content_topic m))"
proof -
  obtain ps n where ps: "push_filter_matches (registry_after rs) tp m = (ps, n)" by fastforce
  let ?X = "\<lparr>waku_message = Some m, MessagePush.pubsub_topic = Some tp\<rparr>"
  let ?P = "\<lambda>p. \<exists>sub \<in> set (client_subs p rs). FilterSub_matches sub tp (WakuMessage.content_topic m)"
  have e: "set (map fst ps) = {p. ?P p}" "map snd ps = replicate n ?X"
    using filter_push_exact [of rs tp m] unfolding ps by simp_all
  have p: "p \<in> set (map fst ps)" "push \<in> set (map snd ps)" using assms ps by force+
  have "?P p" using p(1) unfolding e by (rule CollectD)
  moreover have "push = ?X" using p(2) unfolding e(2) by (simp add: set_replicate_conv_if split: if_splits)
  ultimately show ?thesis by (rule conjI [rotated])
qed

lemma mismatch_source:
  "Emit (MetadataMismatch p x) \<in> set (snd (driver_step i st)) \<Longrightarrow> \<exists>md. snd i = Ev (MetadataResponse p md)"
  by (auto simp: handler_defs split: input_splits)

lemma known_enrs_driver_step: "known_enrs (fst (driver_step i st)) = known_enrs st"
  by (auto simp: handler_defs split: input_splits)

section \<open>Invariants of the nodes\<close>

lemma network_filters:
  assumes "network rnd node_id honest S tr" "S a = Some st"
  shows "filters st = registry_after (List.map_filter filter_request_of (inputs_of a tr))"
  using assms
proof (induction arbitrary: a st rule: network.induct)
  case start
  then show ?case by (auto simp: NodeState_init_def registry_after_def List.map_filter_simps)
next
  case (step S tr b st0 inp env ok st' fx)
  have "filters st' = (case filter_request_of (env, inp) of
      Some (p, req) \<Rightarrow> snd (apply_filter_request p req (filters st0)) | None \<Rightarrow> filters st0)"
    using filters_driver_step [of "(env, inp)" st0] step.hyps(4) by (simp add: driver_step_def)
  with step.IH [of a] step.IH [OF step.hyps(2)] step.prems show ?case
    by (auto simp: List.map_filter_simps split: if_splits option.splits)
next
  case (learn S tr b st0 e)
  from learn.IH [of a] learn.IH [OF learn.hyps(2)] learn.prems show ?case by (auto split: if_splits)
qed

lemma filter_request_sent:
  assumes "network rnd node_id honest S tr" "a \<in> honest"
    and "(a, req) \<in> set (List.map_filter filter_request_of (inputs_of b tr))"
  shows "did tr a (SendFilter b req)"
proof -
  obtain s where s: "s \<in> set tr" "who s = b" "filter_request_of (step_env s, step_input s) = Some (a, req)"
    using assms(3) by (fastforce simp only: set_map_filter set_map set_filter)
  then obtain ch where ch: "step_input s = Ev (FilterRequest a ch req)"
    by (auto simp: filter_request_of_def split: Input.splits SwarmEvent.splits)
  obtain tr1 tr2 where "tr = tr1 @ s # tr2" "delivered honest tr1 (who s) (step_input s)"
    using network_split [OF assms(1) s(1)] by metis
  then have "did tr1 a (SendFilter b req)" "set tr1 \<subseteq> set tr"
    using s(2) ch assms(2) by (auto simp: delivered_def delivered_event_def)
  then show ?thesis by (auto simp: did_def)
qed

section \<open>Histories\<close>

text \<open>
  A run of the nodes with what their discovery tasks learnt. \<open>history\<close> is \<open>network\<close> with the records learnt
  between the steps: every history is a run of the network with its steps as the trace, and every run has
  a history.
\<close>

datatype ('p, 'e) Happening = Stepped "('p, 'e) Step" | Learnt 'p 'e

definition steps_of :: "('p, 'e) Happening list \<Rightarrow> ('p, 'e) Step list" where
  "steps_of hs = List.map_filter (\<lambda>h. case h of Stepped s \<Rightarrow> Some s | Learnt _ _ \<Rightarrow> None) hs"

definition learnt_by :: "'p \<Rightarrow> ('p, 'e) Happening list \<Rightarrow> 'e list" where
  "learnt_by a hs = List.map_filter (\<lambda>h. case h of Learnt b e \<Rightarrow> if b = a then Some e else None | Stepped _ \<Rightarrow> None) hs"

lemma steps_of_simps [simp]:
  "steps_of [] = []" "steps_of (hs @ hs') = steps_of hs @ steps_of hs'"
  "steps_of (Stepped s # hs) = s # steps_of hs" "steps_of (Learnt a e # hs) = steps_of hs"
  by (simp_all add: steps_of_def List.map_filter_simps)

lemma learnt_by_simps [simp]:
  "learnt_by a [] = []" "learnt_by a (hs @ hs') = learnt_by a hs @ learnt_by a hs'"
  "learnt_by a (Stepped s # hs) = learnt_by a hs"
  "learnt_by a (Learnt b e # hs) = (if b = a then e # learnt_by a hs else learnt_by a hs)"
  by (simp_all add: learnt_by_def List.map_filter_simps)

lemma steps_of_mem: "s \<in> set (steps_of hs) \<longleftrightarrow> Stepped s \<in> set hs"
proof (induction hs)
  case (Cons h hs)
  then show ?case by (cases h) auto
qed simp

inductive history ::
  "(rat \<Rightarrow> rat) \<Rightarrow> ('e \<Rightarrow> 'n) \<Rightarrow> 'p set \<Rightarrow> ('p \<Rightarrow> ('p, 'e) NodeState option) \<Rightarrow> ('p, 'e) Happening list \<Rightarrow> bool"
  for rnd :: "rat \<Rightarrow> rat" and node_id :: "'e \<Rightarrow> 'n" and honest :: "'p set" where
  start: "history rnd node_id honest (\<lambda>_. Some (NodeState_init rnd)) []"
| step: "history rnd node_id honest S hs \<Longrightarrow> S a = Some st \<Longrightarrow> delivered honest (steps_of hs) a inp \<Longrightarrow>
    run_step env inp st = (ok, st', fx) \<Longrightarrow>
    history rnd node_id honest (S(a := if ok then Some st' else None))
      (hs @ [Stepped \<lparr>who = a, step_env = env, step_input = inp, effects = fx\<rparr>])"
| learn: "history rnd node_id honest S hs \<Longrightarrow> S a = Some st \<Longrightarrow>
    history rnd node_id honest (S(a := Some (st\<lparr>known_enrs := remember_enr node_id e (known_enrs st)\<rparr>)))
      (hs @ [Learnt a e])"

lemma history_network: "history rnd node_id honest S hs \<Longrightarrow> network rnd node_id honest S (steps_of hs)"
proof (induction rule: history.induct)
  case start
  show ?case by (simp add: network.start)
next
  case (step S hs a st inp env ok st' fx)
  from network.step [OF step.IH step.hyps(2-4)] show ?case by (simp only: steps_of_simps)
next
  case (learn S hs a st e)
  from network.learn [OF learn.IH learn.hyps(2)] show ?case by (simp only: steps_of_simps append_Nil2)
qed

lemma network_history:
  "network rnd node_id honest S tr \<Longrightarrow> \<exists>hs. steps_of hs = tr \<and> history rnd node_id honest S hs"
proof (induction rule: network.induct)
  case start
  show ?case by (intro exI [of _ "[]"]) (simp add: history.start)
next
  case (step S tr a st inp env ok st' fx)
  then obtain hs where hs: "steps_of hs = tr" "history rnd node_id honest S hs" by blast
  show ?case
    by (rule exI, rule conjI [rotated], rule history.step [OF hs(2) step.hyps(2) _ step.hyps(4)])
      (simp_all add: hs(1) step.hyps(3))
next
  case (learn S tr a st e)
  then obtain hs where hs: "steps_of hs = tr" "history rnd node_id honest S hs" by blast
  show ?case by (rule exI, rule conjI [rotated], rule history.learn [OF hs(2) learn.hyps(2)]) (simp add: hs(1))
qed

text \<open>A step of a history happened in the state its past had led to.\<close>

lemma history_split:
  assumes "history rnd node_id honest S hs" "Stepped s \<in> set hs"
  shows "\<exists>hs1 hs2 S1 st. hs = hs1 @ Stepped s # hs2 \<and> history rnd node_id honest S1 hs1 \<and> S1 (who s) = Some st
    \<and> effects s = snd (driver_step (step_env s, step_input s) st)"
  using assms
proof (induction rule: history.induct)
  case (step S hs a st inp env ok st' fx)
  show ?case
  proof (cases "Stepped s \<in> set hs")
    case True
    then show ?thesis using step.IH by force
  next
    case False
    with step.prems have "s = \<lparr>who = a, step_env = env, step_input = inp, effects = fx\<rparr>" by simp
    with step.hyps show ?thesis
      by (intro exI [of _ hs] exI [of _ "[]"] exI [of _ S] exI [of _ st]) (simp add: driver_step_def)
  qed
next
  case (learn S hs a st e)
  then show ?case by force
qed simp

text \<open>The peer book of a node is what its discovery task remembered, in order.\<close>

lemma history_book:
  assumes "history rnd node_id honest S hs" "S a = Some st"
  shows "known_enrs st = fold (remember_enr node_id) (learnt_by a hs) []"
  using assms
proof (induction arbitrary: a st rule: history.induct)
  case start
  then show ?case by (auto simp: NodeState_init_def)
next
  case (step S hs b st0 inp env ok st' fx)
  have "known_enrs st' = known_enrs st0"
    using known_enrs_driver_step [of "(env, inp)" st0] step.hyps(4) by (simp add: driver_step_def)
  with step.IH [of a] step.IH [OF step.hyps(2)] step.prems show ?case by (auto split: if_splits)
next
  case (learn S hs b st0 e)
  from learn.IH [of a] learn.IH [OF learn.hyps(2)] learn.prems show ?case by (auto split: if_splits)
qed

section \<open>Properties\<close>

text \<open>C5: A store query across the network: when a caller receives a response to a query it sent to an honest
  node, that node was asked exactly this query by the caller's node, and the response is what the
  store of that node answered to it, or its refusal by the rate limit or for want of a store.\<close>

theorem remote_store_reply:
  assumes "network rnd node_id honest S tr" "did tr a (Reply c (ReplyStore (Ok resp)))"
    and "\<forall>b' req' i. asked tr a i (CmdStoreQuery b' req' c) \<longrightarrow> b' = b \<and> req' = req" "b \<in> honest"
  shows "\<exists>s \<in> set tr. \<exists>ch. who s = b \<and> step_input s = Ev (StoreRequest a ch req)
    \<and> (resp = store_error_response (StoreQueryRequest.request_id req) 429 ''rate limited''
       \<or> resp = (case node_store (step_env s) of
             Some f \<Rightarrow> serve f req
           | None \<Rightarrow> store_error_response (StoreQueryRequest.request_id req) 503 ''store not enabled''))"
proof -
  have "\<exists>s \<in> set tr. \<exists>ch S1 tr1 st. who s = b \<and> step_input s = Ev (StoreRequest a ch req)
      \<and> network rnd node_id honest S1 tr1 \<and> S1 b = Some st
      \<and> effects s = snd (driver_step (step_env s, Ev (StoreRequest a ch req)) st)
      \<and> RespondStore ch resp \<in> set (effects s)"
    by (rule store_traced [where resp_ev = "\<lambda>i. StoreResponse i resp" and cmd = CmdStoreQuery, OF _ _ assms(1,2) _ _ _ assms(3)])
      (use assms(4) in \<open>auto simp: answers_defs opens_defs resolves_defs delivered_event_def
        split: Input.splits SwarmEvent.splits Command.splits\<close>)
  then show ?thesis using respond_store by fastforce
qed

text \<open>C11: A light push across the network: when a caller learns that an honest node took its message with
  status 200, that node published exactly that message on the requested topic, gossipsub accepted it,
  and the number of peers reported is that of the topic's mesh.\<close>

theorem remote_light_push:
  assumes "network rnd node_id honest S tr" "did tr a (Reply c (ReplyLightpush (Ok resp)))"
    and "\<forall>b' req' i. asked tr a i (CmdLightPush b' req' c) \<longrightarrow> b' = b \<and> req' = req" "b \<in> honest"
    and "LightpushResponse.status_code resp = 200" "LightpushRequest.message req = Some m"
  shows "\<exists>s \<in> set tr. who s = b
    \<and> GossipPublish (LightpushRequest.pubsub_topic req) (encode_message (step_env s) m) \<in> set (effects s)
    \<and> (\<exists>mid. gossip_publish (step_env s) (LightpushRequest.pubsub_topic req) (encode_message (step_env s) m) = Ok mid)
    \<and> relay_peer_count resp = word_of_nat (mesh_peers (step_env s) (LightpushRequest.pubsub_topic req))"
proof -
  have "\<exists>s \<in> set tr. \<exists>ch S1 tr1 st. who s = b \<and> step_input s = Ev (LightpushReq a ch req)
      \<and> network rnd node_id honest S1 tr1 \<and> S1 b = Some st
      \<and> effects s = snd (driver_step (step_env s, Ev (LightpushReq a ch req)) st)
      \<and> RespondLightpush ch resp \<in> set (effects s)"
    by (rule lightpush_traced [where resp_ev = "\<lambda>i. LightpushResp i resp" and cmd = CmdLightPush, OF _ _ assms(1,2) _ _ _ assms(3)])
      (use assms(4) in \<open>auto simp: answers_defs opens_defs resolves_defs delivered_event_def
        split: Input.splits SwarmEvent.splits Command.splits\<close>)
  then show ?thesis using respond_lightpush [OF _ assms(5,6)] by metis
qed

text \<open>C25: Peer exchange across the network: the node records a caller receives from an honest node are those
  of one step of that node, in which it answered the caller's request. They are the encodings of the first
  records, as many as the caller asked for, of the peer book that remembering, in order, the records its
  discovery had learnt before that step gives. That book has at most 200 records, all learnt before and of
  different nodes.\<close>

theorem remote_peer_exchange:
  assumes "history rnd node_id honest S hs" "did (steps_of hs) a (Reply c (ReplyPx (Ok rpc)))"
    and "\<forall>b' n' i. asked (steps_of hs) a i (CmdPeerExchange b' n' c) \<longrightarrow> b' = b \<and> n' = n" "b \<in> honest"
  shows "\<exists>hs1 s hs2 ch. hs = hs1 @ Stepped s # hs2 \<and> who s = b
    \<and> step_input s = Ev (PxRequest a ch (PeerExchangeRpc_query n)) \<and> RespondPx ch rpc \<in> set (effects s)
    \<and> (let book = fold (remember_enr node_id) (learnt_by b hs1) []
       in enrs rpc = map (enr_to_bytes (step_env s)) (take (unat n) book)
          \<and> length book \<le> 200 \<and> distinct (map node_id book) \<and> set book \<subseteq> set (learnt_by b hs1))"
proof -
  have "\<exists>s \<in> set (steps_of hs). \<exists>ch S1 tr1 st. who s = b \<and> step_input s = Ev (PxRequest a ch (PeerExchangeRpc_query n))
      \<and> network rnd node_id honest S1 tr1 \<and> S1 b = Some st
      \<and> effects s = snd (driver_step (step_env s, Ev (PxRequest a ch (PeerExchangeRpc_query n))) st)
      \<and> RespondPx ch rpc \<in> set (effects s)"
    by (rule px_traced [where resp_ev = "\<lambda>i. PxResponse i rpc" and cmd = CmdPeerExchange,
          OF _ _ history_network [OF assms(1)] assms(2) _ _ _ assms(3)])
      (use assms(4) in \<open>auto simp: answers_defs opens_defs resolves_defs delivered_event_def
        split: Input.splits SwarmEvent.splits Command.splits\<close>)
  then obtain s ch where s: "s \<in> set (steps_of hs)" "who s = b"
    "step_input s = Ev (PxRequest a ch (PeerExchangeRpc_query n))" "RespondPx ch rpc \<in> set (effects s)"
    by metis
  obtain hs1 hs2 S1 st where h: "hs = hs1 @ Stepped s # hs2" "history rnd node_id honest S1 hs1" "S1 b = Some st"
    "effects s = snd (driver_step (step_env s, step_input s) st)"
    using history_split [OF assms(1)] s(1,2) steps_of_mem by metis
  have "enrs rpc = map (enr_to_bytes (step_env s)) (take (unat n) (known_enrs st))"
    using respond_px s(3,4) h(4) by metis
  then have "let book = fold (remember_enr node_id) (learnt_by b hs1) []
      in enrs rpc = map (enr_to_bytes (step_env s)) (take (unat n) book)
        \<and> length book \<le> 200 \<and> distinct (map node_id book) \<and> set book \<subseteq> set (learnt_by b hs1)"
    using history_book [OF h(2,3)] peer_book_wf [of node_id "learnt_by b hs1"] by (simp add: Let_def)
  with h(1) s show ?thesis by blast
qed

text \<open>C10: No unsolicited messages: when a light client shows a message that an honest node pushed to it, that
  node had accepted exactly this message from relay on exactly this topic, and at that time the
  client's own subscriptions, as delivered to the node, asked for it; if the client is honest too, each of
  these requests is one it sent.\<close>

theorem no_unsolicited_push:
  assumes "network rnd node_id honest S tr" "did_on tr a (FilterPushRequest b ch push) (Emit (FilterMessage tp m))"
    and "b \<in> honest"
  shows "\<exists>tr1 s tr2 src mid gm. tr = tr1 @ s # tr2 \<and> who s = b \<and> step_input s = Ev (RelayMessage src mid gm)
    \<and> decode_message (step_env s) (data gm) = Ok m \<and> tp = Some (topic gm)
    \<and> relay_verdict (now_nanos (step_env s)) m = Accept
    \<and> (let reqs = List.map_filter filter_request_of (inputs_of b tr1)
       in (\<exists>sub \<in> set (client_subs a reqs). FilterSub_matches sub (topic gm) (WakuMessage.content_topic m))
          \<and> (a \<in> honest \<longrightarrow> (\<forall>req. (a, req) \<in> set reqs \<longrightarrow> did tr1 a (SendFilter b req))))"
proof -
  obtain t where t: "t \<in> set tr" "who t = a" "step_input t = Ev (FilterPushRequest b ch push)"
    "Emit (FilterMessage tp m) \<in> set (effects t)" using assms(2) by (auto simp: did_on_def)
  obtain S0 tr0 tr0' st0 where t0: "tr = tr0 @ t # tr0'" "delivered honest tr0 a (step_input t)"
    "effects t = snd (driver_step (step_env t, step_input t) st0)"
    using network_split [OF assms(1) t(1)] t(2) by metis
  have push: "waku_message push = Some m" "MessagePush.pubsub_topic push = tp"
    using t(3,4) t0(3) by (auto simp: handler_defs split: input_splits)
  have "did tr0 b (SendPush a push)" using t0(2) t(3) assms(3) by (simp add: delivered_def delivered_event_def)
  then obtain s where s: "s \<in> set tr" "who s = b" "SendPush a push \<in> set (effects s)"
    using t0(1) by (auto simp: did_def)
  obtain S1 tr1 tr2 st where *: "tr = tr1 @ s # tr2" "network rnd node_id honest S1 tr1" "S1 b = Some st"
    "effects s = snd (driver_step (step_env s, step_input s) st)"
    using network_split [OF assms(1) s(1)] s(2) by metis
  let ?reqs = "List.map_filter filter_request_of (inputs_of b tr1)"
  obtain src mid gm sid m' where gm: "step_input s = Ev (RelayMessage src mid gm)"
    "decode_message (step_env s) (data gm) = Ok m'" "relay_verdict (now_nanos (step_env s)) m' = Accept"
    "(a, push) \<in> set (fst (push_filter_matches (registry_after ?reqs) (topic gm) m'))"
    using push_source [of a push "(step_env s, step_input s)" st] s(3) *(4) network_filters [OF *(2,3)] by auto
  have "push = \<lparr>waku_message = Some m', MessagePush.pubsub_topic = Some (topic gm)\<rparr>"
    "\<exists>sub \<in> set (client_subs a ?reqs). FilterSub_matches sub (topic gm) (WakuMessage.content_topic m')"
    using push_member [OF gm(4)] by blast+
  with push have "m' = m" "tp = Some (topic gm)"
    "\<exists>sub \<in> set (client_subs a ?reqs). FilterSub_matches sub (topic gm) (WakuMessage.content_topic m)"
    by auto
  moreover have "did tr1 a (SendFilter b req)" if "a \<in> honest" "(a, req) \<in> set ?reqs" for req
    by (rule filter_request_sent [OF *(2) that])
  ultimately show ?thesis
    using *(1) s(2) gm(1-3) unfolding Let_def
    by (intro exI [of _ tr1] exI [of _ s] exI [of _ tr2] exI [of _ src] exI [of _ mid] exI [of _ gm]) blast
qed

text \<open>C9: The metadata handshake: a node asks every peer whose connection it keeps, tells its own cluster to
  every peer that asks, and on the answer of an honest peer disconnects it exactly if their clusters
  differ, and then reports the cluster the peer really has.\<close>

theorem metadata_handshake:
  assumes "network rnd node_id honest S tr" "s \<in> set tr" "who s = a" "b \<in> honest"
    and "\<forall>s \<in> set tr. local_cluster (step_env s) = cluster (who s)
      \<and> WakuMetadata.cluster_id (local_meta (step_env s)) = Some (cluster (who s))"
  shows "case step_input s of
      Ev (ConnectionEstablished p addr) \<Rightarrow>
        SendMetadata p (local_meta (step_env s)) \<in> set (effects s) \<or> DisconnectPeer p \<in> set (effects s)
    | Ev (MetadataRequest p ch md) \<Rightarrow> effects s = [RespondMetadata ch (local_meta (step_env s))]
    | Ev (MetadataResponse p md) \<Rightarrow> p = b \<longrightarrow>
        (DisconnectPeer b \<in> set (effects s) \<longleftrightarrow> cluster b \<noteq> cluster a)
        \<and> (evt_open (step_env s) \<longrightarrow>
            (Emit (MetadataMismatch b (Some (cluster b))) \<in> set (effects s) \<longleftrightarrow> cluster b \<noteq> cluster a))
    | _ \<Rightarrow> \<forall>p x. Emit (MetadataMismatch p x) \<notin> set (effects s)"
proof -
  obtain tr1 tr2 st where *: "tr = tr1 @ s # tr2" "delivered honest tr1 a (step_input s)"
    "effects s = snd (driver_step (step_env s, step_input s) st)"
    using network_split [OF assms(1,2)] assms(3) by metis
  have theirs: "WakuMetadata.cluster_id md = Some (cluster b)" if resp: "step_input s = Ev (MetadataResponse b md)" for md
  proof -
    obtain t ch md' where t: "t \<in> set tr" "who t = b" "step_input t = Ev (MetadataRequest a ch md')"
      "RespondMetadata ch md \<in> set (effects t)"
      using *(1,2) resp assms(4) by (fastforce simp: delivered_def delivered_event_def did_on_def)
    obtain st' where "effects t = snd (driver_step (step_env t, step_input t) st')"
      using network_split [OF assms(1) t(1)] by metis
    then have "md = local_meta (step_env t)" using t(3,4) by (auto simp: handler_defs)
    then show ?thesis using assms(5) t(1,2) by auto
  qed
  have ours: "local_cluster (step_env s) = cluster a" using assms(2,3,5) by auto
  have other: "\<forall>p x. Emit (MetadataMismatch p x) \<notin> set (effects s)" if "\<nexists>p md. step_input s = Ev (MetadataResponse p md)"
    using mismatch_source [of _ _ "(step_env s, step_input s)" st] *(3) that by auto
  show ?thesis
  proof (cases "step_input s")
    case (Ev ev)
    show ?thesis
    proof (cases ev)
      case (MetadataResponse p md)
      then show ?thesis
        using *(3) theirs [of md] ours Ev
        by (auto simp: driver_step_def run_step_def handle_event_def handle_metadata_response_def emit_def)
    next
      case (ConnectionEstablished p addr)
      then show ?thesis
        using *(3) Ev
        by (auto simp: driver_step_def run_step_def handle_event_def on_connection_established_def emit_def
            split: prod.splits if_splits)
    next
      case (MetadataRequest p ch md)
      then show ?thesis
        using *(3) Ev by (simp add: driver_step_def run_step_def handle_event_def handle_metadata_request_def)
    qed (use other Ev in simp_all)
  qed (use other in simp_all)
qed

section \<open>Concrete sessions\<close>

text \<open>The trace of given steps, and that libp2p may deliver their inputs.\<close>

fun play :: "('p \<times> 'e NodeEnv \<times> 'p Input) list \<Rightarrow> ('p \<Rightarrow> ('p, 'e) NodeState) \<Rightarrow> ('p, 'e) Step list" where
  "play [] S = []"
| "play ((a, env, inp) # xs) S =
     \<lparr>who = a, step_env = env, step_input = inp, effects = snd (driver_step (env, inp) (S a))\<rparr>
       # play xs (S(a := fst (driver_step (env, inp) (S a))))"

fun playable ::
  "'p set \<Rightarrow> ('p \<times> 'e NodeEnv \<times> 'p Input) list \<Rightarrow> ('p \<Rightarrow> ('p, 'e) NodeState) \<Rightarrow> ('p, 'e) Step list \<Rightarrow> bool" where
  "playable honest [] S tr = True"
| "playable honest ((a, env, inp) # xs) S tr \<longleftrightarrow>
     keeps_running (env, inp) \<and> delivered honest tr a inp
     \<and> playable honest xs (S(a := fst (driver_step (env, inp) (S a))))
         (tr @ [\<lparr>who = a, step_env = env, step_input = inp, effects = snd (driver_step (env, inp) (S a))\<rparr>])"

lemma play_network:
  "network rnd node_id honest (\<lambda>a. Some (S a)) tr \<Longrightarrow> playable honest xs S tr \<Longrightarrow>
   \<exists>S'. network rnd node_id honest S' (tr @ play xs S)"
proof (induction xs arbitrary: S tr)
  case Nil
  then show ?case by auto
next
  case (Cons x xs)
  obtain a env inp where x: "x = (a, env, inp)" using prod_cases3 by blast
  let ?d = "driver_step (env, inp) (S a)"
  have "run_step env inp (S a) = (True, fst ?d, snd ?d)"
    using run_step_continues [of env inp "S a"] Cons.prems(2) x
    by (cases "run_step env inp (S a)") (auto simp: driver_step_def)
  from network.step [OF Cons.prems(1) refl _ this] Cons.prems(2) x
  have "network rnd node_id honest ((\<lambda>a. Some (S a))(a := Some (fst ?d)))
      (tr @ [\<lparr>who = a, step_env = env, step_input = inp, effects = snd ?d\<rparr>])" by simp
  moreover have "(\<lambda>a. Some (S a))(a := Some (fst ?d)) = (\<lambda>b. Some ((S(a := fst ?d)) b))" by auto
  ultimately have net: "network rnd node_id honest (\<lambda>b. Some ((S(a := fst ?d)) b))
      (tr @ [\<lparr>who = a, step_env = env, step_input = inp, effects = snd ?d\<rparr>])" by (simp only:)
  have "playable honest xs (S(a := fst ?d)) (tr @ [\<lparr>who = a, step_env = env, step_input = inp, effects = snd ?d\<rparr>])"
    using Cons.prems(2) x by simp
  from Cons.IH [of "S(a := fst ?d)", OF net this]
  show ?case unfolding x play.simps by (simp only: append.assoc append_Cons append_Nil)
qed

definition ex_session :: "(nat \<times> nat Input) list \<Rightarrow> (nat, nat) Step list" where
  "ex_session xs = play (map (\<lambda>(a, inp). (a, ex_env, inp)) xs) (\<lambda>_. NodeState_init unrounded)"

lemma ex_network:
  assumes "playable {2, 5} (map (\<lambda>(a, inp). (a, ex_env, inp)) xs) (\<lambda>_. NodeState_init unrounded) []"
  shows "\<exists>S. network unrounded (id :: nat \<Rightarrow> nat) {2, 5} S (ex_session xs)"
  using play_network [where tr = "[]", OF network.start assms] by (simp add: ex_session_def)

lemma ex_allow:
  "\<exists>l. allow unrounded p t (RateLimiters.store (RateLimiters_default unrounded)) = (True, l)"
  "\<exists>l. allow unrounded p t (RateLimiters.lightpush (RateLimiters_default unrounded)) = (True, l)"
  by (simp_all add: allow_def RateLimiters_default_def RateLimiter_new_def Let_def elapsed_secs_def unrounded_def)

definition ex_ask :: StoreQueryRequest where
  "ex_ask = \<lparr>StoreQueryRequest.request_id = ''r'', include_data = True, pubsub_topic = None, content_topics = [],
     time_start = None, time_end = None, message_hashes = [], pagination_cursor = None, pagination_forward = True,
     pagination_limit = None\<rparr>"

abbreviation ex_served :: StoreQueryResponse where
  "ex_served \<equiv> serve (\<lambda>q. SqliteStore_query (\<lambda>_. None) q ex_table) ex_ask"

abbreviation ex_store_steps :: "(nat \<times> nat Input) list" where
  "ex_store_steps \<equiv> [(2, Cmd (CmdStoreQuery 5 ex_ask 9)), (5, Ev (StoreRequest 2 3 ex_ask)),
     (2, Ev (StoreResponse 0 ex_served))]"

lemma ex_env_simps:
  "evt_open ex_env" "fresh_id ex_env = 0" "mesh_peers ex_env t = 3" "gossip_publish ex_env t d = Ok d"
  "encode_message ex_env m = [1]" "local_cluster ex_env = 1"
  "local_meta ex_env = \<lparr>WakuMetadata.cluster_id = Some 1, shards = [0]\<rparr>"
  by (simp_all add: ex_env_def)

lemmas ex_delivery = delivered_def delivered_event_def did_def did_on_def asked_def keeps_running_def ex_env_simps

lemma ex_served_step:
  "snd (driver_step (ex_env, Ev (StoreRequest 2 3 ex_ask)) (NodeState_init unrounded :: (nat, nat) NodeState)) =
     [RespondStore 3 ex_served]"
  using ex_allow(1) [of "2 :: nat" 0]
  by (auto simp: driver_step_def run_step_def handle_event_def on_store_request_def ex_env_def NodeState_init_def Let_def)

lemmas ex_command = driver_step_def run_step_def handle_command_def Let_def
lemmas ex_resolve = driver_step_def run_step_def handle_event_def resolved_defs

theorem remote_store_reply_witness:
  "\<exists>s \<in> set (ex_session ex_store_steps). \<exists>ch. who s = 5 \<and> step_input s = Ev (StoreRequest 2 ch ex_ask)"
proof -
  have "playable {2, 5} (map (\<lambda>(a, inp). (a, ex_env, inp)) ex_store_steps) (\<lambda>_. NodeState_init unrounded) []"
    using ex_served_step by (simp add: ex_delivery) (simp add: ex_command)
  then obtain S where S: "network unrounded (id :: nat \<Rightarrow> nat) {2, 5} S (ex_session ex_store_steps)"
    using ex_network by blast
  have did: "did (ex_session ex_store_steps) 2 (Reply 9 (ReplyStore (Ok ex_served)))"
    by (simp add: ex_session_def ex_delivery ex_resolve ex_command)
  have "\<forall>b' req' i. asked (ex_session ex_store_steps) 2 i (CmdStoreQuery b' req' 9) \<longrightarrow> b' = 5 \<and> req' = ex_ask"
    by (auto simp: ex_session_def asked_def)
  from remote_store_reply [OF S did this] show ?thesis by auto
qed

definition ex_push :: LightpushRequest where
  "ex_push = \<lparr>LightpushRequest.request_id = [], pubsub_topic = ''t'', message = Some (ex_message 1)\<rparr>"

abbreviation ex_push_steps :: "(nat \<times> nat Input) list" where
  "ex_push_steps \<equiv> [(2, Cmd (CmdLightPush 5 ex_push 9)), (5, Ev (LightpushReq 2 3 ex_push)),
     (2, Ev (LightpushResp 0 (LightpushResponse_ok [] 3)))]"

lemma ex_pushed_step:
  "snd (driver_step (ex_env, Ev (LightpushReq 2 3 ex_push)) (NodeState_init unrounded :: (nat, nat) NodeState)) =
     [GossipPublish ''t'' [1], RespondLightpush 3 (LightpushResponse_ok [] 3)]"
  using ex_allow(2) [of "2 :: nat" 0]
  by (auto simp: driver_step_def run_step_def handle_event_def on_lightpush_request_def serve_lightpush_def ex_push_def
      ex_env_def NodeState_init_def Let_def)

theorem remote_light_push_witness:
  "\<exists>s \<in> set (ex_session ex_push_steps). who s = 5
     \<and> GossipPublish ''t'' (encode_message (step_env s) (ex_message 1)) \<in> set (effects s)"
proof -
  have "playable {2, 5} (map (\<lambda>(a, inp). (a, ex_env, inp)) ex_push_steps) (\<lambda>_. NodeState_init unrounded) []"
    using ex_pushed_step by (simp add: ex_delivery) (simp add: ex_command)
  then obtain S where S: "network unrounded (id :: nat \<Rightarrow> nat) {2, 5} S (ex_session ex_push_steps)"
    using ex_network by blast
  have did: "did (ex_session ex_push_steps) 2 (Reply 9 (ReplyLightpush (Ok (LightpushResponse_ok [] 3))))"
    by (simp add: ex_session_def ex_delivery ex_resolve ex_command)
  have "\<forall>b' req' i. asked (ex_session ex_push_steps) 2 i (CmdLightPush b' req' 9) \<longrightarrow> b' = 5 \<and> req' = ex_push"
    by (auto simp: ex_session_def asked_def)
  from remote_light_push [OF S did this, of "ex_message 1"] show ?thesis
    by (auto simp: LightpushResponse_ok_def ex_push_def)
qed

text \<open>Node 5 hears of the nodes 11, 12 and again 11, and is asked for one record.\<close>

definition ex_px_env :: "nat NodeEnv" where
  "ex_px_env = ex_env\<lparr>enr_to_bytes := \<lambda>e. [word_of_nat e]\<rparr>"

abbreviation ex_px_rpc :: PeerExchangeRpc where
  "ex_px_rpc \<equiv> PeerExchangeRpc_response [[11]]"

abbreviation ex_px_step :: "nat \<Rightarrow> nat Input \<Rightarrow> nat Effect list \<Rightarrow> (nat, nat) Happening" where
  "ex_px_step a inp fx \<equiv> Stepped \<lparr>who = a, step_env = ex_px_env, step_input = inp, effects = fx\<rparr>"

abbreviation ex_px_history :: "(nat, nat) Happening list" where
  "ex_px_history \<equiv>
     [Learnt 5 11, Learnt 5 12, Learnt 5 11,
      ex_px_step 2 (Cmd (CmdPeerExchange 5 1 9)) [SendPx 5 (PeerExchangeRpc_query 1)],
      ex_px_step 5 (Ev (PxRequest 2 3 (PeerExchangeRpc_query 1))) [RespondPx 3 ex_px_rpc],
      ex_px_step 2 (Ev (PxResponse 0 ex_px_rpc)) [Reply 9 (ReplyPx (Ok ex_px_rpc))]]"

text \<open>The nodes 2 and 5 are in the states \<open>x\<close> and \<open>y\<close>.\<close>

definition ex_at :: "(nat, nat) Happening list \<Rightarrow> (nat, nat) NodeState \<Rightarrow> (nat, nat) NodeState \<Rightarrow> bool" where
  "ex_at hs x y \<longleftrightarrow> (\<exists>S. history unrounded id {2, 5} S hs \<and> S 2 = Some x \<and> S 5 = Some y)"

lemma ex_at_learn: "ex_at hs x y \<Longrightarrow> ex_at (hs @ [Learnt 5 e]) x (y\<lparr>known_enrs := remember_enr id e (known_enrs y)\<rparr>)"
  unfolding ex_at_def by (metis history.learn fun_upd_apply numeral_eq_iff num.distinct(5))

lemma ex_at_step_2:
  "ex_at hs x y \<Longrightarrow> delivered {2, 5} (steps_of hs) 2 inp \<Longrightarrow> run_step ex_px_env inp x = (True, x', fx) \<Longrightarrow>
   ex_at (hs @ [ex_px_step 2 inp fx]) x' y"
  unfolding ex_at_def by (fastforce dest: history.step)

lemma ex_at_step_5:
  "ex_at hs x y \<Longrightarrow> delivered {2, 5} (steps_of hs) 5 inp \<Longrightarrow> run_step ex_px_env inp y = (True, y', fx) \<Longrightarrow>
   ex_at (hs @ [ex_px_step 5 inp fx]) x y'"
  unfolding ex_at_def by (fastforce dest: history.step)

lemma ex_px_reached: "\<exists>x y. ex_at ex_px_history x y"
proof -
  let ?s0 = "NodeState_init unrounded :: (nat, nat) NodeState"
  let ?x = "?s0\<lparr>pending := (pending ?s0)\<lparr>pend_px := [0 \<mapsto> 9]\<rparr>\<rparr>" and ?y = "?s0\<lparr>known_enrs := [11, 12]\<rparr>"
  note defs = run_step_def handle_event_def handle_command_def on_px_request_def on_px_resolved_def resolve_def ex_px_env_def
    ex_env_def NodeState_init_def remember_enr_def PEER_BOOK_CAP_def PeerExchangeRpc_query_def requested_def Let_def
  have "ex_at [] ?s0 ?s0" unfolding ex_at_def by (intro exI conjI) (rule history.start, simp_all)
  from ex_at_learn [OF ex_at_learn [OF ex_at_learn [OF this, of 11], of 12], of 11]
  have "ex_at [Learnt 5 11, Learnt 5 12, Learnt 5 11] ?s0 ?y" by (simp add: defs)
  from ex_at_step_2 [OF this, of "Cmd (CmdPeerExchange 5 1 9)" ?x "[SendPx 5 (PeerExchangeRpc_query 1)]"]
  have "ex_at (take 4 ex_px_history) ?x ?y" by (simp add: delivered_def) (simp add: defs)
  from ex_at_step_5 [OF this, of "Ev (PxRequest 2 3 (PeerExchangeRpc_query 1))" ?y "[RespondPx 3 ex_px_rpc]"]
  have "ex_at (take 5 ex_px_history) ?x ?y" by (simp add: delivered_def delivered_event_def did_def) (simp add: defs)
  from ex_at_step_2 [OF this, of "Ev (PxResponse 0 ex_px_rpc)" ?s0 "[Reply 9 (ReplyPx (Ok ex_px_rpc))]"]
  have "ex_at ex_px_history ?s0 ?y"
    by (simp add: delivered_def delivered_event_def asked_def did_on_def) (simp add: defs)
  then show ?thesis by blast
qed

theorem remote_peer_exchange_witness:
  "\<exists>hs1 s hs2. ex_px_history = hs1 @ Stepped s # hs2 \<and> who s = 5
     \<and> enrs ex_px_rpc = map (enr_to_bytes (step_env s)) (take 1 (fold (remember_enr id) (learnt_by 5 hs1) []))
     \<and> length (enrs ex_px_rpc) = 1"
proof -
  obtain S where S: "history unrounded (id :: nat \<Rightarrow> nat) {2, 5} S ex_px_history"
    using ex_px_reached by (auto simp: ex_at_def)
  have did: "did (steps_of ex_px_history) 2 (Reply 9 (ReplyPx (Ok ex_px_rpc)))" by (simp add: did_def)
  have only: "\<forall>b' n' i. asked (steps_of ex_px_history) 2 i (CmdPeerExchange b' n' 9) \<longrightarrow> b' = 5 \<and> n' = 1"
    by (auto simp: asked_def)
  have u: "unat (1 :: u64) = 1" by simp
  from remote_peer_exchange [OF S did only]
  obtain hs1 s hs2 where "ex_px_history = hs1 @ Stepped s # hs2" "who s = 5"
    "enrs ex_px_rpc = map (enr_to_bytes (step_env s)) (take 1 (fold (remember_enr id) (learnt_by 5 hs1) []))"
    unfolding Let_def u by blast
  moreover have "length (enrs ex_px_rpc) = 1" by (simp add: enrs_def PeerExchangeRpc_response_def)
  ultimately show ?thesis by blast
qed

abbreviation ex_meta_steps :: "(nat \<times> nat Input) list" where
  "ex_meta_steps \<equiv> [(2, Ev (ConnectionEstablished 5 [])), (5, Ev (MetadataRequest 2 3 (local_meta ex_env))),
     (2, Ev (MetadataResponse 5 (local_meta ex_env)))]"

theorem metadata_handshake_witness:
  "\<exists>s \<in> set (ex_session ex_meta_steps). step_input s = Ev (MetadataResponse 5 (local_meta ex_env))
     \<and> DisconnectPeer 5 \<notin> set (effects s)"
proof -
  have "playable {2, 5} (map (\<lambda>(a, inp). (a, ex_env, inp)) ex_meta_steps) (\<lambda>_. NodeState_init unrounded) []"
    by (simp add: ex_delivery)
      (simp add: driver_step_def run_step_def handle_event_def on_connection_established_def ip_established_def
        multiaddr_ip.simps handle_metadata_request_def emit_def ex_env_def)
  then obtain S where S: "network unrounded (id :: nat \<Rightarrow> nat) {2, 5} S (ex_session ex_meta_steps)"
    using ex_network by blast
  obtain s where s: "s \<in> set (ex_session ex_meta_steps)" "who s = 2"
    "step_input s = Ev (MetadataResponse 5 (local_meta ex_env))"
    by (rule that [of "ex_session ex_meta_steps ! 2"]) (simp_all add: ex_session_def)
  have "\<forall>s \<in> set (ex_session ex_meta_steps). local_cluster (step_env s) = (\<lambda>_. 1) (who s)
      \<and> WakuMetadata.cluster_id (local_meta (step_env s)) = Some ((\<lambda>_. 1) (who s))"
    by (simp add: ex_session_def ex_env_simps)
  from metadata_handshake [OF S s(1,2) _ this, of 5] s show ?thesis by auto
qed

abbreviation ex_filter :: FilterSubscribeRequest where
  "ex_filter \<equiv> \<lparr>FilterSubscribeRequest.request_id = [], filter_subscribe_type = SUBSCRIBE, pubsub_topic = None,
     content_topics = []\<rparr>"

abbreviation ex_gossip :: GossipMessage where
  "ex_gossip \<equiv> \<lparr>data = [1], topic = Waku_Core.pubsub_topic (ShardId_new 1 0)\<rparr>"

abbreviation ex_pushed :: MessagePush where
  "ex_pushed \<equiv> \<lparr>waku_message = Some (ex_message 1), MessagePush.pubsub_topic = Some (topic ex_gossip)\<rparr>"

abbreviation ex_filter_steps :: "(nat \<times> nat Input) list" where
  "ex_filter_steps \<equiv> [(2, Cmd (CmdFilterSubscribe 5 ex_filter 9)), (5, Ev (FilterRequest 2 3 ex_filter)),
     (5, Ev (RelayMessage 7 [] ex_gossip)), (2, Ev (FilterPushRequest 5 4 ex_pushed))]"

lemma ex_accepted: "relay_verdict (now_nanos ex_env) (ex_message 1) = Accept"
  using relay_verdict_eq [of "now_nanos ex_env" "ex_message 1"]
  by (simp add: ex_env_def clock_ok_def fresh_message_def ex_message_def WakuMessage_new_def)

lemma ex_push_sent:
  "SendPush 2 ex_pushed \<in> set (snd (driver_step (ex_env, Ev (RelayMessage 7 [] ex_gossip))
     (fst (driver_step (ex_env, Ev (FilterRequest 2 3 ex_filter)) (NodeState_init unrounded :: (nat, nat) NodeState)))))"
proof -
  have "decode_message ex_env [1] = Ok (ex_message 1)" by (simp add: ex_env_def)
  then show ?thesis
    using ex_accepted
    by (auto simp: driver_step_def run_step_def handle_event_def on_filter_request_def on_relay_message_def emit_def
        ex_env_simps(1) ShardId_parse_pubsub_topic apply_filter_request_def request_sub_def FilterSub_matches_def
        push_filter_matches_def NodeState_init_def Let_def split: prod.split)
qed

theorem no_unsolicited_push_witness:
  "\<exists>s \<in> set (ex_session ex_filter_steps). who s = 5 \<and> (\<exists>src mid gm. step_input s = Ev (RelayMessage src mid gm)
     \<and> decode_message (step_env s) (data gm) = Ok (ex_message 1))"
proof -
  have "playable {2, 5} (map (\<lambda>(a, inp). (a, ex_env, inp)) ex_filter_steps) (\<lambda>_. NodeState_init unrounded) []"
    using ex_push_sent by (simp add: ex_delivery) (simp add: ex_command)
  then obtain S where S: "network unrounded (id :: nat \<Rightarrow> nat) {2, 5} S (ex_session ex_filter_steps)"
    using ex_network by blast
  have "did_on (ex_session ex_filter_steps) 2 (FilterPushRequest 5 4 ex_pushed)
      (Emit (FilterMessage (Some (topic ex_gossip)) (ex_message 1)))"
    by (simp add: ex_session_def did_on_def driver_step_def run_step_def handle_event_def on_filter_push_def emit_def
        ex_env_simps)
  from no_unsolicited_push [OF S this] show ?thesis by fastforce
qed

end
