(* ===== verification/Node_Invariant.thy ===== *)
theory Node_Invariant
  imports Node_Runs
begin

text \<open>
  The invariant of the state that \<open>run\<close> of \<open>crates/waku-node/src/runtime.rs\<close> owns: what every handler and
  every command keeps of its tables. \<open>mx\<close> is the limit of connections per address.
\<close>

section \<open>Rate limiters\<close>

definition wf_limiter :: "nat \<Rightarrow> 'p RateLimiter \<Rightarrow> bool" where
  "wf_limiter c rl \<longleftrightarrow> capacity rl = of_nat c \<and> c \<le> 2 ^ 53 \<and> 0 \<le> refill_per_sec rl
     \<and> (\<forall>p b. buckets rl p = Some b \<longrightarrow> 0 \<le> tokens b \<and> tokens b \<le> of_nat c)"

lemma f64_nonneg: "f64_rounding rnd \<Longrightarrow> 0 \<le> x \<Longrightarrow> 0 \<le> rnd x"
  using f64_mono [of rnd 0 x] by simp

lemma elapsed_nonneg: "f64_rounding rnd \<Longrightarrow> 0 \<le> elapsed_secs rnd now lst"
  by (simp add: elapsed_secs_def Let_def f64_nonneg)

lemma refilled_bounds:
  assumes "f64_rounding rnd" "wf_limiter c rl"
  shows "0 \<le> refilled rnd rl p t \<and> refilled rnd rl p t \<le> of_nat c"
proof -
  have nonneg: "0 \<le> rnd (x + rnd (elapsed_secs rnd t lst * refill_per_sec rl))" if "0 \<le> x" for x lst
    using that assms by (simp add: wf_limiter_def f64_nonneg elapsed_nonneg)
  show ?thesis
    using assms(2) refilled_le [of rnd rl p t] nonneg
    by (auto simp: wf_limiter_def refilled_def split: option.split)
qed

lemma wf_limiter_allow:
  assumes "f64_rounding rnd" "wf_limiter c rl" "allow rnd p t rl = (ok, rl')"
  shows "wf_limiter c rl'"
proof -
  let ?tk = "refilled rnd rl p t"
  have tk: "0 \<le> ?tk" "?tk \<le> of_nat c" using refilled_bounds [OF assms(1,2)] by auto
  have "rnd (?tk - 1) \<le> rnd (of_nat c)" by (rule f64_mono [OF assms(1)]) (use tk in linarith)
  then have "rnd (?tk - 1) \<le> of_nat c" using f64_exact [OF assms(1)] assms(2) by (simp add: wf_limiter_def)
  moreover have "0 \<le> rnd (?tk - 1)" if "1 \<le> ?tk" using that by (simp add: f64_nonneg [OF assms(1)])
  ultimately have "0 \<le> tokens b \<and> tokens b \<le> of_nat c" if "buckets rl' p = Some b" for b
    using that allow_self [OF assms(3)] tk by (auto split: if_splits)
  moreover have "buckets rl' q = buckets rl q" if "q \<noteq> p" for q using allow_other [OF assms(3)] that by auto
  ultimately show ?thesis
    using assms(2) allow_capacity [OF assms(3)] unfolding wf_limiter_def by metis
qed

lemma wf_limiter_new:
  assumes "f64_rounding rnd" "0 < period"
  shows "wf_limiter (unat (max cap 1)) (RateLimiter_new rnd cap period)"
proof -
  have "unat (max cap 1) < 2 ^ 32" using unsigned_less [of "max cap 1", where ?'a = nat] by simp
  then have "unat (max cap 1) \<le> 2 ^ 53" by simp
  moreover have "0 \<le> rnd (of_nat (unat (max cap 1)) / max period (1 / 2 ^ 1022))"
    using assms(2)
    by (intro f64_nonneg [OF assms(1)] divide_nonneg_nonneg of_nat_0_le_iff) (rule max.coboundedI1, rule less_imp_le)
  ultimately show ?thesis by (simp add: wf_limiter_def RateLimiter_new_def Let_def)
qed

section \<open>The state of the driver\<close>

definition wf_ip_table :: "nat \<Rightarrow> ip_counts \<Rightarrow> bool" where
  "wf_ip_table mx t \<longleftrightarrow> finite (dom t) \<and> (\<forall>i c. t i = Some c \<longrightarrow> 1 \<le> c \<and> c \<le> mx)"

definition wf_node :: "nat \<Rightarrow> ('p, 'e) NodeState \<Rightarrow> bool" where
  "wf_node mx st \<longleftrightarrow>
     finite (dom (pend_store (pending st))) \<and> finite (dom (pend_lightpush (pending st)))
     \<and> finite (dom (pend_px (pending st))) \<and> finite (dom (pend_filter (pending st)))
     \<and> wf_registry (filters st) \<and> finite (connected st) \<and> wf_ip_table mx (ip_table st)
     \<and> wf_limiter 10 (RateLimiters.store (limits st)) \<and> wf_limiter 10 (RateLimiters.lightpush (limits st))"

lemma wf_ip_established:
  "wf_ip_table mx t \<Longrightarrow> ip_established mx ip t = (kept, t') \<Longrightarrow> wf_ip_table mx t'"
  by (auto simp: wf_ip_table_def ip_established_def Let_def split: if_splits option.splits)

lemma wf_ip_closed: "wf_ip_table mx t \<Longrightarrow> wf_ip_table mx (ip_closed ip t)"
  unfolding wf_ip_table_def ip_closed_def by (fastforce split: option.splits if_splits)

lemma wf_apply_eq: "wf_registry f \<Longrightarrow> apply_filter_request p req f = (r, f') \<Longrightarrow> wf_registry f'"
  using wf_apply [of f p req] by simp

lemma wf_node_init: "f64_rounding rnd \<Longrightarrow> wf_node mx (NodeState_init rnd)"
  using wf_limiter_new [of rnd 1 10]
  by (simp add: wf_node_def NodeState_init_def wf_registry_def wf_ip_table_def RateLimiters_default_def)

lemma wf_driver_step:
  assumes "f64_rounding (f64_rnd (fst i))" "wf_node (ip_limit (fst i)) st"
  shows "wf_node (ip_limit (fst i)) (fst (driver_step i st))"
proof (cases "snd i")
  case (Cmd c)
  then show ?thesis
    using assms(2) by (cases c) (auto simp: wf_node_def driver_step_def run_step_def handle_command_def Let_def)
next
  case CmdClosed
  then show ?thesis using assms(2) by (simp add: driver_step_def run_step_def)
next
  case (Ev ev)
  then show ?thesis
    using assms(2)
    by (cases ev)
      (auto simp: wf_node_def driver_step_def run_step_def handle_event_def emit_def resolved_defs
        on_new_listen_addr_def on_connection_established_def on_connection_closed_def on_relay_message_def
        handle_metadata_request_def handle_metadata_response_def on_store_request_def on_lightpush_request_def
        on_px_request_def on_filter_request_def on_filter_push_def Let_def
        split: prod.splits option.splits sum.splits if_splits
        intro: wf_limiter_allow [OF assms(1)] wf_ip_established wf_ip_closed wf_apply_eq)
qed

lemma wf_driver_steps:
  "\<forall>i \<in> set inputs. f64_rounding (f64_rnd (fst i)) \<and> ip_limit (fst i) = mx \<Longrightarrow> wf_node mx st \<Longrightarrow>
   wf_node mx (fst (driver_steps inputs st))"
  using wf_driver_step by (induction inputs arbitrary: st) (simp_all add: case_prod_beta, blast)

section \<open>Properties\<close>

text \<open>C12: The state of the driver stays well formed: after any run, whatever the peers send, the pending tables
  and the set of connected peers are finite, no peer has two entries in the filter registry, every
  address counted has from one connection to the limit, and every bucket of both rate limiters holds
  from zero tokens to its capacity of ten, in any rounding of the arithmetic that is monotone and
  exact on integers.\<close>

theorem node_state_well_formed:
  assumes "f64_rounding rnd" "\<forall>i \<in> set inputs. f64_rnd (fst i) = rnd \<and> ip_limit (fst i) = mx"
  shows "wf_node mx (fst (run inputs (NodeState_init rnd)))"
proof -
  obtain k where "run inputs (NodeState_init rnd) = driver_steps (take k inputs) (NodeState_init rnd)"
    using run_prefix by blast
  moreover have "\<forall>i \<in> set (take k inputs). f64_rounding (f64_rnd (fst i)) \<and> ip_limit (fst i) = mx"
    using assms by (auto dest: in_set_takeD)
  ultimately show ?thesis using wf_driver_steps [OF _ wf_node_init [OF assms(1)]] by simp
qed

theorem node_state_well_formed_witness:
  "wf_node 0 (fst (run [(ex_env, ex_query 1), (ex_env, Ev (ConnectionEstablished 5 [Ip4 1]))]
     (NodeState_init unrounded :: (nat, nat) NodeState)))"
  by (rule node_state_well_formed [OF f64_rounding_unrounded]) (simp add: ex_env_def)

end
