(* ===== verification/Rust_Text.thy ===== *)
theory Rust_Text
  imports Waku_Prelude
begin

text \<open>
  Operations of \<open>str\<close> that read Unicode white space (\<open>trim\<close>, \<open>split_whitespace\<close>) and substrings
  (\<open>find\<close>), on the bytes of UTF-8. A white-space character is one, two or three bytes long.
\<close>

text \<open>The length of the white-space character a string starts with; zero if there is none.\<close>

definition ws_len :: "string \<Rightarrow> nat" where
  "ws_len s =
     (let b = map of_char (take 3 s) :: nat list
      in if b \<noteq> [] \<and> (9 \<le> hd b \<and> hd b \<le> 13 \<or> hd b = 32) then 1
         else if take 2 b \<in> {[0xC2, 0x85], [0xC2, 0xA0]} then 2
         else if b \<in> {[0xE1, 0x9A, 0x80], [0xE2, 0x81, 0x9F], [0xE3, 0x80, 0x80]}
              \<or> take 2 b = [0xE2, 0x80] \<and> length b = 3
                 \<and> (0x80 \<le> last b \<and> last b \<le> 0x8A \<or> last b \<in> {0xA8, 0xA9, 0xAF}) then 3
         else 0)"

lemma ws_len_le: "ws_len s \<le> length s"
  by (cases s rule: remdups_adj.cases; cases "tl (tl s)") (auto simp: ws_len_def Let_def)

lemma ws_len_less: "0 < ws_len s \<Longrightarrow> length s - ws_len s < length s"
  using ws_len_le [of s] by linarith

text \<open>\<open>str::trim\<close>\<close>

function trim_start :: "string \<Rightarrow> string" where
  "trim_start s = (if ws_len s = 0 then s else trim_start (drop (ws_len s) s))"
  by auto
termination by (relation "measure length") (auto intro: ws_len_less)

declare trim_start.simps [simp del]

definition ws_len_end :: "string \<Rightarrow> nat" where
  "ws_len_end s =
     (if s \<noteq> [] \<and> ws_len [last s] = 1 then 1
      else if length s \<ge> 2 \<and> ws_len (drop (length s - 2) s) = 2 then 2
      else if length s \<ge> 3 \<and> ws_len (drop (length s - 3) s) = 3 then 3
      else 0)"

lemma ws_len_end_less: "0 < ws_len_end s \<Longrightarrow> length s - ws_len_end s < length s"
  by (auto simp: ws_len_end_def split: if_splits)

function trim_end :: "string \<Rightarrow> string" where
  "trim_end s = (if ws_len_end s = 0 then s else trim_end (take (length s - ws_len_end s) s))"
  by auto
termination by (relation "measure length") (auto intro: ws_len_end_less)

declare trim_end.simps [simp del]

definition trim :: "string \<Rightarrow> string" where
  "trim s = trim_end (trim_start s)"

text \<open>\<open>str::split_whitespace\<close>: \<open>cur\<close> is the word read so far, in reverse.\<close>

function words :: "string \<Rightarrow> string \<Rightarrow> string list" where
  "words cur s =
     (if s = [] then (if cur = [] then [] else [rev cur])
      else if ws_len s = 0 then words (hd s # cur) (tl s)
      else (if cur = [] then [] else [rev cur]) @ words [] (drop (ws_len s) s))"
  by auto
termination by (relation "measure (\<lambda>(_, s). length s)") (auto intro: ws_len_less)

declare words.simps [simp del]

definition split_whitespace :: "string \<Rightarrow> string list" where
  "split_whitespace s = words [] s"

text \<open>\<open>str::find\<close>: the index of the first occurrence.\<close>

fun find_str :: "string \<Rightarrow> string \<Rightarrow> nat option" where
  "find_str p s =
     (if strip_prefix p s \<noteq> None then Some 0
      else case s of [] \<Rightarrow> None | _ # cs \<Rightarrow> map_option Suc (find_str p cs))"

declare find_str.simps [simp del]

lemma find_str_Some:
  "find_str p s = Some i \<Longrightarrow> s = take i s @ p @ drop (i + length p) s \<and> (\<forall>j < i. strip_prefix p (drop j s) = None)"
proof (induction p s arbitrary: i rule: find_str.induct)
  case (1 p s)
  show ?case
  proof (cases "strip_prefix p s")
    case None
    with "1.prems" obtain c cs j where s: "s = c # cs" and j: "find_str p cs = Some j" "i = Suc j"
      by (auto simp: find_str.simps [of p s] split: list.splits)
    have "cs = take j cs @ p @ drop (j + length p) cs \<and> (\<forall>k < j. strip_prefix p (drop k cs) = None)"
      by (rule "1.IH") (use None s j in auto)
    then show ?thesis using None s j by (auto simp: less_Suc_eq_0_disj)
  next
    case (Some t)
    then have "i = 0" using "1.prems" by (simp add: find_str.simps [of p s])
    then show ?thesis using Some by (simp add: strip_prefix_Some_iff)
  qed
qed

end
