(* ===== verification/Dns_Tree.thy ===== *)
theory Dns_Tree
  imports Rust_Text
begin

text \<open>
  \<open>crates/waku-discv5/src/dns.rs\<close>: EIP-1459 node lists. \<open>parse_enrtree\<close>, \<open>subdomain_hash\<close>,
  \<open>verify_root\<close>, \<open>verify_secp256k1\<close> and the walk of \<open>resolve\<close>. Base32, base64, Keccak, the
  secp256k1 library, the ENR parser and the upper-case table of Unicode are the fields of \<open>DnsEnv\<close>,
  an argument of the definitions; so is the resolver, which answers every name in an arbitrary way.
  The names asked for are part of the result of the walk.
\<close>

section \<open>Definitions\<close>

definition MAX_RECORDS :: nat where
  "MAX_RECORDS = 5000"

datatype DnsError = Url string | Root string | Signature | Resolve string

record ('k, 's, 'e) DnsEnv =
  to_uppercase :: "string \<Rightarrow> string"
  base32_decode :: "bytes \<Rightarrow> (string, bytes) result"
  base32_encode :: "bytes \<Rightarrow> string"
  base64url_decode :: "bytes \<Rightarrow> (string, bytes) result"
  keccak256 :: "bytes \<Rightarrow> bytes"
  verifying_key :: "bytes \<Rightarrow> (string, 'k) result"
  signature_from_slice :: "bytes \<Rightarrow> (string, 's) result"
  verify_prehash :: "'k \<Rightarrow> bytes \<Rightarrow> 's \<Rightarrow> (string, unit) result"
  enr_from_str :: "string \<Rightarrow> (string, 'e) result"

type_synonym resolver = "string \<Rightarrow> (DnsError, string list) result"

record EnrTreeLink =
  pubkey :: bytes
  tree_domain :: string

definition parse_enrtree :: "('k, 's, 'e) DnsEnv \<Rightarrow> string \<Rightarrow> (DnsError, EnrTreeLink) result" where
  "parse_enrtree env url =
     bind_result (ok_or (Url url) (strip_prefix ''enrtree://'' url)) (\<lambda>rest.
     bind_result (ok_or (Url url) (split_once (CHR ''@'') rest)) (\<lambda>(b32key, dn).
     bind_result (map_err (\<lambda>e. Url (''bad base32 pubkey: '' @ e))
         (base32_decode env (as_bytes (to_uppercase env b32key)))) (\<lambda>pk.
     Ok \<lparr>pubkey = pk, tree_domain = dn\<rparr>)))"

definition subdomain_hash :: "('k, 's, 'e) DnsEnv \<Rightarrow> string \<Rightarrow> string" where
  "subdomain_hash env content = base32_encode env (take 16 (keccak256 env (as_bytes content)))"

record RootRecord =
  e_root :: string

definition verify_secp256k1 ::
  "('k, 's, 'e) DnsEnv \<Rightarrow> bytes \<Rightarrow> bytes \<Rightarrow> bytes \<Rightarrow> (DnsError, unit) result" where
  "verify_secp256k1 env msg sig_rs pk =
     (let prehash = keccak256 env msg
      in bind_result (map_err (\<lambda>_. Signature) (verifying_key env pk)) (\<lambda>vk.
         bind_result (map_err (\<lambda>_. Signature) (signature_from_slice env sig_rs)) (\<lambda>sg.
         map_err (\<lambda>_. Signature) (verify_prehash env vk prehash sg))))"

definition verify_root :: "('k, 's, 'e) DnsEnv \<Rightarrow> string \<Rightarrow> bytes \<Rightarrow> (DnsError, RootRecord) result" where
  "verify_root env rec pk =
     bind_result (ok_or (Root ''missing sig'') (find_str '' sig='' rec)) (\<lambda>sig_idx.
     let signed = take sig_idx rec;
         sig_b64 = trim (drop (sig_idx + 5) rec)
     in bind_result (map_err (\<lambda>e. Root (''bad sig base64: '' @ e)) (base64url_decode env (as_bytes sig_b64))) (\<lambda>sg.
        if length sg < 64 then Err (Root ''sig too short'')
        else
          bind_result (verify_secp256k1 env (as_bytes signed) (take 64 sg) pk) (\<lambda>_.
          bind_result (ok_or (Root ''missing e='')
              (case List.map_filter (strip_prefix ''e='') (split_whitespace signed) of [] \<Rightarrow> None | x # _ \<Rightarrow> Some x))
            (\<lambda>e. Ok \<lparr>e_root = e\<rparr>))))"

subsection \<open>The walk\<close>

definition node_name :: "string \<Rightarrow> string \<Rightarrow> string" where
  "node_name dn h = h @ ''.'' @ dn"

text \<open>What one node contributes: the hashes pushed on the stack and the ENRs found.\<close>

definition visit_node ::
  "('k, 's, 'e) DnsEnv \<Rightarrow> resolver \<Rightarrow> string \<Rightarrow> string \<Rightarrow> string list \<times> 'e list" where
  "visit_node env ask dn h =
     (case ask (node_name dn h) of
        Err _ \<Rightarrow> ([], [])
      | Ok records \<Rightarrow>
          (case records of
             [] \<Rightarrow> ([], [])
           | content # _ \<Rightarrow>
               if subdomain_hash env content \<noteq> h then ([], [])
               else case strip_prefix ''enrtree-branch:'' content of
                 Some branch \<Rightarrow> (filter (\<lambda>c. c \<noteq> []) (map trim (split_on (CHR '','') branch)), [])
               | None \<Rightarrow>
                   if strip_prefix ''enr:'' content \<noteq> None then
                     (case enr_from_str env content of Ok e \<Rightarrow> ([], [e]) | Err _ \<Rightarrow> ([], []))
                   else ([], [])))"

text \<open>The loop, with the top of the stack as the head of the list; the second result is the names asked.\<close>

function walk ::
  "('k, 's, 'e) DnsEnv \<Rightarrow> resolver \<Rightarrow> string \<Rightarrow> nat \<Rightarrow> string list \<Rightarrow> string set \<Rightarrow> 'e list \<Rightarrow> 'e list \<times> string list" where
  "walk env ask dn budget [] visited enrs = (enrs, [])"
| "walk env ask dn budget (h # stack) visited enrs =
     (if h = [] \<or> h \<in> visited then walk env ask dn budget stack visited enrs
      else if budget = 0 then (enrs, [])
      else
        let (children, found) = visit_node env ask dn h;
            (r, asked) = walk env ask dn (budget - 1) (rev children @ stack) (insert h visited) (enrs @ found)
        in (r, node_name dn h # asked))"
  by pat_completeness auto
termination by (relation "measures [\<lambda>(_, _, _, b, _, _, _). b, \<lambda>(_, _, _, _, st, _, _). length st]") auto

definition resolve_enrtree ::
  "('k, 's, 'e) DnsEnv \<Rightarrow> resolver \<Rightarrow> string \<Rightarrow> (DnsError, 'e list) result \<times> string list" where
  "resolve_enrtree env ask url =
     (case parse_enrtree env url of
        Err e \<Rightarrow> (Err e, [])
      | Ok link \<Rightarrow>
          let dn = tree_domain link
          in case bind_result (ask dn) (\<lambda>records.
               bind_result (ok_or (Root ''no enrtree-root record'')
                   (List.find (\<lambda>r. strip_prefix ''enrtree-root:v1'' r \<noteq> None) records)) (\<lambda>root_txt.
               verify_root env root_txt (pubkey link))) of
               Err e \<Rightarrow> (Err e, [dn])
             | Ok root \<Rightarrow>
                 (case walk env ask dn MAX_RECORDS [e_root root] {} [] of
                    (enrs, asked) \<Rightarrow> (Ok enrs, dn # asked)))"

section \<open>The published tree\<close>

text \<open>
  What EIP-1459 calls a tree, said of the DNS answers and not of the walk. A record is authentic under a
  name if the first answer to that name is its text and the name is the base32 form of the first 16 bytes of
  the Keccak hash of the text. The nodes of the tree are the root and what the authentic branch records of
  nodes list; its node records are those of the authentic \<open>enr:\<close> records that parse.
\<close>

definition authentic :: "('k, 's, 'e) DnsEnv \<Rightarrow> resolver \<Rightarrow> string \<Rightarrow> string \<Rightarrow> string \<Rightarrow> bool" where
  "authentic env ask dn h content \<longleftrightarrow>
     (\<exists>rest. ask (h @ ''.'' @ dn) = Ok (content # rest))
     \<and> base32_encode env (take 16 (keccak256 env (as_bytes content))) = h"

inductive in_tree :: "('k, 's, 'e) DnsEnv \<Rightarrow> resolver \<Rightarrow> string \<Rightarrow> string \<Rightarrow> string \<Rightarrow> bool"
  for env :: "('k, 's, 'e) DnsEnv" and ask dn r where
  root: "r \<noteq> [] \<Longrightarrow> in_tree env ask dn r r"
| child: "in_tree env ask dn r h \<Longrightarrow> authentic env ask dn h (''enrtree-branch:'' @ list) \<Longrightarrow>
    piece \<in> set (split_on (CHR '','') list) \<Longrightarrow> trim piece \<noteq> [] \<Longrightarrow> in_tree env ask dn r (trim piece)"

definition tree_enrs :: "('k, 's, 'e) DnsEnv \<Rightarrow> resolver \<Rightarrow> string \<Rightarrow> string set \<Rightarrow> 'e set" where
  "tree_enrs env ask dn H =
     {e. \<exists>h \<in> H. \<exists>b64. authentic env ask dn h (''enr:'' @ b64) \<and> enr_from_str env (''enr:'' @ b64) = Ok e}"

text \<open>
  A root record signed with a key: the text before the first \<open> sig=\<close> is what the first 64 bytes of the decoded
  signature sign, and \<open>e\<close> is the value of its first word of the form \<open>e=\<close>.
\<close>

definition signed_root :: "('k, 's, 'e) DnsEnv \<Rightarrow> bytes \<Rightarrow> string \<Rightarrow> string \<Rightarrow> bool" where
  "signed_root env pk rec e \<longleftrightarrow>
     (\<exists>signed b64 sg vk s pre post.
        rec = signed @ '' sig='' @ b64 \<and> (\<forall>i < length signed. strip_prefix '' sig='' (drop i rec) = None)
        \<and> base64url_decode env (as_bytes (trim b64)) = Ok sg \<and> 64 \<le> length sg
        \<and> verifying_key env pk = Ok vk \<and> signature_from_slice env (take 64 sg) = Ok s
        \<and> verify_prehash env vk (keccak256 env (as_bytes signed)) s = Ok ()
        \<and> split_whitespace signed = pre @ (''e='' @ e) # post \<and> (\<forall>w \<in> set pre. strip_prefix ''e='' w = None))"

lemma map_filter_first:
  "List.map_filter f xs = y # ys \<Longrightarrow> \<exists>pre x post. xs = pre @ x # post \<and> f x = Some y \<and> (\<forall>w \<in> set pre. f w = None)"
proof (induction xs)
  case (Cons a xs)
  show ?case
  proof (cases "f a")
    case None
    with Cons obtain pre x post where "xs = pre @ x # post" "f x = Some y" "\<forall>w \<in> set pre. f w = None"
      by (auto simp: List.map_filter_simps)
    then show ?thesis using None by (intro exI [of _ "a # pre"]) auto
  next
    case (Some z)
    with Cons.prems show ?thesis by (intro exI [of _ "[]"]) (auto simp: List.map_filter_simps)
  qed
qed (simp add: List.map_filter_simps)

lemma verify_root_signed:
  assumes "verify_root env rec pk = Ok r"
  shows "signed_root env pk rec (e_root r)"
proof -
  obtain i sg where i: "find_str '' sig='' rec = Some i" and sg: "base64url_decode env (as_bytes (trim (drop (i + 5) rec))) = Ok sg"
    "\<not> length sg < 64" and v: "verify_secp256k1 env (as_bytes (take i rec)) (take 64 sg) pk = Ok ()"
    and e: "(case List.map_filter (strip_prefix ''e='') (split_whitespace (take i rec)) of [] \<Rightarrow> None | x # _ \<Rightarrow> Some x) =
      Some (e_root r)"
    using assms by (auto simp: verify_root_def Let_def split: if_splits)
  have rec: "rec = take i rec @ '' sig='' @ drop (i + 5) rec" "\<forall>j < i. strip_prefix '' sig='' (drop j rec) = None"
    using find_str_Some [OF i] by (simp_all add: eval_nat_numeral)
  from e obtain ys where "List.map_filter (strip_prefix ''e='') (split_whitespace (take i rec)) = e_root r # ys"
    by (auto split: list.splits)
  from map_filter_first [OF this] obtain pre w post where w: "split_whitespace (take i rec) = pre @ w # post"
    "strip_prefix ''e='' w = Some (e_root r)" "\<forall>w \<in> set pre. strip_prefix ''e='' w = None" by blast
  obtain vk s where v: "verifying_key env pk = Ok vk" "signature_from_slice env (take 64 sg) = Ok s"
    "verify_prehash env vk (keccak256 env (as_bytes (take i rec))) s = Ok ()"
    using v by (auto simp: verify_secp256k1_def)
  have "w = ''e='' @ e_root r" using w(2) by (simp only: strip_prefix_Some_iff)
  moreover have "\<forall>j < length (take i rec). strip_prefix '' sig='' (drop j rec) = None" using rec(2) by simp
  ultimately show ?thesis
    unfolding signed_root_def using rec(1) sg(1) sg(2) [unfolded not_less] v w(1,3) by metis
qed

text \<open>What a visit contributes, in these terms.\<close>

lemma visit_children:
  "c \<in> set (fst (visit_node env ask dn h)) \<longleftrightarrow>
   (\<exists>list piece. authentic env ask dn h (''enrtree-branch:'' @ list) \<and> piece \<in> set (split_on (CHR '','') list)
      \<and> trim piece \<noteq> [] \<and> c = trim piece)"
  by (auto simp: visit_node_def authentic_def node_name_def subdomain_hash_def strip_prefix_Some_iff
      split: sum.split list.split option.split)

lemma visit_found:
  "e \<in> set (snd (visit_node env ask dn h)) \<longleftrightarrow>
   (\<exists>b64. authentic env ask dn h (''enr:'' @ b64) \<and> enr_from_str env (''enr:'' @ b64) = Ok e)"
  by (auto simp: visit_node_def authentic_def node_name_def subdomain_hash_def strip_prefix_Some_iff
      split: sum.split list.split option.split)

lemma in_tree_child: "in_tree env ask dn r h \<Longrightarrow> c \<in> set (fst (visit_node env ask dn h)) \<Longrightarrow> in_tree env ask dn r c"
  by (auto simp: visit_children intro: in_tree.child)

lemma in_tree_visit_induct [consumes 1, case_names root child]:
  assumes "in_tree env ask dn r h" "r \<noteq> [] \<Longrightarrow> P r"
    and "\<And>h c. in_tree env ask dn r h \<Longrightarrow> P h \<Longrightarrow> c \<in> set (fst (visit_node env ask dn h)) \<Longrightarrow> P c"
  shows "P h"
  using assms(1)
proof (induction rule: in_tree.induct)
  case (child h list piece)
  then show ?case using assms(3) [of h "trim piece"] visit_children by blast
qed (rule assms(2))

lemma tree_enrs_visit: "tree_enrs env ask dn H = (\<Union>h \<in> H. set (snd (visit_node env ask dn h)))"
  by (rule set_eqI) (simp only: tree_enrs_def mem_Collect_eq UN_iff visit_found)

lemma children_nonempty: "c \<in> set (fst (visit_node env ask dn h)) \<Longrightarrow> c \<noteq> []"
  by (auto simp: visit_node_def split: sum.splits list.splits if_splits option.splits)

lemma found_le_1: "length (snd (visit_node env ask dn h)) \<le> 1"
  by (simp add: visit_node_def split: sum.split list.split option.split)

lemma inj_node_name: "node_name dn h = node_name dn h' \<longleftrightarrow> h = h'"
  by (simp add: node_name_def)

lemma walk_asked:
  "walk env ask dn budget stack visited enrs = (r, asked) \<Longrightarrow>
   distinct asked \<and> length asked \<le> budget \<and> length r \<le> length enrs + budget
   \<and> (\<forall>a \<in> set asked. \<exists>h. h \<noteq> [] \<and> h \<notin> visited \<and> a = node_name dn h)"
proof (induction env ask dn budget stack visited enrs arbitrary: r asked rule: walk.induct)
  case (2 env ask dn budget h stack visited enrs)
  show ?case
  proof (cases "h = [] \<or> h \<in> visited \<or> budget = 0")
    case True
    with 2 show ?thesis by (auto split: if_splits)
  next
    case False
    obtain children found where v: "visit_node env ask dn h = (children, found)" by fastforce
    obtain r' asked' where w: "walk env ask dn (budget - 1) (rev children @ stack) (insert h visited) (enrs @ found)
      = (r', asked')" by fastforce
    have "distinct asked' \<and> length asked' \<le> budget - 1 \<and> length r' \<le> length (enrs @ found) + (budget - 1)
        \<and> (\<forall>a \<in> set asked'. \<exists>x. x \<noteq> [] \<and> x \<notin> insert h visited \<and> a = node_name dn x)"
      using False v w by (intro 2(2)) auto
    moreover have "length found \<le> 1" using found_le_1 [of env ask dn h] v by simp
    moreover have "r = r'" "asked = node_name dn h # asked'" using 2(3) False v w by auto
    ultimately show ?thesis using False by (auto simp: inj_node_name)
  qed
qed simp

lemma walk_sound:
  "walk env ask dn budget stack visited enrs = (r, asked) \<Longrightarrow>
   (\<forall>h \<in> set stack. h = [] \<or> in_tree env ask dn t h) \<Longrightarrow>
   set enrs \<subseteq> tree_enrs env ask dn {h. in_tree env ask dn t h} \<Longrightarrow>
   set r \<subseteq> tree_enrs env ask dn {h. in_tree env ask dn t h}"
proof (induction env ask dn budget stack visited enrs arbitrary: r asked rule: walk.induct)
  case (2 env ask dn budget h stack visited enrs)
  show ?case
  proof (cases "h = [] \<or> h \<in> visited \<or> budget = 0")
    case True
    with 2 show ?thesis by (auto split: if_splits)
  next
    case False
    obtain children found where v: "visit_node env ask dn h = (children, found)" by fastforce
    obtain r' asked' where w: "walk env ask dn (budget - 1) (rev children @ stack) (insert h visited) (enrs @ found)
      = (r', asked')" by fastforce
    have h: "in_tree env ask dn t h" using 2(4) False by simp
    have "set r' \<subseteq> tree_enrs env ask dn {h. in_tree env ask dn t h}"
    proof (rule 2(2) [OF _ _ v [symmetric] _ w])
      show "\<forall>x \<in> set (rev children @ stack). x = [] \<or> in_tree env ask dn t x"
        using 2(4) v in_tree_child [OF h] by auto
      show "set (enrs @ found) \<subseteq> tree_enrs env ask dn {h. in_tree env ask dn t h}"
        using 2(5) h v by (force simp: tree_enrs_visit)
    qed (use False in auto)
    moreover have "r = r'" using 2(3) False v w by auto
    ultimately show ?thesis by simp
  qed
qed simp

lemma walk_complete:
  "walk env ask dn budget stack visited enrs = (r, asked) \<Longrightarrow>
   finite {h. in_tree env ask dn t h} \<Longrightarrow> card ({h. in_tree env ask dn t h} - visited) \<le> budget \<Longrightarrow>
   (\<forall>h \<in> set stack. h = [] \<or> in_tree env ask dn t h) \<Longrightarrow>
   t = [] \<or> t \<in> visited \<union> set stack \<Longrightarrow>
   (\<forall>h \<in> visited. set (fst (visit_node env ask dn h)) \<subseteq> visited \<union> set stack) \<Longrightarrow>
   tree_enrs env ask dn visited \<subseteq> set enrs \<Longrightarrow>
   tree_enrs env ask dn {h. in_tree env ask dn t h} \<subseteq> set r"
proof (induction env ask dn budget stack visited enrs arbitrary: r asked rule: walk.induct)
  case (1 env ask dn budget visited enrs)
  have "h \<in> visited" if "in_tree env ask dn t h" for h
    using that by (induction rule: in_tree_visit_induct) (use 1 in auto)
  with 1 show ?case by (fastforce simp: tree_enrs_visit)
next
  case (2 env ask dn budget h stack visited enrs)
  let ?N = "{h. in_tree env ask dn t h}"
  show ?case
  proof (cases "h = [] \<or> h \<in> visited")
    case True
    have "set (fst (visit_node env ask dn x)) \<subseteq> visited \<union> set stack" if "x \<in> visited" for x
      using 2(8) that True children_nonempty [of _ env ask dn x] by fastforce
    with True 2(3-) show ?thesis by (intro 2(1)) auto
  next
    case False
    then have h: "h \<in> ?N - visited" using 2(6) by simp
    then have c: "card (?N - insert h visited) < card (?N - visited)"
      using 2(4) by (intro psubset_card_mono) auto
    then have b: "budget \<noteq> 0" using 2(5) by linarith
    obtain children found where v: "visit_node env ask dn h = (children, found)" by fastforce
    obtain r' asked' where w: "walk env ask dn (budget - 1) (rev children @ stack) (insert h visited) (enrs @ found)
      = (r', asked')" by fastforce
    have "tree_enrs env ask dn ?N \<subseteq> set r'"
    proof (rule 2(2) [OF _ _ v [symmetric] _ w 2(4)])
      show "card (?N - insert h visited) \<le> budget - 1" using c 2(5) by linarith
      show "\<forall>x \<in> set (rev children @ stack). x = [] \<or> in_tree env ask dn t x"
        using 2(6) v in_tree_child [of env ask dn t h] h by auto
      show "\<forall>x \<in> insert h visited. set (fst (visit_node env ask dn x)) \<subseteq> insert h visited \<union> set (rev children @ stack)"
        using 2(8) v by fastforce
      show "tree_enrs env ask dn (insert h visited) \<subseteq> set (enrs @ found)"
        using 2(9) v by (auto simp: tree_enrs_visit)
    qed (use False b 2(7) in auto)
    moreover have "r = r'" using 2(3) False b v w by auto
    ultimately show ?thesis by simp
  qed
qed

lemma resolve_Ok:
  assumes "resolve_enrtree env ask url = (Ok enrs, asked)"
  obtains link records root_txt r asked' where "parse_enrtree env url = Ok link"
    "ask (tree_domain link) = Ok records" "root_txt \<in> set records" "verify_root env root_txt (pubkey link) = Ok r"
    "walk env ask (tree_domain link) MAX_RECORDS [e_root r] {} [] = (enrs, asked')" "asked = tree_domain link # asked'"
proof -
  obtain link where l: "parse_enrtree env url = Ok link"
    using assms by (auto simp: resolve_enrtree_def split: sum.splits)
  let ?rt = "bind_result (ask (tree_domain link)) (\<lambda>records.
    bind_result (ok_or (Root ''no enrtree-root record'')
        (List.find (\<lambda>r. strip_prefix ''enrtree-root:v1'' r \<noteq> None) records)) (\<lambda>root_txt.
    verify_root env root_txt (pubkey link)))"
  obtain r where r: "?rt = Ok r" using assms l by (auto simp: resolve_enrtree_def Let_def split: sum.splits)
  obtain records root_txt where "ask (tree_domain link) = Ok records"
    "List.find (\<lambda>r. strip_prefix ''enrtree-root:v1'' r \<noteq> None) records = Some root_txt"
    "verify_root env root_txt (pubkey link) = Ok r"
    using r by auto
  moreover from this(2) have "root_txt \<in> set records" by (auto simp: find_Some_iff)
  moreover obtain asked' where "walk env ask (tree_domain link) MAX_RECORDS [e_root r] {} [] = (enrs, asked')"
    "asked = tree_domain link # asked'"
    using assms l r by (auto simp: resolve_enrtree_def Let_def simp del: bind_result_Inr_iff split: prod.splits)
  ultimately show ?thesis using l that by blast
qed

section \<open>Properties\<close>

text \<open>C23: Resolution always ends, whatever the resolver answers and even when the records form cycles: no
  name is asked twice, at most 5000 records are fetched besides the root, and at most 5000 node
  records are returned.\<close>

theorem resolve_bounded:
  "case resolve_enrtree env ask url of (res, asked) \<Rightarrow>
     distinct asked \<and> length asked \<le> 1 + MAX_RECORDS
     \<and> (case res of Ok enrs \<Rightarrow> length enrs \<le> MAX_RECORDS | Err _ \<Rightarrow> True)"
proof -
  have w: "distinct (dn # asked') \<and> length asked' \<le> n \<and> length r \<le> n"
    if "walk env ask dn n [h] {} [] = (r, asked')" for dn h n r asked'
    using walk_asked [OF that] by (auto simp: node_name_def)
  show ?thesis
    by (auto simp: resolve_enrtree_def Let_def simp del: walk.simps split: sum.split prod.split dest: w)
qed

text \<open>C22: Resolution is exact: a successful resolution starts from a root record of the domain that is
  signed with the key of the URL, returns only node records of the tree below that root, each in a
  record that hashes to the name it was found under and is named by a branch record that does, and
  returns all of them unless the tree has more than 5000 nodes.\<close>

theorem resolve_exact:
  assumes "resolve_enrtree env ask url = (Ok enrs, asked)"
  shows "\<exists>link records root_txt e. parse_enrtree env url = Ok link
    \<and> ask (tree_domain link) = Ok records \<and> root_txt \<in> set records
    \<and> signed_root env (pubkey link) root_txt e
    \<and> (let N = {h. in_tree env ask (tree_domain link) e h}
       in set enrs \<subseteq> tree_enrs env ask (tree_domain link) N
          \<and> (finite N \<and> card N \<le> MAX_RECORDS \<longrightarrow> set enrs = tree_enrs env ask (tree_domain link) N))"
proof -
  obtain link records root_txt r asked' where l: "parse_enrtree env url = Ok link"
    "ask (tree_domain link) = Ok records" "root_txt \<in> set records" "verify_root env root_txt (pubkey link) = Ok r"
    and w: "walk env ask (tree_domain link) MAX_RECORDS [e_root r] {} [] = (enrs, asked')"
    using assms by (rule resolve_Ok)
  let ?N = "{h. in_tree env ask (tree_domain link) (e_root r) h}"
  have "set enrs \<subseteq> tree_enrs env ask (tree_domain link) ?N"
    by (rule walk_sound [OF w]) (auto intro: in_tree.root)
  moreover have "tree_enrs env ask (tree_domain link) ?N \<subseteq> set enrs" if "finite ?N" "card ?N \<le> MAX_RECORDS"
    by (rule walk_complete [OF w that(1)]) (use that(2) in \<open>auto intro: in_tree.root simp: tree_enrs_visit\<close>)
  ultimately show ?thesis using l(1-3) verify_root_signed [OF l(4)] by (auto simp: Let_def)
qed

text \<open>C21: Whoever controls the DNS answers can leave node records out but cannot add any: if the key signs
  one root only and no second record with a published hash is found, then whatever the resolver
  answers, a successful resolution returns only node records that were published.\<close>

theorem tampering_only_omits:
  assumes "parse_enrtree env url = Ok link"
    and "\<forall>rec r. verify_root env rec (pubkey link) = Ok r \<longrightarrow> e_root r = e"
    and "\<forall>h. in_tree env pub (tree_domain link) e h \<longrightarrow>
      (\<exists>c cs. pub (node_name (tree_domain link) h) = Ok (c # cs) \<and> subdomain_hash env c = h)"
    and "\<forall>h c cs c' cs'. pub (node_name (tree_domain link) h) = Ok (c # cs)
      \<and> ask (node_name (tree_domain link) h) = Ok (c' # cs')
      \<and> subdomain_hash env c = h \<and> subdomain_hash env c' = h \<longrightarrow> c' = c"
    and "resolve_enrtree env ask url = (Ok enrs, asked)"
  shows "set enrs \<subseteq> tree_enrs env pub (tree_domain link) {h. in_tree env pub (tree_domain link) e h}"
proof -
  let ?d = "tree_domain link"
  obtain link' root_txt r' asked' where "parse_enrtree env url = Ok link'"
    "verify_root env root_txt (pubkey link') = Ok r'"
    "walk env ask (tree_domain link') MAX_RECORDS [e_root r'] {} [] = (enrs, asked')"
    using assms(5) by (rule resolve_Ok)
  moreover from this(1) have "link' = link" using assms(1) by simp
  ultimately have w: "walk env ask ?d MAX_RECORDS [e] {} [] = (enrs, asked')" using assms(2) by blast
  have visit: "set (fst (visit_node env ask ?d h)) \<subseteq> set (fst (visit_node env pub ?d h))
      \<and> set (snd (visit_node env ask ?d h)) \<subseteq> set (snd (visit_node env pub ?d h))" if h: "in_tree env pub ?d e h" for h
  proof (cases "visit_node env ask ?d h = ([], [])")
    case False
    then obtain c' cs' where c': "ask (node_name ?d h) = Ok (c' # cs')" "subdomain_hash env c' = h"
      by (auto simp: visit_node_def split: sum.splits list.splits if_splits)
    obtain c cs where c: "pub (node_name ?d h) = Ok (c # cs)" "subdomain_hash env c = h"
      using assms(3) h by blast
    have "c' = c" using assms(4) c c' by blast
    then have "visit_node env ask ?d h = visit_node env pub ?d h"
      using c c' by (simp add: visit_node_def)
    then show ?thesis by simp
  qed simp
  have sub: "in_tree env pub ?d e h" if "in_tree env ask ?d e h" for h
    using that by (induction rule: in_tree_visit_induct) (auto intro: in_tree.root in_tree_child dest: visit)
  have "set enrs \<subseteq> tree_enrs env ask ?d {h. in_tree env ask ?d e h}"
    by (rule walk_sound [OF w]) (auto intro: in_tree.root)
  also have "\<dots> \<subseteq> tree_enrs env pub ?d {h. in_tree env pub ?d e h}"
    using sub visit by (fastforce simp: tree_enrs_visit)
  finally show ?thesis .
qed

section \<open>A concrete tree\<close>

text \<open>The hash is the first sixteen characters; the key signs one root record. The tree is a branch with
  two node records; \<open>ex_evil\<close> withholds one of them and adds a record of its own.\<close>

definition ex_signed :: string where
  "ex_signed = ''enrtree-root:v1 e=enrtree-branch:e seq=1''"

definition ex_dns :: "(unit, unit, string) DnsEnv" where
  "ex_dns =
     \<lparr>to_uppercase = id, base32_decode = Ok, base32_encode = map (\<lambda>b. char_of (unat b)),
      base64url_decode = (\<lambda>_. Ok (replicate 65 0)), keccak256 = id,
      verifying_key = (\<lambda>_. Ok ()), signature_from_slice = (\<lambda>_. Ok ()),
      verify_prehash = (\<lambda>_ h _. if h = as_bytes ex_signed then Ok () else Err ''bad signature''),
      enr_from_str = Ok\<rparr>"

definition ex_txt :: resolver where
  "ex_txt nm =
     (if nm = ''d'' then Ok [ex_signed @ '' sig=AA'']
      else if nm = ''enrtree-branch:e.d'' then Ok [''enrtree-branch:enr:a, enr:b'']
      else if nm = ''enr:a.d'' then Ok [''enr:a'']
      else if nm = ''enr:b.d'' then Ok [''enr:b'']
      else Err (Resolve ''no such name''))"

definition ex_evil :: resolver where
  "ex_evil nm = (if nm = ''enr:a.d'' then Ok [''enr:evil''] else ex_txt nm)"

definition ex_url :: string where
  "ex_url = ''enrtree://K@d''"

lemma ex_parse: "parse_enrtree ex_dns ex_url = Ok \<lparr>pubkey = as_bytes ''K'', tree_domain = ''d''\<rparr>"
  by code_simp

lemma ex_signed_root: "List.map_filter (strip_prefix ''e='') (split_whitespace ex_signed) = [''enrtree-branch:e'']"
  by code_simp

lemma ex_subdomain [simp]: "subdomain_hash ex_dns c = take 16 c"
proof -
  have "char_of (unat (of_char x :: u8)) = x" for x
  proof -
    have "(of_char x :: u8) = word_of_nat (of_char x)" by (simp add: of_char_def)
    moreover have "(of_char x :: nat) < 256" by simp
    ultimately show ?thesis by (simp add: unat_of_nat take_bit_eq_mod)
  qed
  then show ?thesis by (simp add: subdomain_hash_def ex_dns_def as_bytes_def take_map comp_def)
qed

lemma ex_children: "map trim (split_on (CHR '','') ''enr:a, enr:b'') = [''enr:a'', ''enr:b'']"
  by code_simp

lemma ex_visit:
  "visit_node ex_dns ex_txt ''d'' ''enrtree-branch:e'' = ([''enr:a'', ''enr:b''], [])"
  "visit_node ex_dns ex_txt ''d'' ''enr:a'' = ([], [''enr:a''])"
  "visit_node ex_dns ex_txt ''d'' ''enr:b'' = ([], [''enr:b''])"
  by (simp_all add: visit_node_def ex_txt_def node_name_def ex_children del: split_on.simps list.map)
    (simp_all add: ex_dns_def)

lemma ex_visit_evil:
  "visit_node ex_dns ex_evil ''d'' ''enrtree-branch:e'' = ([''enr:a'', ''enr:b''], [])"
  "visit_node ex_dns ex_evil ''d'' ''enr:a'' = ([], [])"
  "visit_node ex_dns ex_evil ''d'' ''enr:b'' = ([], [''enr:b''])"
  by (simp_all add: visit_node_def ex_evil_def ex_txt_def node_name_def ex_children del: split_on.simps list.map)
    (simp_all add: ex_dns_def)

lemma ex_verify_root: "verify_root ex_dns (ex_signed @ '' sig=AA'') pk = Ok \<lparr>e_root = ''enrtree-branch:e''\<rparr>"
proof -
  have "find_str '' sig='' (ex_signed @ '' sig=AA'') = Some (length ex_signed)" by code_simp
  then show ?thesis by (simp add: verify_root_def ex_signed_root verify_secp256k1_def ex_dns_def
        del: bind_result_Inr_iff)
qed

lemma ex_find: "\<exists>y. strip_prefix ''enrtree-root:v1'' (ex_signed @ '' sig=AA'') = Some y"
  by (simp add: ex_signed_def)

lemma ex_resolve:
  "fst (resolve_enrtree ex_dns ex_txt ex_url) = Ok [''enr:b'', ''enr:a'']"
  "fst (resolve_enrtree ex_dns ex_evil ex_url) = Ok [''enr:b'']"
  by (simp_all add: resolve_enrtree_def ex_parse ex_txt_def [of "''d''"] ex_evil_def [of "''d''"] ex_find
      ex_verify_root ex_visit ex_visit_evil MAX_RECORDS_def Let_def)

lemma ex_in_tree: "in_tree ex_dns ex_txt ''d'' ''enrtree-branch:e'' h \<Longrightarrow>
    h \<in> {''enrtree-branch:e'', ''enr:a'', ''enr:b''}"
  by (induction rule: in_tree_visit_induct) (auto simp: ex_visit)

lemma ex_in_evil: "in_tree ex_dns ex_evil ''d'' ''enrtree-branch:e'' h \<Longrightarrow>
    h \<in> {''enrtree-branch:e'', ''enr:a'', ''enr:b''}"
  by (induction rule: in_tree_visit_induct) (auto simp: ex_visit_evil)

lemma ex_signed_root_only:
  assumes "signed_root ex_dns pk rec e"
  shows "e = ''enrtree-branch:e''"
proof -
  obtain signed vk s pre post where v: "verify_prehash ex_dns vk (keccak256 ex_dns (as_bytes signed)) s = Ok ()"
    and w: "split_whitespace signed = pre @ (''e='' @ e) # post" "\<forall>w \<in> set pre. strip_prefix ''e='' w = None"
    using assms unfolding signed_root_def by blast
  from v have "signed = ex_signed" by (simp add: ex_dns_def split: if_splits)
  moreover have "List.map_filter (strip_prefix ''e='') pre = []"
    using w(2) by (induction pre) (simp_all add: List.map_filter_simps)
  ultimately have "e # List.map_filter (strip_prefix ''e='') post = [''enrtree-branch:e'']"
    using ex_signed_root w(1) by (simp add: List.map_filter_def)
  then show ?thesis by simp
qed

text \<open>The forged record of \<open>ex_evil\<close> is not authentic, and the resolution leaves it out.\<close>

theorem resolve_exact_witness:
  "\<exists>rec e. signed_root ex_dns (as_bytes ''K'') rec e
     \<and> {''enr:b''} = tree_enrs ex_dns ex_evil ''d'' {h. in_tree ex_dns ex_evil ''d'' e h}"
proof -
  obtain asked where r: "resolve_enrtree ex_dns ex_evil ex_url = (Ok [''enr:b''], asked)"
    using ex_resolve(2) by (metis prod.collapse)
  obtain link rec e where l: "parse_enrtree ex_dns ex_url = Ok link" "signed_root ex_dns (pubkey link) rec e"
    "(let N = {h. in_tree ex_dns ex_evil (tree_domain link) e h}
      in set [''enr:b''] \<subseteq> tree_enrs ex_dns ex_evil (tree_domain link) N
        \<and> (finite N \<and> card N \<le> MAX_RECORDS \<longrightarrow> set [''enr:b''] = tree_enrs ex_dns ex_evil (tree_domain link) N))"
    using resolve_exact [OF r] by blast
  have link: "pubkey link = as_bytes ''K''" "tree_domain link = ''d''" using l(1) unfolding ex_parse by auto
  let ?N = "{h. in_tree ex_dns ex_evil ''d'' e h}"
  have "?N \<subseteq> {''enrtree-branch:e'', ''enr:a'', ''enr:b''}"
    using ex_in_evil ex_signed_root_only [OF l(2)] by blast
  moreover have "finite {''enrtree-branch:e'', ''enr:a'', ''enr:b''}" "card {''enrtree-branch:e'', ''enr:a'', ''enr:b''} \<le> MAX_RECORDS"
    by (simp_all add: MAX_RECORDS_def)
  ultimately have "finite ?N" "card ?N \<le> MAX_RECORDS"
    by (meson finite_subset card_mono order_trans)+
  then have "set [''enr:b''] = tree_enrs ex_dns ex_evil ''d'' ?N" using l(3) unfolding link Let_def by blast
  then show ?thesis using l(2) unfolding link list.set by blast
qed

lemma ex_one_root: "verify_root ex_dns rec pk = Ok r \<Longrightarrow> e_root r = ''enrtree-branch:e''"
  by (rule ex_signed_root_only) (rule verify_root_signed)

lemma ex_no_collision:
  assumes "ex_txt (node_name ''d'' h) = Ok (c # cs)" "ex_evil (node_name ''d'' h) = Ok (c' # cs')" "subdomain_hash ex_dns c' = h"
  shows "c' = c"
proof (cases "node_name ''d'' h = node_name ''d'' ''enr:a''")
  case True
  have evil: "subdomain_hash ex_dns ''enr:evil'' \<noteq> ''enr:a''" by simp
  have "h = ''enr:a''" using True by (simp only: inj_node_name)
  moreover have "c' = ''enr:evil''" using True assms(2) by (simp add: ex_evil_def node_name_def)
  ultimately show ?thesis using assms(3) evil by blast
next
  case False
  then have "ex_evil (node_name ''d'' h) = ex_txt (node_name ''d'' h)"
    by (simp add: ex_evil_def node_name_def)
  with assms show ?thesis by simp
qed

theorem tampering_only_omits_witness:
  "set [''enr:b''] \<subseteq> tree_enrs ex_dns ex_txt ''d'' {h. in_tree ex_dns ex_txt ''d'' ''enrtree-branch:e'' h}"
proof -
  obtain asked where r: "resolve_enrtree ex_dns ex_evil ex_url = (Ok [''enr:b''], asked)"
    using ex_resolve(2) by (metis prod.collapse)
  have pub: "\<exists>c cs. ex_txt (node_name ''d'' h) = Ok (c # cs) \<and> subdomain_hash ex_dns c = h"
    if "in_tree ex_dns ex_txt ''d'' ''enrtree-branch:e'' h" for h
    using ex_in_tree [OF that] by (auto simp: ex_txt_def node_name_def)
  define link where "link = \<lparr>pubkey = as_bytes ''K'', tree_domain = ''d''\<rparr>"
  have d: "tree_domain link = ''d''" by (simp add: link_def)
  have "set [''enr:b''] \<subseteq> tree_enrs ex_dns ex_txt (tree_domain link)
      {h. in_tree ex_dns ex_txt (tree_domain link) ''enrtree-branch:e'' h}"
  proof (rule tampering_only_omits [OF ex_parse [folded link_def] _ _ _ r])
    show "\<forall>rec r. verify_root ex_dns rec (pubkey link) = Ok r \<longrightarrow> e_root r = ''enrtree-branch:e''"
      using ex_one_root by blast
    show "\<forall>h. in_tree ex_dns ex_txt (tree_domain link) ''enrtree-branch:e'' h \<longrightarrow>
        (\<exists>c cs. ex_txt (node_name (tree_domain link) h) = Ok (c # cs) \<and> subdomain_hash ex_dns c = h)"
      unfolding d using pub by blast
    show "\<forall>h c cs c' cs'. ex_txt (node_name (tree_domain link) h) = Ok (c # cs)
        \<and> ex_evil (node_name (tree_domain link) h) = Ok (c' # cs')
        \<and> subdomain_hash ex_dns c = h \<and> subdomain_hash ex_dns c' = h \<longrightarrow> c' = c"
      unfolding d by (intro allI impI, elim conjE) (rule ex_no_collision)
  qed
  then show ?thesis unfolding d .
qed

end
