(* ===== verification/Rust_Utf8.thy ===== *)
theory Rust_Utf8
  imports Waku_Prelude
begin

text \<open>
  \<open>String::from_utf8_lossy\<close> of the Rust standard library: invalid UTF-8 is replaced by U+FFFD, one for each
  maximal prefix of a character that is cut short. The reference is the encoding of Unicode scalar
  values in \<open>utf8\<close>.
\<close>

section \<open>Definitions\<close>

text \<open>
  The first character of a non-empty byte slice: whether it is valid, and how many bytes are taken. A byte
  past the end reads as zero.
\<close>

definition byte_at :: "bytes \<Rightarrow> nat \<Rightarrow> nat" where
  "byte_at bs i = (if i < length bs then unat (bs ! i) else 0)"

definition cont_at :: "bytes \<Rightarrow> nat \<Rightarrow> bool" where
  "cont_at bs i \<longleftrightarrow> 0x80 \<le> byte_at bs i \<and> byte_at bs i \<le> 0xBF"

definition second_ok :: "bytes \<Rightarrow> bool" where
  "second_ok bs =
     (let b = byte_at bs 0; c = byte_at bs 1
      in if b = 0xE0 then 0xA0 \<le> c \<and> c \<le> 0xBF
         else if b = 0xED then 0x80 \<le> c \<and> c \<le> 0x9F
         else if b = 0xF0 then 0x90 \<le> c \<and> c \<le> 0xBF
         else if b = 0xF4 then 0x80 \<le> c \<and> c \<le> 0x8F
         else 0x80 \<le> c \<and> c \<le> 0xBF)"

definition utf8_char :: "bytes \<Rightarrow> bool \<times> nat" where
  "utf8_char bs =
     (let b = byte_at bs 0
      in if b < 0x80 then (True, 1)
         else if 0xC2 \<le> b \<and> b \<le> 0xDF then (if cont_at bs 1 then (True, 2) else (False, 1))
         else if 0xE0 \<le> b \<and> b \<le> 0xEF then
           (if \<not> second_ok bs then (False, 1) else if cont_at bs 2 then (True, 3) else (False, 2))
         else if 0xF0 \<le> b \<and> b \<le> 0xF4 then
           (if \<not> second_ok bs then (False, 1) else if \<not> cont_at bs 2 then (False, 2)
            else if cont_at bs 3 then (True, 4) else (False, 3))
         else (False, 1))"

definition REPLACEMENT :: bytes where
  "REPLACEMENT = [0xEF, 0xBF, 0xBD]"

lemma utf8_char_pos: "0 < snd (utf8_char bs)"
  by (simp add: utf8_char_def Let_def)

lemma utf8_char_less: "(valid, n) = utf8_char bs \<Longrightarrow> bs \<noteq> [] \<Longrightarrow> length bs - n < length bs"
  using utf8_char_pos [of bs] by (cases bs) (auto dest: sym)

function from_utf8_lossy :: "bytes \<Rightarrow> bytes" where
  "from_utf8_lossy bs =
     (if bs = [] then []
      else case utf8_char bs of
        (valid, n) \<Rightarrow> (if valid then take n bs else REPLACEMENT) @ from_utf8_lossy (drop n bs))"
  by auto
termination by (relation "measure length") (auto dest: utf8_char_less)

declare from_utf8_lossy.simps [simp del]

section \<open>The encoding of scalar values\<close>

definition scalar :: "nat \<Rightarrow> bool" where
  "scalar c \<longleftrightarrow> c < 0x110000 \<and> \<not> (0xD800 \<le> c \<and> c < 0xE000)"

definition utf8_nats :: "nat \<Rightarrow> nat list" where
  "utf8_nats c =
     (if c < 0x80 then [c]
      else if c < 0x800 then [0xC0 + c div 64, 0x80 + c mod 64]
      else if c < 0x10000 then [0xE0 + c div 4096, 0x80 + c div 64 mod 64, 0x80 + c mod 64]
      else [0xF0 + c div 262144, 0x80 + c div 4096 mod 64, 0x80 + c div 64 mod 64, 0x80 + c mod 64])"

definition utf8 :: "nat \<Rightarrow> bytes" where
  "utf8 c = map word_of_nat (utf8_nats c)"

definition valid_utf8 :: "bytes \<Rightarrow> bool" where
  "valid_utf8 bs \<longleftrightarrow> (\<exists>cs. (\<forall>c \<in> set cs. scalar c) \<and> bs = concat (map utf8 cs))"

lemma utf8_nats_less: "scalar c \<Longrightarrow> x \<in> set (utf8_nats c) \<Longrightarrow> x < 256"
  by (auto simp: scalar_def utf8_nats_def split: if_splits)

lemma length_utf8 [simp]: "length (utf8 c) = length (utf8_nats c)"
  by (simp add: utf8_def)

lemma byte_at_utf8:
  "scalar c \<Longrightarrow> i < length (utf8_nats c) \<Longrightarrow> byte_at (utf8 c @ rest) i = utf8_nats c ! i"
  using utf8_nats_less [of c "utf8_nats c ! i"]
  by (simp add: byte_at_def nth_append utf8_def unat_of_nat take_bit_eq_mod)

text \<open>The groups of six bits.\<close>

lemma split3: "(c :: nat) = 4096 * (c div 4096) + 64 * (c div 64 mod 64) + c mod 64"
proof -
  have "c div 64 div 64 = c div 4096" by (simp add: div_mult2_eq [symmetric])
  then show ?thesis using mult_div_mod_eq [of 64 c] mult_div_mod_eq [of 64 "c div 64"] by linarith
qed

lemma split4: "(c :: nat) = 262144 * (c div 262144) + 4096 * (c div 4096 mod 64) + 64 * (c div 64 mod 64) + c mod 64"
proof -
  have "c div 4096 div 64 = c div 262144" by (simp add: div_mult2_eq [symmetric])
  then show ?thesis using split3 [of c] mult_div_mod_eq [of 64 "c div 4096"] by linarith
qed

lemma digits3:
  assumes "y < 64" "z < (64 :: nat)"
  shows "(4096 * x + 64 * y + z) div 4096 = x" "(4096 * x + 64 * y + z) div 64 mod 64 = y"
    "(4096 * x + 64 * y + z) mod 64 = z"
proof -
  have d: "(4096 * x + 64 * y + z) div 64 = 64 * x + y"
    using assms(2) by (simp add: div_nat_eqI)
  show "(4096 * x + 64 * y + z) div 4096 = x" using assms by (simp add: div_nat_eqI)
  show "(4096 * x + 64 * y + z) div 64 mod 64 = y" using assms(1) by (simp add: d)
  have "4096 * x + 64 * y + z = z + 64 * (64 * x + y)" by simp
  then show "(4096 * x + 64 * y + z) mod 64 = z" using assms(2) by (metis mod_less mod_mult_self2)
qed

lemma digits4:
  assumes "x < 64" "y < 64" "z < (64 :: nat)"
  shows "(262144 * w + 4096 * x + 64 * y + z) div 262144 = w" "(262144 * w + 4096 * x + 64 * y + z) div 4096 mod 64 = x"
    "(262144 * w + 4096 * x + 64 * y + z) div 64 mod 64 = y" "(262144 * w + 4096 * x + 64 * y + z) mod 64 = z"
proof -
  have e: "262144 * w + 4096 * x + 64 * y + z = 4096 * (64 * w + x) + 64 * y + z" by simp
  show "(262144 * w + 4096 * x + 64 * y + z) div 262144 = w" using assms by (simp add: div_nat_eqI)
  show "(262144 * w + 4096 * x + 64 * y + z) div 4096 mod 64 = x"
    unfolding e digits3 [OF assms(2,3)] using assms(1) by simp
  show "(262144 * w + 4096 * x + 64 * y + z) div 64 mod 64 = y" "(262144 * w + 4096 * x + 64 * y + z) mod 64 = z"
    unfolding e by (rule digits3 [OF assms(2,3)])+
qed

lemma second_ok_3:
  assumes "0x800 \<le> c" "c < 0x10000" "scalar c"
    and "byte_at bs 0 = 0xE0 + c div 4096" "byte_at bs 1 = 0x80 + c div 64 mod 64"
  shows "second_ok bs"
proof -
  define x y z where "x = c div 4096" "y = c div 64 mod 64" "z = c mod 64"
  note xyz = this
  have c: "c = 4096 * x + 64 * y + z" using split3 [of c] by (simp only: xyz)
  have "y < 64" "z < 64" unfolding xyz by simp_all
  moreover have "byte_at bs 0 = 0xE0 + x" "byte_at bs 1 = 0x80 + y" using assms(4,5) by (simp_all only: xyz)
  moreover have "\<not> (0xD800 \<le> c \<and> c < 0xE000)" using assms(3) by (simp add: scalar_def)
  ultimately show ?thesis using assms(1,2) unfolding second_ok_def Let_def c by (simp split: if_split) linarith
qed

lemma second_ok_4:
  assumes "0x10000 \<le> c" "scalar c"
    and "byte_at bs 0 = 0xF0 + c div 262144" "byte_at bs 1 = 0x80 + c div 4096 mod 64"
  shows "second_ok bs"
proof -
  define w x y z where "w = c div 262144" "x = c div 4096 mod 64" "y = c div 64 mod 64" "z = c mod 64"
  note wxyz = this
  have c: "c = 262144 * w + 4096 * x + 64 * y + z" using split4 [of c] by (simp only: wxyz)
  have "x < 64" "y < 64" "z < 64" unfolding wxyz by simp_all
  moreover have "byte_at bs 0 = 0xF0 + w" "byte_at bs 1 = 0x80 + x" using assms(3,4) by (simp_all only: wxyz)
  moreover have "c < 0x110000" using assms(2) by (simp add: scalar_def)
  ultimately show ?thesis using assms(1) unfolding second_ok_def Let_def c by (simp split: if_split)
qed

lemma utf8_char_utf8:
  assumes "scalar c"
  shows "utf8_char (utf8 c @ rest) = (True, length (utf8 c))"
proof -
  let ?bs = "utf8 c @ rest"
  note b = byte_at_utf8 [OF assms, of _ rest]
  have m: "x mod 64 \<le> 63" for x :: nat using mod_less_divisor [of 64 x] by linarith
  consider "c < 0x80" | "0x80 \<le> c" "c < 0x800" | "0x800 \<le> c" "c < 0x10000" | "0x10000 \<le> c" by linarith
  then show ?thesis
  proof cases
    case 1
    then show ?thesis using b [of 0] by (simp add: utf8_char_def utf8_nats_def)
  next
    case 2
    then show ?thesis
      using b [of 0] b [of 1] m by (auto simp: utf8_char_def utf8_nats_def cont_at_def Let_def)
  next
    case 3
    then have *: "byte_at ?bs 0 = 0xE0 + c div 4096" "byte_at ?bs 1 = 0x80 + c div 64 mod 64"
      "byte_at ?bs 2 = 0x80 + c mod 64"
      using b [of 0] b [of 1] b [of 2] by (simp_all add: utf8_nats_def)
    have "c div 4096 \<le> 15" using 3 by simp
    with second_ok_3 [OF 3 assms *(1,2)] * 3 m show ?thesis
      by (simp add: utf8_char_def utf8_nats_def cont_at_def Let_def)
  next
    case 4
    then have *: "byte_at ?bs 0 = 0xF0 + c div 262144" "byte_at ?bs 1 = 0x80 + c div 4096 mod 64"
      "byte_at ?bs 2 = 0x80 + c div 64 mod 64" "byte_at ?bs 3 = 0x80 + c mod 64"
      using b [of 0] b [of 1] b [of 2] b [of 3] by (simp_all add: utf8_nats_def)
    have "c div 262144 < 5" using assms by (intro less_mult_imp_div_less) (simp add: scalar_def)
    with second_ok_4 [OF 4 assms *(1,2)] * 4 m show ?thesis
      by (simp add: utf8_char_def utf8_nats_def cont_at_def Let_def)
  qed
qed

lemma take_bytes: "n \<le> length bs \<Longrightarrow> take n bs = map (\<lambda>i. word_of_nat (byte_at bs i)) [0..<n]"
  by (rule nth_equalityI) (simp_all add: byte_at_def)

lemma byte_at_pos: "0 < byte_at bs i \<Longrightarrow> i < length bs"
  by (simp add: byte_at_def split: if_splits)

lemma upt_small: "[0..<2] = [0, 1]" "[0..<3] = [0, 1, 2]" "[0..<4] = [0, 1, 2, 3 :: nat]"
  by (simp_all add: upt_rec numeral_2_eq_2 numeral_3_eq_3)

text \<open>A character that is taken as valid is the encoding of a scalar value.\<close>

lemma take_encoded:
  assumes "n \<le> length bs" "map (byte_at bs) [0..<n] = utf8_nats c"
  shows "take n bs = utf8 c"
  unfolding take_bytes [OF assms(1)] utf8_def assms(2) [symmetric] by (simp add: comp_def)

lemma two_bytes_valid:
  assumes "0xC2 \<le> byte_at bs 0" "byte_at bs 0 \<le> 0xDF" "cont_at bs 1"
  shows "\<exists>c. scalar c \<and> take 2 bs = utf8 c"
proof -
  define x y where "x = byte_at bs 0 - 0xC0" "y = byte_at bs 1 - 0x80"
  note xy = this
  have r: "2 \<le> x" "x < 32" "y < 64" "byte_at bs 0 = 0xC0 + x" "byte_at bs 1 = 0x80 + y"
    using assms by (auto simp: xy cont_at_def)
  have "length bs \<ge> 2" using byte_at_pos [of bs 1] r(5) by simp
  moreover have "map (byte_at bs) [0..<2] = utf8_nats (64 * x + y)" using r by (simp add: utf8_nats_def upt_small)
  ultimately show ?thesis using r by (intro exI [of _ "64 * x + y"] conjI take_encoded) (simp_all add: scalar_def)
qed

lemma three_bytes_valid:
  assumes "0xE0 \<le> byte_at bs 0" "byte_at bs 0 \<le> 0xEF" "second_ok bs" "cont_at bs 2"
  shows "\<exists>c. scalar c \<and> take 3 bs = utf8 c"
proof -
  let ?b = "byte_at bs"
  define x y z where "x = ?b 0 - 0xE0" "y = ?b 1 - 0x80" "z = ?b 2 - 0x80"
  note xyz = this
  have "0x80 \<le> ?b 1" "?b 1 \<le> 0xBF" "?b 0 = 0xE0 \<longrightarrow> 0xA0 \<le> ?b 1" "?b 0 = 0xED \<longrightarrow> ?b 1 \<le> 0x9F"
    using assms(1-3) by (auto simp: second_ok_def Let_def split: if_splits)
  then have r: "x < 16" "y < 64" "z < 64" "?b 0 = 0xE0 + x" "?b 1 = 0x80 + y" "?b 2 = 0x80 + z"
    "x = 0 \<longrightarrow> 32 \<le> y" "x = 13 \<longrightarrow> y < 32"
    using assms(1,2,4) unfolding xyz cont_at_def by linarith+
  let ?c = "4096 * x + 64 * y + z"
  have "\<not> (0xD800 \<le> ?c \<and> ?c < 0xE000)"
    using r(2,3,8) by (cases x "13 :: nat" rule: linorder_cases) auto
  then have c: "0x800 \<le> ?c" "?c < 0x10000" "scalar ?c" using r(1-3,7) by (auto simp: scalar_def)
  have "?c div 4096 = x" "?c div 64 mod 64 = y" "?c mod 64 = z" using r(1-3) digits3 by blast+
  then have "map ?b [0..<3] = utf8_nats ?c" using c r(4-6) by (simp add: utf8_nats_def upt_small)
  moreover have "length bs \<ge> 3" using byte_at_pos [of bs 2] r(6) by simp
  ultimately show ?thesis using c(3) take_encoded by blast
qed

lemma four_bytes_valid:
  assumes "0xF0 \<le> byte_at bs 0" "byte_at bs 0 \<le> 0xF4" "second_ok bs" "cont_at bs 2" "cont_at bs 3"
  shows "\<exists>c. scalar c \<and> take 4 bs = utf8 c"
proof -
  let ?b = "byte_at bs"
  define w x y z where "w = ?b 0 - 0xF0" "x = ?b 1 - 0x80" "y = ?b 2 - 0x80" "z = ?b 3 - 0x80"
  note wxyz = this
  have "0x80 \<le> ?b 1" "?b 1 \<le> 0xBF" "?b 0 = 0xF0 \<longrightarrow> 0x90 \<le> ?b 1" "?b 0 = 0xF4 \<longrightarrow> ?b 1 \<le> 0x8F"
    using assms(1-3) by (auto simp: second_ok_def Let_def split: if_splits)
  then have r: "w \<le> 4" "x < 64" "y < 64" "z < 64" "?b 0 = 0xF0 + w" "?b 1 = 0x80 + x" "?b 2 = 0x80 + y"
    "?b 3 = 0x80 + z" "w = 0 \<longrightarrow> 16 \<le> x" "w = 4 \<longrightarrow> x < 16"
    using assms(1,2,4,5) unfolding wxyz cont_at_def by linarith+
  let ?c = "262144 * w + 4096 * x + 64 * y + z"
  have lo: "0x10000 \<le> ?c" using r(9) by (cases "w = 0") simp_all
  have hi: "?c < 0x110000"
  proof (cases "w = 4")
    case False
    then have "w \<le> 3" using r(1) by linarith
    then show ?thesis using r(2-4) by linarith
  qed (use r(3,4,10) in simp)
  have c: "0x10000 \<le> ?c" "scalar ?c" unfolding scalar_def using lo hi by linarith+
  have "?c div 262144 = w" "?c div 4096 mod 64 = x" "?c div 64 mod 64 = y" "?c mod 64 = z"
    using r(2-4) digits4 by blast+
  then have "map ?b [0..<4] = utf8_nats ?c" using c r(5-8) by (simp add: utf8_nats_def upt_small)
  moreover have "length bs \<ge> 4" using byte_at_pos [of bs 3] r(8) by simp
  ultimately show ?thesis using c(2) take_encoded by blast
qed

lemma utf8_char_valid:
  assumes "utf8_char bs = (True, n)" "bs \<noteq> []"
  shows "\<exists>c. scalar c \<and> take n bs = utf8 c"
proof -
  consider (1) "byte_at bs 0 < 0x80" "n = 1" | (2) "0xC2 \<le> byte_at bs 0" "byte_at bs 0 \<le> 0xDF" "cont_at bs 1" "n = 2"
    | (3) "0xE0 \<le> byte_at bs 0" "byte_at bs 0 \<le> 0xEF" "second_ok bs" "cont_at bs 2" "n = 3"
    | (4) "0xF0 \<le> byte_at bs 0" "byte_at bs 0 \<le> 0xF4" "second_ok bs" "cont_at bs 2" "cont_at bs 3" "n = 4"
    using assms(1) by (auto simp: utf8_char_def Let_def split: if_splits)
  then show ?thesis
  proof cases
    case 1
    then show ?thesis
      using assms(2) by (intro exI [of _ "byte_at bs 0"] conjI take_encoded) (auto simp: scalar_def utf8_nats_def Suc_le_eq)
  qed (simp_all add: two_bytes_valid three_bytes_valid four_bytes_valid)
qed

section \<open>Lossy decoding\<close>

lemma valid_utf8_Nil [simp]: "valid_utf8 []"
  unfolding valid_utf8_def by (rule exI [of _ "[]"]) simp

lemma valid_utf8_append: "scalar c \<Longrightarrow> valid_utf8 bs \<Longrightarrow> valid_utf8 (utf8 c @ bs)"
proof -
  assume "scalar c" "valid_utf8 bs"
  then obtain cs where "\<forall>c \<in> set (c # cs). scalar c" "utf8 c @ bs = concat (map utf8 (c # cs))"
    by (auto simp: valid_utf8_def)
  then show ?thesis unfolding valid_utf8_def by blast
qed

lemma REPLACEMENT_utf8: "REPLACEMENT = utf8 0xFFFD \<and> scalar 0xFFFD"
  by (simp add: REPLACEMENT_def utf8_def utf8_nats_def scalar_def)

lemma valid_from_utf8_lossy: "valid_utf8 (from_utf8_lossy bs)"
proof (induction bs rule: from_utf8_lossy.induct)
  case (1 bs)
  show ?case
  proof (cases "bs = []")
    case False
    obtain v n where vn: "utf8_char bs = (v, n)" by fastforce
    obtain c where c: "scalar c" "(if v then take n bs else REPLACEMENT) = utf8 c"
      using utf8_char_valid [of bs n] REPLACEMENT_utf8 vn False by (cases v) auto
    have "from_utf8_lossy bs = utf8 c @ from_utf8_lossy (drop n bs)"
      using False by (subst from_utf8_lossy.simps) (simp add: vn c(2))
    with valid_utf8_append [OF c(1)] 1 [OF False vn [symmetric]] show ?thesis by simp
  qed (simp add: from_utf8_lossy.simps)
qed

lemma from_utf8_lossy_utf8: "scalar c \<Longrightarrow> from_utf8_lossy (utf8 c @ bs) = utf8 c @ from_utf8_lossy bs"
proof -
  assume c: "scalar c"
  have "utf8 c \<noteq> []" by (simp add: utf8_def utf8_nats_def)
  then show ?thesis by (subst from_utf8_lossy.simps) (simp add: utf8_char_utf8 [OF c] del: length_utf8)
qed

lemma from_utf8_lossy_valid: "valid_utf8 bs \<Longrightarrow> from_utf8_lossy bs = bs"
proof -
  have "\<forall>c \<in> set cs. scalar c \<Longrightarrow> from_utf8_lossy (concat (map utf8 cs)) = concat (map utf8 cs)" for cs
    by (induction cs) (simp_all add: from_utf8_lossy_utf8 from_utf8_lossy.simps [of "[]"])
  then show "valid_utf8 bs \<Longrightarrow> from_utf8_lossy bs = bs" by (auto simp: valid_utf8_def)
qed

end
