(* ===== verification/Dns_Resolver.thy ===== *)
theory Dns_Resolver
  imports Dns_Tree Rust_Utf8
begin

text \<open>
  \<open>HickoryResolver\<close> of \<open>crates/waku-discv5/src/dns.rs\<close>: the live resolver. What \<open>hickory-resolver\<close> answers is
  an argument: the data of the records in the answer, where a TXT record is a list of character-strings
  of at most 255 bytes.
\<close>

section \<open>Definitions\<close>

datatype RData = TXT "bytes list" | OtherData

text \<open>\<open>builder\<close> and \<open>build\<close> are the two steps of making a resolver from the system configuration.\<close>

definition HickoryResolver_system ::
  "(string, 'b) result \<Rightarrow> ('b \<Rightarrow> (string, 'r) result) \<Rightarrow> (DnsError, 'r) result" where
  "HickoryResolver_system builder build =
     bind_result (map_err Resolve builder) (\<lambda>b. map_err Resolve (build b))"

definition string_from_utf8_lossy :: "bytes \<Rightarrow> string" where
  "string_from_utf8_lossy bs = map (\<lambda>b. char_of (unat b)) (from_utf8_lossy bs)"

definition HickoryResolver_txt :: "(string \<Rightarrow> (string, RData list) result) \<Rightarrow> resolver" where
  "HickoryResolver_txt lookup name =
     bind_result (map_err Resolve (lookup name)) (\<lambda>answers.
     Ok (List.map_filter (\<lambda>rec. case rec of TXT chunks \<Rightarrow> Some (string_from_utf8_lossy (concat chunks)) | OtherData \<Rightarrow> None)
       answers))"

section \<open>Lemmas\<close>

definition txt_of :: "RData \<Rightarrow> bytes list option" where
  "txt_of rec = (case rec of TXT chunks \<Rightarrow> Some chunks | OtherData \<Rightarrow> None)"

lemma txt_answers:
  "lookup name = Ok answers \<Longrightarrow>
   HickoryResolver_txt lookup name = Ok (map (\<lambda>chunks. string_from_utf8_lossy (concat chunks)) (List.map_filter txt_of answers))"
proof -
  have "List.map_filter (\<lambda>rec. case rec of TXT chunks \<Rightarrow> Some (f chunks) | OtherData \<Rightarrow> None) answers =
      map f (List.map_filter txt_of answers)" for f :: "bytes list \<Rightarrow> string"
    by (induction answers) (auto simp: List.map_filter_simps txt_of_def split: RData.split)
  then show "lookup name = Ok answers \<Longrightarrow> ?thesis" by (simp add: HickoryResolver_txt_def)
qed

lemma as_bytes_lossy: "as_bytes (string_from_utf8_lossy bs) = from_utf8_lossy bs"
  by (simp add: as_bytes_def string_from_utf8_lossy_def of_char_of_u8 comp_def)

lemma lossy_as_bytes: "valid_utf8 (as_bytes s) \<Longrightarrow> string_from_utf8_lossy (as_bytes s) = s"
  using as_bytes_lossy [of "as_bytes s"] by (simp add: from_utf8_lossy_valid flip: as_bytes_inj)

section \<open>Properties\<close>

text \<open>C33: Reading TXT records: every string the resolver returns is valid UTF-8, whatever bytes the answer
  holds, there is one for each TXT record of the answer, in order, other records are skipped, and a
  record that was published as a string comes back as that string however it was cut into
  character-strings.\<close>

theorem txt_records_exact:
  "case HickoryResolver_txt lookup name of
     Err e \<Rightarrow> \<exists>m. lookup name = Err m \<and> e = Resolve m
   | Ok ss \<Rightarrow> \<exists>answers. lookup name = Ok answers
       \<and> list_all2 (\<lambda>chunks s. valid_utf8 (as_bytes s)
           \<and> (\<forall>pub. valid_utf8 (as_bytes pub) \<and> concat chunks = as_bytes pub \<longrightarrow> s = pub))
         (List.map_filter txt_of answers) ss"
proof (cases "lookup name")
  case (Inl e)
  then show ?thesis by (simp add: HickoryResolver_txt_def)
next
  case (Inr answers)
  then show ?thesis
    by (auto simp: txt_answers list_all2_map2 as_bytes_lossy valid_from_utf8_lossy lossy_as_bytes
        intro!: list.rel_refl_strong)
qed

theorem txt_records_exact_witness:
  "HickoryResolver_txt (\<lambda>_. Ok [OtherData, TXT [as_bytes ''enr'', as_bytes '':x'']]) ''d'' = Ok [''enr:x'']"
proof -
  let ?lookup = "\<lambda>_ :: string. Ok [OtherData, TXT [as_bytes ''enr'', as_bytes '':x'']] :: (string, RData list) result"
  have "as_bytes ''enr:x'' = concat (map utf8 [101, 110, 114, 58, 120])"
    by (simp add: as_bytes_def utf8_def utf8_nats_def)
  moreover have "\<forall>c \<in> set [101, 110, 114, 58, 120]. scalar c" by (simp add: scalar_def)
  ultimately have v: "valid_utf8 (as_bytes ''enr:x'')" unfolding valid_utf8_def by blast
  have c: "concat [as_bytes ''enr'', as_bytes '':x''] = as_bytes ''enr:x''" by (simp add: as_bytes_def)
  show ?thesis
    using txt_records_exact [of ?lookup "''d''"] v c
    by (auto simp: txt_of_def List.map_filter_simps list_all2_Cons1 split: sum.splits)
qed

end
