(* ===== verification/Discv5.thy ===== *)
theory Discv5
  imports Relay_Shards Node_Connections
begin

text \<open>
  \<open>crates/waku-discv5/src/lib.rs\<close>: the node records of Waku (their relay-shards field, their peer id
  and their address), the discovery configuration and the discovery service. The \<open>enr\<close> and \<open>discv5\<close>
  crates, the libp2p identity types and base64 are the fields of \<open>EnrOps\<close> and \<open>Discv5Ops\<close>, arguments of
  the definitions, over types of records, keys, peer ids and services. An IPv4 address is its number.
\<close>

section \<open>Definitions\<close>

definition ENR_KEY_RS :: string where "ENR_KEY_RS = ''rs''"
definition ENR_KEY_RSV :: string where "ENR_KEY_RSV = ''rsv''"

definition LOCALHOST :: nat where "LOCALHOST = 0x7F000001"

text \<open>What the builder of the \<open>enr\<close> crate collects.\<close>

record EnrBuilder =
  b_ip4 :: nat
  b_udp4 :: u16
  b_tcp4 :: "u16 option"
  b_values :: "(string \<times> bytes) list"

record ('e, 'k, 'p) EnrOps =
  enr_to_base64 :: "'e \<Rightarrow> string"
  enr_parse :: "string \<Rightarrow> (string, 'e) result"
  b64url_decode :: "bytes \<Rightarrow> (string, bytes) result"
  b64url_encode :: "bytes \<Rightarrow> string"
  get_decodable :: "string \<Rightarrow> 'e \<Rightarrow> (string, bytes) result option"
  public_key_bytes :: "'e \<Rightarrow> bytes"
  peer_id_from_key :: "bytes \<Rightarrow> (string, 'p) result"
  p2p_protocol :: "'p \<Rightarrow> Protocol"
  enr_ip4 :: "'e \<Rightarrow> nat option"
  enr_tcp4 :: "'e \<Rightarrow> u16 option"
  enr_build :: "'k \<Rightarrow> EnrBuilder \<Rightarrow> (string, 'e) result"
  generate_key :: 'k

record ('e, 'p) DiscoveredPeer =
  dp_peer_id :: 'p
  dp_addrs :: "Multiaddr list"
  dp_shards :: RelayShards
  dp_enr :: 'e

definition enr_to_bytes :: "('e, 'k, 'p) EnrOps \<Rightarrow> 'e \<Rightarrow> bytes" where
  "enr_to_bytes ops e =
     (let s = enr_to_base64 ops e;
          b64 = unwrap_or (strip_prefix ''enr:'' s) s
      in unwrap_or (result_ok (b64url_decode ops (as_bytes b64))) [])"

definition enr_from_bytes :: "('e, 'k, 'p) EnrOps \<Rightarrow> bytes \<Rightarrow> 'e option" where
  "enr_from_bytes ops b = result_ok (enr_parse ops (''enr:'' @ b64url_encode ops b))"

datatype DiscoveryError = EnrBuild string | Init string | Discv5Error string

record ('e, 'k) DiscoveryConfig =
  listen_ip :: nat
  udp_port :: u16
  tcp_port :: "u16 option"
  external_ip :: "nat option"
  cluster_id :: u16
  shards :: "u16 list"
  bootstrap :: "'e list"
  signing_key :: "'k option"

definition DiscoveryConfig_new :: "u16 \<Rightarrow> ('e, 'k) DiscoveryConfig" where
  "DiscoveryConfig_new port =
     \<lparr>listen_ip = LOCALHOST, udp_port = port, tcp_port = None, external_ip = None,
      cluster_id = NetworkPreset.cluster_id TWN, shards = u16_upto (shard_count TWN), bootstrap = [],
      signing_key = None\<rparr>"

definition DiscoveryConfig_with_cluster ::
  "u16 \<Rightarrow> u16 list \<Rightarrow> ('e, 'k) DiscoveryConfig \<Rightarrow> ('e, 'k) DiscoveryConfig" where
  "DiscoveryConfig_with_cluster c ss cfg = cfg\<lparr>cluster_id := c, shards := ss\<rparr>"

definition DiscoveryConfig_with_bootstrap :: "'e list \<Rightarrow> ('e, 'k) DiscoveryConfig \<Rightarrow> ('e, 'k) DiscoveryConfig" where
  "DiscoveryConfig_with_bootstrap es cfg = cfg\<lparr>bootstrap := es\<rparr>"

definition enr_peer_id :: "('e, 'k, 'p) EnrOps \<Rightarrow> 'e \<Rightarrow> 'p option" where
  "enr_peer_id ops e = result_ok (peer_id_from_key ops (public_key_bytes ops e))"

definition enr_relay_shards :: "('e, 'k, 'p) EnrOps \<Rightarrow> 'e \<Rightarrow> RelayShards option" where
  "enr_relay_shards ops e =
     (case get_decodable ops ENR_KEY_RS e of
        Some (Ok b) \<Rightarrow> result_ok (from_indices_list b)
      | _ \<Rightarrow>
          (case get_decodable ops ENR_KEY_RSV e of
             Some (Ok b) \<Rightarrow> result_ok (from_bit_vector b)
           | _ \<Rightarrow> None))"

definition enr_to_dialable :: "('e, 'k, 'p) EnrOps \<Rightarrow> 'e \<Rightarrow> ('e, 'p) DiscoveredPeer option" where
  "enr_to_dialable ops e =
     Option.bind (enr_peer_id ops e) (\<lambda>pid.
     Option.bind (enr_relay_shards ops e) (\<lambda>rs.
     Option.bind (enr_ip4 ops e) (\<lambda>ip.
     Option.bind (enr_tcp4 ops e) (\<lambda>tcp.
     let addr = [Ip4 ip, Tcp (unat tcp), p2p_protocol ops pid]
     in Some \<lparr>dp_peer_id = pid, dp_addrs = [addr], dp_shards = rs, dp_enr = e\<rparr>))))"

text \<open>\<open>Display\<close> of the one error \<open>to_indices_list\<close> has.\<close>

definition too_many_shards :: "EnrError \<Rightarrow> string" where
  "too_many_shards e =
     (case e of
        TooManyShards n \<Rightarrow> ''too many shards for the indices-list form: '' @ show_nat n @ '' > 255''
      | _ \<Rightarrow> '''')"

definition build_waku_enr ::
  "('e, 'k, 'p) EnrOps \<Rightarrow> 'k \<Rightarrow> ('e, 'k) DiscoveryConfig \<Rightarrow> (DiscoveryError, 'e) result" where
  "build_waku_enr ops key cfg =
     (let rs = RelayShards_new (cluster_id cfg) (shards cfg)
      in bind_result (map_err (\<lambda>e. EnrBuild (too_many_shards e)) (to_indices_list rs)) (\<lambda>rs_bytes.
         let builder = \<lparr>b_ip4 = unwrap_or (external_ip cfg) (listen_ip cfg), b_udp4 = udp_port cfg,
                        b_tcp4 = tcp_port cfg, b_values = [(ENR_KEY_RS, rs_bytes)]\<rparr>
         in map_err EnrBuild (enr_build ops key builder)))"

subsection \<open>The discovery service\<close>

record ('e, 'k, 'd) Discv5Ops =
  discv5_new :: "'e \<Rightarrow> 'k \<Rightarrow> nat \<Rightarrow> u16 \<Rightarrow> (string, 'd) result"
  add_enr :: "'e \<Rightarrow> 'd \<Rightarrow> (string, unit) result \<times> 'd"
  discv5_start :: "'d \<Rightarrow> (string, unit) result \<times> 'd"
  discv5_local_enr :: "'d \<Rightarrow> 'e"
  find_node_predicate :: "('e \<Rightarrow> bool) \<Rightarrow> nat \<Rightarrow> 'd \<Rightarrow> (string, 'e list) result"
  table_entries_enr :: "'d \<Rightarrow> 'e list"

record 'd Discovery =
  service :: 'd
  own_cluster :: u16

definition Discovery_new ::
  "('e, 'k, 'p) EnrOps \<Rightarrow> ('e, 'k, 'd) Discv5Ops \<Rightarrow> ('e, 'k) DiscoveryConfig \<Rightarrow> (DiscoveryError, 'd Discovery) result" where
  "Discovery_new ops d5 cfg =
     (let key = unwrap_or (signing_key cfg) (generate_key ops)
      in bind_result (build_waku_enr ops key cfg) (\<lambda>local_enr.
         bind_result (map_err Init (discv5_new d5 local_enr key (listen_ip cfg) (udp_port cfg))) (\<lambda>d.
         Ok \<lparr>service = fold (\<lambda>e d. snd (add_enr d5 e d)) (bootstrap cfg) d, own_cluster = cluster_id cfg\<rparr>)))"

definition Discovery_start ::
  "('e, 'k, 'd) Discv5Ops \<Rightarrow> 'd Discovery \<Rightarrow> (DiscoveryError, unit) result \<times> 'd Discovery" where
  "Discovery_start d5 dv =
     (case discv5_start d5 (service dv) of (r, d) \<Rightarrow> (map_err Discv5Error r, dv\<lparr>service := d\<rparr>))"

definition Discovery_local_enr :: "('e, 'k, 'd) Discv5Ops \<Rightarrow> 'd Discovery \<Rightarrow> 'e" where
  "Discovery_local_enr d5 dv = discv5_local_enr d5 (service dv)"

definition Discovery_table_peers :: "('e, 'k, 'd) Discv5Ops \<Rightarrow> 'd Discovery \<Rightarrow> 'e list" where
  "Discovery_table_peers d5 dv = table_entries_enr d5 (service dv)"

declare Discovery_local_enr_def [simp]

definition in_cluster :: "('e, 'k, 'p) EnrOps \<Rightarrow> u16 \<Rightarrow> 'e \<Rightarrow> bool" where
  "in_cluster ops c e = unwrap_or (map_option (\<lambda>rs. RelayShards.cluster_id rs = c) (enr_relay_shards ops e)) False"

definition discover ::
  "('e, 'k, 'p) EnrOps \<Rightarrow> ('e, 'k, 'd) Discv5Ops \<Rightarrow> 'd Discovery \<Rightarrow> (DiscoveryError, 'e list) result" where
  "discover ops d5 dv =
     map_err Discv5Error (find_node_predicate d5 (in_cluster ops (own_cluster dv)) 16 (service dv))"

definition discover_dialable ::
  "('e, 'k, 'p) EnrOps \<Rightarrow> ('e, 'k, 'd) Discv5Ops \<Rightarrow> 'd Discovery
     \<Rightarrow> (DiscoveryError, ('e, 'p) DiscoveredPeer list) result" where
  "discover_dialable ops d5 dv =
     bind_result (discover ops d5 dv) (\<lambda>es. Ok (List.map_filter (enr_to_dialable ops) es))"

section \<open>Records a node publishes about itself\<close>

text \<open>A record built by the \<open>enr\<close> crate carries the address and the port the builder was given and the public
  key of its signing key, and under a key that EIP-778 does not define itself, such as \<open>rs\<close>, the value that
  was added last. Nothing is said of the keys the crate fills in on its own.\<close>

definition PREDEFINED_KEYS :: "string list" where
  "PREDEFINED_KEYS = [''id'', ''secp256k1'', ''ed25519'', ''ip'', ''tcp'', ''udp'', ''ip6'', ''tcp6'', ''udp6'']"

definition enr_library :: "('e, 'k, 'p) EnrOps \<Rightarrow> ('k \<Rightarrow> bytes) \<Rightarrow> bool" where
  "enr_library ops pk \<longleftrightarrow>
     (\<forall>key b e. enr_build ops key b = Ok e \<longrightarrow>
        enr_ip4 ops e = Some (b_ip4 b) \<and> enr_tcp4 ops e = b_tcp4 b \<and> public_key_bytes ops e = pk key
        \<and> (\<forall>k v. k \<notin> set PREDEFINED_KEYS \<and> map_of (rev (b_values b)) k = Some v \<longrightarrow>
              get_decodable ops k e = Some (Ok v)))"

text \<open>What a node advertises is what others dial: a record built from a configuration has at most
  255 different shards, reads back as the configured cluster and the sorted shard set, passes the
  discovery filter of exactly that cluster, and resolves to the external address (or else the listen
  address), the TCP port and the peer id of the node, or to nothing when no TCP port is configured.\<close>

lemma advertised_record_dialable:
  assumes "enr_library ops pk" "build_waku_enr ops key cfg = Ok e" "peer_id_from_key ops (pk key) = Ok me"
  shows "card (set (shards cfg)) \<le> 255
    \<and> enr_relay_shards ops e = Some (RelayShards_new (cluster_id cfg) (shards cfg))
    \<and> (\<forall>c. in_cluster ops c e \<longleftrightarrow> c = cluster_id cfg)
    \<and> enr_to_dialable ops e = map_option (\<lambda>tcp.
        \<lparr>dp_peer_id = me,
         dp_addrs = [[Ip4 (unwrap_or (external_ip cfg) (listen_ip cfg)), Tcp (unat tcp), p2p_protocol ops me]],
         dp_shards = RelayShards_new (cluster_id cfg) (shards cfg), dp_enr = e\<rparr>) (tcp_port cfg)"
proof -
  let ?rs = "RelayShards_new (cluster_id cfg) (shards cfg)"
  obtain b where b: "to_indices_list ?rs = Ok b"
    and e: "enr_build ops key \<lparr>b_ip4 = unwrap_or (external_ip cfg) (listen_ip cfg), b_udp4 = udp_port cfg,
       b_tcp4 = tcp_port cfg, b_values = [(ENR_KEY_RS, b)]\<rparr> = Ok e"
    using assms(2) by (auto simp: build_waku_enr_def Let_def)
  have v: "valid_indices ?rs" using b by (auto simp: valid_indices_def to_indices_list_def split: if_splits)
  have dec: "from_indices_list b = Ok ?rs" by (rule from_to_indices_list [OF v b])
  have acc: "enr_ip4 ops e = Some (unwrap_or (external_ip cfg) (listen_ip cfg))" "enr_tcp4 ops e = tcp_port cfg"
    "public_key_bytes ops e = pk key" "get_decodable ops ENR_KEY_RS e = Some (Ok b)"
    using assms(1) e by (auto simp: enr_library_def PREDEFINED_KEYS_def ENR_KEY_RS_def)
  have rs: "enr_relay_shards ops e = Some ?rs" using acc(4) dec by (simp add: enr_relay_shards_def)
  moreover have "card (set (shards cfg)) \<le> 255"
    using v by (simp add: valid_indices_def length_RelayShards_new)
  moreover have "enr_peer_id ops e = Some me" using acc(3) assms(3) by (simp add: enr_peer_id_def)
  ultimately show ?thesis
    using acc by (cases "tcp_port cfg") (auto simp: in_cluster_def enr_to_dialable_def)
qed

text \<open>Records that are the builder and the key, with the number of the key as the peer id. As in every record,
  the identity scheme, the key, the address and the ports are among the values.\<close>

definition ex_enr_value :: "string \<Rightarrow> EnrBuilder \<times> nat \<Rightarrow> bytes option" where
  "ex_enr_value k e =
     (case e of (b, key) \<Rightarrow>
        if k = ''id'' then Some (as_bytes ''v4'')
        else if k = ''secp256k1'' then Some (replicate key 1)
        else if k = ''ip'' then Some [word_of_nat (b_ip4 b)]
        else if k = ''udp'' then Some [ucast (b_udp4 b)]
        else if k = ''tcp'' then map_option (\<lambda>t. [ucast t]) (b_tcp4 b)
        else map_of (rev (b_values b)) k)"

definition ex_ops :: "(EnrBuilder \<times> nat, nat, nat) EnrOps" where
  "ex_ops =
     \<lparr>enr_to_base64 = (\<lambda>_. ''enr:''), enr_parse = (\<lambda>_. Err ''unsupported''), b64url_decode = (\<lambda>_. Ok []),
      b64url_encode = (\<lambda>_. []), get_decodable = (\<lambda>k e. map_option Ok (ex_enr_value k e)),
      public_key_bytes = (\<lambda>(_, k). replicate k 1), peer_id_from_key = (\<lambda>b. Ok (length b)),
      p2p_protocol = (\<lambda>p. OtherProtocol (replicate p (CHR ''p''))), enr_ip4 = (\<lambda>(b, _). Some (b_ip4 b)),
      enr_tcp4 = (\<lambda>(b, _). b_tcp4 b), enr_build = (\<lambda>k b. Ok (b, k)), generate_key = 0\<rparr>"

lemma ex_enr_library: "enr_library ex_ops (\<lambda>k. replicate k 1)"
  by (auto simp: enr_library_def ex_ops_def ex_enr_value_def PREDEFINED_KEYS_def)

lemma advertised_record_dialable_instance:
  "\<exists>e. build_waku_enr ex_ops 3 (DiscoveryConfig_new 9000\<lparr>tcp_port := Some 60000\<rparr>) = Ok e
     \<and> map_option dp_addrs (enr_to_dialable ex_ops e) = Some [[Ip4 LOCALHOST, Tcp 60000, OtherProtocol ''ppp'']]"
proof -
  let ?cfg = "DiscoveryConfig_new 9000\<lparr>tcp_port := Some 60000\<rparr> :: (EnrBuilder \<times> nat, nat) DiscoveryConfig"
  have "card (set (shards ?cfg)) \<le> length (shards ?cfg)" by (rule card_length)
  also have "\<dots> \<le> 255" by (simp add: DiscoveryConfig_new_def u16_upto_def TWN_def)
  finally have "valid_indices (RelayShards_new (cluster_id ?cfg) (shards ?cfg))"
    by (simp add: valid_indices_def length_RelayShards_new)
  then obtain e where e: "build_waku_enr ex_ops 3 ?cfg = Ok e"
    by (auto simp: build_waku_enr_def Let_def to_indices_list_Ok ex_ops_def)
  moreover have "peer_id_from_key ex_ops (replicate 3 1) = Ok 3" by (simp add: ex_ops_def)
  ultimately show ?thesis
    using advertised_record_dialable [OF ex_enr_library, of 3 ?cfg e 3]
    by (auto simp: DiscoveryConfig_new_def ex_ops_def numeral_3_eq_3)
qed

end
