(* ===== verification/Node_Discovery.thy ===== *)
theory Node_Discovery
  imports Discv5 Dns_Tree Node_Runtime
begin

text \<open>
  Node configuration and discovery in \<open>crates/waku-node/src\<close>: \<open>Config\<close> of \<open>lib.rs\<close>, and \<open>NodeConfig\<close>,
  \<open>resolve_dns_bootstrap\<close>, the discovery part of \<open>spawn\<close>, \<open>dial_discovered\<close> and \<open>discovery_loop\<close> of
  \<open>runtime.rs\<close>. A round of the loop is whether the driver has gone and the answers discv5 gives in it;
  the dial commands sent are the field \<open>dialed\<close> of its state. \<open>accepts\<close> tells which sends succeed.
\<close>

section \<open>Definitions\<close>

subsection \<open>lib.rs\<close>

record Config =
  preset :: NetworkPreset
  shards :: "u16 list"
  relay :: bool
  rln_relay :: bool
  store :: bool
  filter_on :: bool
  lightpush :: bool
  peer_exchange :: bool
  discv5 :: bool
  dns_discovery :: bool

definition Config_default :: Config where
  "Config_default =
     \<lparr>preset = TWN, shards = [], relay = True, rln_relay = True, store = False, filter_on = False,
      lightpush = False, peer_exchange = False, discv5 = True, dns_discovery = True\<rparr>"

definition effective_shards :: "Config \<Rightarrow> u16 list" where
  "effective_shards c =
     (if Config.shards c = [] then u16_upto (shard_count (preset c)) else Config.shards c)"

subsection \<open>NodeConfig\<close>

record 'e DiscoverySettings =
  ds_udp_port :: u16
  advertised_ip :: nat
  advertised_tcp_port :: u16
  ds_bootstrap :: "'e list"
  dns_bootstrap :: "string list"

record ('k, 's, 'e) NodeConfig =
  keypair :: 'k
  nc_listen_addrs :: "Multiaddr list"
  idle_timeout_secs :: nat
  nc_cluster_id :: u16
  nc_shards :: "u16 list"
  discovery :: "'e DiscoverySettings option"
  nc_store :: "'s option"
  max_connections :: u32
  ip_colocation_limit :: nat

text \<open>\<open>kp\<close> is the key pair \<open>generate_secp256k1\<close> makes.\<close>

definition NodeConfig_new :: "'k \<Rightarrow> ('k, 's, 'e) NodeConfig" where
  "NodeConfig_new kp =
     \<lparr>keypair = kp, nc_listen_addrs = [], idle_timeout_secs = 60,
      nc_cluster_id = NetworkPreset.cluster_id TWN, nc_shards = u16_upto (shard_count TWN),
      discovery = None, nc_store = None, max_connections = 300, ip_colocation_limit = 20\<rparr>"

definition NodeConfig_default :: "'k \<Rightarrow> ('k, 's, 'e) NodeConfig" where
  "NodeConfig_default kp = NodeConfig_new kp"

definition with_listen_addr :: "Multiaddr \<Rightarrow> ('k, 's, 'e) NodeConfig \<Rightarrow> ('k, 's, 'e) NodeConfig" where
  "with_listen_addr a c = c\<lparr>nc_listen_addrs := nc_listen_addrs c @ [a]\<rparr>"

definition with_cluster :: "u16 \<Rightarrow> u16 list \<Rightarrow> ('k, 's, 'e) NodeConfig \<Rightarrow> ('k, 's, 'e) NodeConfig" where
  "with_cluster cl ss c = c\<lparr>nc_cluster_id := cl, nc_shards := ss\<rparr>"

definition local_metadata :: "('k, 's, 'e) NodeConfig \<Rightarrow> WakuMetadata" where
  "local_metadata c = \<lparr>WakuMetadata.cluster_id = Some (ucast (nc_cluster_id c)), shards = map ucast (nc_shards c)\<rparr>"

subsection \<open>Starting discovery\<close>

definition DiscoveryError_to_string :: "DiscoveryError \<Rightarrow> string" where
  "DiscoveryError_to_string e =
     (case e of
        EnrBuild m \<Rightarrow> ''ENR build failed: '' @ m
      | Init m \<Rightarrow> ''discv5 init failed: '' @ m
      | Discv5Error m \<Rightarrow> ''discv5 error: '' @ m)"

definition resolve_dns_bootstrap ::
  "('vk, 'sg, 'e) DnsEnv \<Rightarrow> (DnsError, resolver) result \<Rightarrow> string list \<Rightarrow> 'e list" where
  "resolve_dns_bootstrap dns sys urls =
     (case sys of
        Err _ \<Rightarrow> []
      | Ok ask \<Rightarrow>
          concat (map (\<lambda>url. case fst (resolve_enrtree dns ask url) of Ok es \<Rightarrow> es | Err _ \<Rightarrow> []) urls))"

text \<open>\<open>to_combined\<close> is \<open>keypair_to_combined\<close>, which converts between two key types.\<close>

definition spawn_discovery ::
  "('e, 'ck, 'p) EnrOps \<Rightarrow> ('e, 'ck, 'd) Discv5Ops \<Rightarrow> ('vk, 'sg, 'e) DnsEnv \<Rightarrow> (DnsError, resolver) result
     \<Rightarrow> ('k \<Rightarrow> (NodeError, 'ck) result) \<Rightarrow> ('k, 's, 'e) NodeConfig
     \<Rightarrow> (NodeError, ('d Discovery \<times> 'e list) option) result" where
  "spawn_discovery ops d5 dns sys to_combined cfg =
     (case discovery cfg of
        None \<Rightarrow> Ok None
      | Some settings \<Rightarrow>
          bind_result (to_combined (keypair cfg)) (\<lambda>key.
          let boot = ds_bootstrap settings
                @ (if dns_bootstrap settings = [] then [] else resolve_dns_bootstrap dns sys (dns_bootstrap settings));
              dcfg = DiscoveryConfig_with_cluster (nc_cluster_id cfg) (nc_shards cfg)
                (DiscoveryConfig_new (ds_udp_port settings));
              dcfg = dcfg\<lparr>signing_key := Some key, external_ip := Some (advertised_ip settings),
                tcp_port := Some (advertised_tcp_port settings), bootstrap := boot\<rparr>
          in bind_result (map_err (\<lambda>e. NE_Build (DiscoveryError_to_string e)) (Discovery_new ops d5 dcfg)) (\<lambda>dv.
             case Discovery_start d5 dv of
               (r, dv') \<Rightarrow>
                 bind_result (map_err (\<lambda>e. NE_Build (DiscoveryError_to_string e)) r) (\<lambda>_. Ok (Some (dv', boot))))))"

subsection \<open>The discovery loop\<close>

record ('e, 'p) LoopState =
  known :: "'p set"
  book :: "'e list"
  dialed :: "Multiaddr list"

definition LoopState_init :: "('e, 'p) LoopState" where
  "LoopState_init = \<lparr>known = {}, book = [], dialed = []\<rparr>"

definition remember :: "('e \<Rightarrow> 'n) \<Rightarrow> 'e \<Rightarrow> ('e, 'p) LoopState \<Rightarrow> ('e, 'p) LoopState" where
  "remember node_id e st = st\<lparr>book := remember_enr node_id e (book st)\<rparr>"

definition dial_discovered ::
  "('e \<Rightarrow> 'n) \<Rightarrow> (Multiaddr \<Rightarrow> bool) \<Rightarrow> ('e, 'p) DiscoveredPeer \<Rightarrow> ('e, 'p) LoopState \<Rightarrow> ('e, 'p) LoopState" where
  "dial_discovered node_id accepts peer st =
     (let st = remember node_id (dp_enr peer) st
      in if dp_peer_id peer \<in> known st then st
         else st\<lparr>known := insert (dp_peer_id peer) (known st),
                 dialed := dialed st @ takeWhile accepts (dp_addrs peer)\<rparr>)"

definition discovery_bootstrap ::
  "('e, 'k, 'p) EnrOps \<Rightarrow> ('e \<Rightarrow> 'n) \<Rightarrow> (Multiaddr \<Rightarrow> bool) \<Rightarrow> 'e list \<Rightarrow> ('e, 'p) LoopState \<Rightarrow> ('e, 'p) LoopState" where
  "discovery_bootstrap ops node_id accepts es st =
     fold (\<lambda>e st.
       let st = remember node_id e st
       in case enr_to_dialable ops e of Some peer \<Rightarrow> dial_discovered node_id accepts peer st | None \<Rightarrow> st) es st"

fun discovery_rounds ::
  "('e, 'k, 'p) EnrOps \<Rightarrow> ('e \<Rightarrow> 'n) \<Rightarrow> (Multiaddr \<Rightarrow> bool) \<Rightarrow> 'd Discovery
     \<Rightarrow> (bool \<times> ('e, 'k, 'd) Discv5Ops) list \<Rightarrow> ('e, 'p) LoopState \<Rightarrow> ('e, 'p) LoopState" where
  "discovery_rounds ops node_id accepts dv [] st = st"
| "discovery_rounds ops node_id accepts dv ((gone, d5) # rounds) st =
     (if gone then st
      else discovery_rounds ops node_id accepts dv rounds
        (case discover_dialable ops d5 dv of
           Ok peers \<Rightarrow> fold (dial_discovered node_id accepts) peers st
         | Err _ \<Rightarrow> st))"

definition discovery_loop ::
  "('e, 'k, 'p) EnrOps \<Rightarrow> ('e \<Rightarrow> 'n) \<Rightarrow> (Multiaddr \<Rightarrow> bool) \<Rightarrow> 'd Discovery \<Rightarrow> 'e list
     \<Rightarrow> (bool \<times> ('e, 'k, 'd) Discv5Ops) list \<Rightarrow> ('e, 'p) LoopState" where
  "discovery_loop ops node_id accepts dv boot rounds =
     discovery_rounds ops node_id accepts dv rounds
       (discovery_bootstrap ops node_id accepts boot LoopState_init)"

section \<open>The invariant of the loop\<close>

definition dial_source ::
  "('e, 'k, 'p) EnrOps \<Rightarrow> ('e \<Rightarrow> bool) \<Rightarrow> Multiaddr \<Rightarrow> bool" where
  "dial_source ops good a \<longleftrightarrow>
     (\<exists>e peer. enr_to_dialable ops e = Some peer \<and> a \<in> set (dp_addrs peer) \<and> good e)"

definition loop_inv ::
  "('e, 'k, 'p) EnrOps \<Rightarrow> ('e \<Rightarrow> 'n) \<Rightarrow> ('e \<Rightarrow> bool) \<Rightarrow> ('e, 'p) LoopState \<Rightarrow> bool" where
  "loop_inv ops node_id good st \<longleftrightarrow>
     distinct (dialed st) \<and> last ` set (dialed st) \<subseteq> p2p_protocol ops ` known st
     \<and> (\<forall>a \<in> set (dialed st). dial_source ops good a)
     \<and> length (book st) \<le> PEER_BOOK_CAP \<and> distinct (map node_id (book st))"

lemma loop_inv_remember:
  assumes "loop_inv ops node_id good st"
  shows "loop_inv ops node_id good (remember node_id e st)"
proof -
  have "distinct (map node_id (remember_enr node_id e (book st)))"
    using assms by (intro peer_book.add_distinct) (auto simp: loop_inv_def image_iff)
  moreover have "length (remember_enr node_id e (book st)) \<le> PEER_BOOK_CAP"
    using assms by (intro peer_book.add_length) (simp add: loop_inv_def)
  ultimately show ?thesis using assms by (simp add: loop_inv_def remember_def)
qed

lemma loop_inv_dial:
  assumes inj: "inj (p2p_protocol ops)" and e: "enr_to_dialable ops e = Some peer" "good e"
    and st: "loop_inv ops node_id good st"
  shows "loop_inv ops node_id good (dial_discovered node_id accepts peer st)"
proof (cases "dp_peer_id peer \<in> known st")
  case True
  then show ?thesis
    using loop_inv_remember [OF st, of "dp_enr peer"] by (simp add: dial_discovered_def remember_def Let_def)
next
  case False
  define st' where "st' = remember node_id (dp_enr peer) st"
  have st': "loop_inv ops node_id good st'" "known st' = known st"
    using loop_inv_remember [OF st] by (simp_all add: st'_def) (simp add: remember_def)
  obtain a where a: "dp_addrs peer = [a]" "last a = p2p_protocol ops (dp_peer_id peer)"
    using e(1) by (auto simp: enr_to_dialable_def Let_def bind_eq_Some_conv)
  have "p2p_protocol ops (dp_peer_id peer) \<notin> p2p_protocol ops ` known st'"
    using False st'(2) inj by (auto simp: inj_def)
  then have "last a \<notin> last ` set (dialed st')"
    using st'(1) a(2) by (auto simp: loop_inv_def)
  then have "a \<notin> set (dialed st')" by blast
  moreover have "dial_source ops good a"
    unfolding dial_source_def using e a(1) by (intro exI [of _ e] exI [of _ peer]) simp
  moreover have "dial_discovered node_id accepts peer st =
      st'\<lparr>known := insert (dp_peer_id peer) (known st'), dialed := dialed st' @ takeWhile accepts [a]\<rparr>"
    using False a(1) st'(2) by (simp add: dial_discovered_def st'_def Let_def)
  ultimately show ?thesis using st'(1) a(2) by (auto simp: loop_inv_def)
qed

lemma loop_inv_bootstrap:
  assumes "inj (p2p_protocol ops)"
  shows "\<forall>e \<in> set es. good e \<Longrightarrow> loop_inv ops node_id good st \<Longrightarrow>
    loop_inv ops node_id good (discovery_bootstrap ops node_id accepts es st)"
  unfolding discovery_bootstrap_def
  by (induction es arbitrary: st)
    (auto simp: Let_def loop_inv_remember loop_inv_dial [OF assms] split: option.split)

lemma loop_inv_peers:
  assumes "inj (p2p_protocol ops)"
  shows "\<forall>p \<in> set peers. \<exists>e. enr_to_dialable ops e = Some p \<and> good e \<Longrightarrow> loop_inv ops node_id good st \<Longrightarrow>
    loop_inv ops node_id good (fold (dial_discovered node_id accepts) peers st)"
  by (induction peers arbitrary: st) (auto simp: loop_inv_dial [OF assms])

section \<open>Properties\<close>

text \<open>C30: Auto-dialling: over any bootstrap records and any rounds of discovery, no address is dialled
  twice, every address dialled belongs to a record of the bootstrap list or of the node's own
  cluster, and the peer book never holds more than 200 records or two records of one node.\<close>

theorem discovery_dials_once:
  assumes "inj (p2p_protocol ops)"
    and "\<forall>(gone, d5) \<in> set rounds. \<forall>P n d es. find_node_predicate d5 P n d = Ok es \<longrightarrow> (\<forall>e \<in> set es. P e)"
  shows "let st = discovery_loop ops node_id accepts dv boot rounds in
    distinct (dialed st)
    \<and> (\<forall>a \<in> set (dialed st). \<exists>e peer. enr_to_dialable ops e = Some peer \<and> a \<in> set (dp_addrs peer)
          \<and> (e \<in> set boot \<or> in_cluster ops (own_cluster dv) e))
    \<and> length (book st) \<le> 200 \<and> distinct (map node_id (book st))"
proof -
  define good where "good e \<longleftrightarrow> e \<in> set boot \<or> in_cluster ops (own_cluster dv) e" for e
  have peers: "\<exists>e. enr_to_dialable ops e = Some p \<and> good e"
    if r: "(gone, d5) \<in> set rounds" and ps: "discover_dialable ops d5 dv = Ok ps" and p: "p \<in> set ps" for gone d5 ps p
  proof -
    obtain es where es: "find_node_predicate d5 (in_cluster ops (own_cluster dv)) 16 (service dv) = Ok es"
      "ps = List.map_filter (enr_to_dialable ops) es"
      using ps by (auto simp: discover_dialable_def discover_def)
    then obtain e where "e \<in> set es" "enr_to_dialable ops e = Some p"
      using p by (force simp: List.map_filter_def)
    moreover have "in_cluster ops (own_cluster dv) e" using assms(2) r es(1) calculation(1) by fastforce
    ultimately show ?thesis by (auto simp: good_def)
  qed
  have "loop_inv ops node_id good (discovery_rounds ops node_id accepts dv rs st)"
    if "set rs \<subseteq> set rounds" "loop_inv ops node_id good st" for rs st
    using that
  proof (induction rs arbitrary: st)
    case (Cons r rs)
    obtain gone d5 where r: "r = (gone, d5)" by fastforce
    have "loop_inv ops node_id good (fold (dial_discovered node_id accepts) ps st)"
      if "discover_dialable ops d5 dv = Ok ps" for ps
      using Cons.prems r peers [OF _ that, of gone] by (intro loop_inv_peers [OF assms(1)]) auto
    with Cons r show ?case by (auto split: sum.split)
  qed simp
  moreover have "loop_inv ops node_id good LoopState_init"
    by (simp add: loop_inv_def LoopState_init_def)
  ultimately have "loop_inv ops node_id good (discovery_loop ops node_id accepts dv boot rounds)"
    unfolding discovery_loop_def by (simp add: loop_inv_bootstrap [OF assms(1)] good_def)
  then show ?thesis
    by (auto simp: loop_inv_def Let_def dial_source_def good_def PEER_BOOK_CAP_def)
qed

definition ex_d5 :: "(EnrBuilder \<times> nat, nat, unit) Discv5Ops" where
  "ex_d5 =
     \<lparr>discv5_new = (\<lambda>_ _ _ _. Ok ()), add_enr = (\<lambda>_ d. (Ok (), d)), discv5_start = (\<lambda>d. (Ok (), d)),
      discv5_local_enr = (\<lambda>_. (\<lparr>b_ip4 = 0, b_udp4 = 0, b_tcp4 = None, b_values = []\<rparr>, 0)),
      find_node_predicate = (\<lambda>P _ _. Ok (filter P [(\<lparr>b_ip4 = 1, b_udp4 = 2, b_tcp4 = Some 3,
        b_values = [(ENR_KEY_RS, [0, 1, 0])]\<rparr>, 4)])),
      table_entries_enr = (\<lambda>_. [])\<rparr>"

theorem discovery_dials_once_witness:
  "distinct (dialed (discovery_loop ex_ops snd (\<lambda>_. True) \<lparr>service = (), own_cluster = 1\<rparr>
     [(\<lparr>b_ip4 = 1, b_udp4 = 2, b_tcp4 = Some 3, b_values = [(ENR_KEY_RS, [0, 1, 0])]\<rparr>, 4)]
     [(False, ex_d5), (False, ex_d5)]))"
proof -
  have "inj (p2p_protocol ex_ops)" by (auto simp: inj_def ex_ops_def)
  from discovery_dials_once [OF this, of "[(False, ex_d5), (False, ex_d5)]" snd "\<lambda>_. True"
      "\<lparr>service = (), own_cluster = 1\<rparr>" "[(\<lparr>b_ip4 = 1, b_udp4 = 2, b_tcp4 = Some 3,
        b_values = [(ENR_KEY_RS, [0, 1, 0])]\<rparr>, 4)]"]
  show ?thesis by (auto simp: Let_def ex_d5_def)
qed

end
