(* ===== verification/Rest_Api.thy ===== *)
theory Rest_Api
  imports Rust_Text Node_Runtime
begin

text \<open>
  \<open>crates/waku-rest/src/lib.rs\<close>: the message cache, the JSON messages and the handlers. A handler
  takes the decoded request and returns the response, the state it changes and what it asks of the
  node; the answers of the node are arguments. axum and serde (routing, JSON) are not modelled, base64,
  hex, SHA-256 and the debug rendering of strings are the fields of \<open>RestEnv\<close>. \<open>None\<close> is a panic.
\<close>

section \<open>The message cache\<close>

definition CACHE_PER_TOPIC :: nat where
  "CACHE_PER_TOPIC = 100"

type_synonym MessageCache = "string \<rightharpoonup> WakuMessage list"

definition MessageCache_new :: MessageCache where
  "MessageCache_new = Map.empty"

definition cache_register :: "string \<Rightarrow> MessageCache \<Rightarrow> MessageCache" where
  "cache_register ct c = (case c ct of None \<Rightarrow> c(ct \<mapsto> []) | Some _ \<Rightarrow> c)"

definition queue_record :: "WakuMessage \<Rightarrow> WakuMessage list \<Rightarrow> WakuMessage list" where
  "queue_record m queue = (if length queue \<ge> CACHE_PER_TOPIC then tl queue else queue) @ [m]"

definition cache_record :: "WakuMessage \<Rightarrow> MessageCache \<Rightarrow> MessageCache" where
  "cache_record m c =
     (case c (WakuMessage.content_topic m) of
        None \<Rightarrow> c
      | Some queue \<Rightarrow> c(WakuMessage.content_topic m \<mapsto> queue_record m queue))"

definition cache_drain :: "string \<Rightarrow> MessageCache \<Rightarrow> WakuMessage list \<times> MessageCache" where
  "cache_drain ct c = (case c ct of None \<Rightarrow> ([], c) | Some queue \<Rightarrow> (queue, c(ct \<mapsto> [])))"

section \<open>Messages in JSON\<close>

record RestEnv =
  b64_decode :: "string \<Rightarrow> (string, bytes) result"
  b64_encode :: "bytes \<Rightarrow> string"
  hex_decode :: "string \<Rightarrow> (string, bytes) result"
  hex_encode :: "bytes \<Rightarrow> string"
  sha256_digest :: "bytes \<Rightarrow> bytes"
  debug_str :: "string \<Rightarrow> string"

record RestWakuMessage =
  rw_payload :: string
  rw_content_topic :: string
  rw_version :: "u32 option"
  rw_timestamp :: "i64 option"
  rw_meta :: "string option"
  rw_ephemeral :: "bool option"

definition into_message :: "RestEnv \<Rightarrow> RestWakuMessage \<Rightarrow> string \<Rightarrow> (string, WakuMessage) result" where
  "into_message env rw ct =
     bind_result (map_err (\<lambda>e. ''bad payload base64: '' @ e) (b64_decode env (rw_payload rw))) (\<lambda>p.
     bind_result
       (case rw_meta rw of
          Some m \<Rightarrow> bind_result (map_err (\<lambda>e. ''bad meta base64: '' @ e) (b64_decode env m)) (\<lambda>b. Ok (Some b))
        | None \<Rightarrow> Ok None) (\<lambda>mt.
     Ok \<lparr>WakuMessage.payload = p, content_topic = ct, version = rw_version rw, timestamp = rw_timestamp rw, meta = mt,
         rate_limit_proof = None, ephemeral = rw_ephemeral rw\<rparr>))"

definition from_message :: "RestEnv \<Rightarrow> WakuMessage \<Rightarrow> RestWakuMessage" where
  "from_message env m =
     \<lparr>rw_payload = b64_encode env (WakuMessage.payload m), rw_content_topic = WakuMessage.content_topic m,
      rw_version = WakuMessage.version m, rw_timestamp = WakuMessage.timestamp m,
      rw_meta = map_option (b64_encode env) (WakuMessage.meta m), rw_ephemeral = WakuMessage.ephemeral m\<rparr>"

record LightpushBody =
  lb_pubsub_topic :: "string option"
  lb_message :: RestWakuMessage

record StoreMessage =
  sm_message_hash :: string
  sm_message :: "RestWakuMessage option"
  sm_pubsub_topic :: string

record RestStoreResponse =
  sr_messages :: "StoreMessage list"
  sr_pagination_cursor :: "string option"

record StoreParams =
  sp_pubsub_topic :: "string option"
  sp_content_topics :: "string option"
  start_time :: "i64 option"
  end_time :: "i64 option"
  sp_page_size :: "u64 option"
  ascending :: "bool option"
  sp_cursor :: "string option"
  sp_include_data :: "bool option"

section \<open>Handlers\<close>

datatype 'a Response = Text nat string | Json 'a

definition CoreError_to_string :: "RestEnv \<Rightarrow> CoreError \<Rightarrow> string" where
  "CoreError_to_string env e =
     (case e of
        InvalidContentTopic t \<Rightarrow>
          ''invalid content topic '' @ debug_str env t @ '': expected /<app>/<version>/<name>/<encoding>''
      | InvalidPubsubTopic t \<Rightarrow>
          ''invalid pubsub topic '' @ debug_str env t @ '': expected /waku/2/rs/<cluster>/<shard>''
      | MessageTooLarge a m \<Rightarrow>
          ''message exceeds maximum size: '' @ show_nat a @ '' > '' @ show_nat m @ '' bytes'')"

definition NodeError_to_string :: "NodeError \<Rightarrow> string" where
  "NodeError_to_string e =
     (case e of
        NE_Build m \<Rightarrow> ''transport/build error: '' @ m
      | NE_Listen m \<Rightarrow> ''listen failed: '' @ m
      | NodeStopped \<Rightarrow> ''the node task has stopped''
      | NE_Command m \<Rightarrow> ''command failed: '' @ m)"

definition publish_response :: "RestEnv \<Rightarrow> (NodeError, MessageHash) result \<Rightarrow> 'a Response" where
  "publish_response env r =
     (case r of Ok h \<Rightarrow> Text 200 (hex_encode env h) | Err e \<Rightarrow> Text 503 (NodeError_to_string e))"

text \<open>\<open>publish\<close> is what \<open>NodeHandle::publish\<close> returns; the last component is what is given to it.\<close>

definition relay_publish ::
  "RestEnv \<Rightarrow> NetworkPreset \<Rightarrow> (ShardId \<Rightarrow> WakuMessage \<Rightarrow> (NodeError, MessageHash) result) \<Rightarrow> string
     \<Rightarrow> RestWakuMessage \<Rightarrow> ('a Response \<times> (ShardId \<times> WakuMessage) list) option" where
  "relay_publish env ps publish ct_str body =
     (case ContentTopic_parse ct_str of
        Err e \<Rightarrow> Some (Text 400 (CoreError_to_string env e), [])
      | Ok ct \<Rightarrow>
          (case into_message env body ct_str of
             Err e \<Rightarrow> Some (Text 400 e, [])
           | Ok m \<Rightarrow>
               (case autoshard (sha256_digest env) (NetworkPreset.cluster_id ps) ct (shard_count ps) of
                  None \<Rightarrow> None
                | Some sid \<Rightarrow> Some (publish_response env (publish sid m), [(sid, m)]))))"

fun relay_subscribe ::
  "RestEnv \<Rightarrow> NetworkPreset \<Rightarrow> (ShardId \<Rightarrow> (NodeError, unit) result) \<Rightarrow> string list \<Rightarrow> MessageCache
     \<Rightarrow> ('a Response \<times> MessageCache \<times> ShardId list) option" where
  "relay_subscribe env ps subscribe [] c = Some (Text 200 [], c, [])"
| "relay_subscribe env ps subscribe (ct_str # cts) c =
     (case ContentTopic_parse ct_str of
        Err e \<Rightarrow> Some (Text 400 (CoreError_to_string env e), c, [])
      | Ok ct \<Rightarrow>
          (case autoshard (sha256_digest env) (NetworkPreset.cluster_id ps) ct (shard_count ps) of
             None \<Rightarrow> None
           | Some sid \<Rightarrow>
               (case subscribe sid of
                  Err e \<Rightarrow> Some (Text 503 (NodeError_to_string e), c, [sid])
                | Ok _ \<Rightarrow>
                    map_option (\<lambda>(r, c', sids). (r, c', sid # sids))
                      (relay_subscribe env ps subscribe cts (cache_register ct_str c)))))"

definition relay_messages_handler ::
  "RestEnv \<Rightarrow> string \<Rightarrow> MessageCache \<Rightarrow> RestWakuMessage list Response \<times> MessageCache" where
  "relay_messages_handler env ct c =
     (case cache_drain ct c of (ms, c') \<Rightarrow> (Json (map (from_message env) ms), c'))"

definition rest_lightpush ::
  "RestEnv \<Rightarrow> NetworkPreset \<Rightarrow> (ShardId \<Rightarrow> WakuMessage \<Rightarrow> (NodeError, MessageHash) result) \<Rightarrow> LightpushBody
     \<Rightarrow> ('a Response \<times> (ShardId \<times> WakuMessage) list) option" where
  "rest_lightpush env ps publish req =
     (let ct_str = rw_content_topic (lb_message req);
          sid = (case lb_pubsub_topic req of
                   Some tp \<Rightarrow> bind_result (ShardId_parse tp) (\<lambda>s. Ok (Some s))
                 | None \<Rightarrow> bind_result (ContentTopic_parse ct_str) (\<lambda>ct.
                     Ok (autoshard (sha256_digest env) (NetworkPreset.cluster_id ps) ct (shard_count ps))))
      in case sid of
           Err e \<Rightarrow> Some (Text 400 (CoreError_to_string env e), [])
         | Ok None \<Rightarrow> None
         | Ok (Some s) \<Rightarrow>
             (case into_message env (lb_message req) ct_str of
                Err e \<Rightarrow> Some (Text 400 e, [])
              | Ok m \<Rightarrow> Some (publish_response env (publish s m), [(s, m)])))"

definition parse_hash :: "RestEnv \<Rightarrow> string \<Rightarrow> (string, MessageHash) result" where
  "parse_hash env s =
     bind_result (map_err (\<lambda>e. ''bad hex cursor: '' @ e) (hex_decode env s)) (\<lambda>b.
     if length b = 32 then Ok b else Err ''cursor must be 32 bytes'')"

definition params_query :: "StoreParams \<Rightarrow> MessageHash option \<Rightarrow> StoreQuery" where
  "params_query sp cur =
     \<lparr>StoreQuery.pubsub_topic = sp_pubsub_topic sp,
      content_topics = unwrap_or (map_option (\<lambda>c. map trim (split_on (CHR '','') c)) (sp_content_topics sp)) [],
      time_start_ns = start_time sp, time_end_ns = end_time sp, message_hashes = [],
      include_data = unwrap_or (sp_include_data sp) True, page_size = unwrap_or (sp_page_size sp) 20,
      forward = unwrap_or (ascending sp) True, cursor = cur\<rparr>"

definition to_store_message :: "RestEnv \<Rightarrow> StoredMessage \<Rightarrow> StoreMessage" where
  "to_store_message env m =
     \<lparr>sm_message_hash = hex_encode env (hash m),
      sm_message = map_option (from_message env) (StoredMessage.message m),
      sm_pubsub_topic = StoredMessage.pubsub_topic m\<rparr>"

definition rest_store_query ::
  "RestEnv \<Rightarrow> (StoreQuery \<Rightarrow> (StoreError, QueryResult) result) option \<Rightarrow> StoreParams \<Rightarrow> RestStoreResponse Response" where
  "rest_store_query env st sp =
     (case st of
        None \<Rightarrow> Text 503 ''store not enabled''
      | Some ask \<Rightarrow>
          (case (case sp_cursor sp of
                   None \<Rightarrow> Ok None
                 | Some c \<Rightarrow> bind_result (parse_hash env c) (\<lambda>h. Ok (Some h))) of
             Err e \<Rightarrow> Text 400 e
           | Ok cur \<Rightarrow>
               (case ask (params_query sp cur) of
                  Ok res \<Rightarrow>
                    Json \<lparr>sr_messages = map (to_store_message env) (QueryResult.messages res),
                          sr_pagination_cursor = map_option (hex_encode env) (next_cursor res)\<rparr>
                | Err e \<Rightarrow> Text 500 (StoreError_to_string e))))"

record AdminPeer =
  ap_peer_id :: string
  ap_connected :: bool

definition admin_peers :: "('p \<Rightarrow> string) \<Rightarrow> 'p list \<Rightarrow> AdminPeer list Response" where
  "admin_peers peer_str connected_peers =
     Json (map (\<lambda>p. \<lparr>ap_peer_id = peer_str p, ap_connected = True\<rparr>) connected_peers)"

text \<open>The samples of \<open>/metrics\<close>; \<open>rnd\<close> rounds to \<open>f64\<close>, and \<open>kept\<close> is the message count of the store, if any.\<close>

definition metrics_samples ::
  "(rat \<Rightarrow> rat) \<Rightarrow> nat \<Rightarrow> (StoreError, u64) result option \<Rightarrow> MetricsSnapshot \<Rightarrow> (string \<times> rat) list" where
  "metrics_samples rnd peers kept snap =
     [(''rs_waku_connected_peers'', rnd (of_nat peers))]
     @ (case kept of
          None \<Rightarrow> []
        | Some r \<Rightarrow> [(''rs_waku_stored_messages'', rnd (of_nat (unat (unwrap_or (result_ok r) 0))))])
     @ map (\<lambda>(n, w :: u64). (n, rnd (of_nat (unat w))))
         [(''rs_waku_relay_messages_total'', MetricsSnapshot.relay_messages snap),
          (''rs_waku_store_queries_total'', MetricsSnapshot.store_queries snap),
          (''rs_waku_lightpush_requests_total'', MetricsSnapshot.lightpush_requests snap),
          (''rs_waku_filter_pushes_total'', MetricsSnapshot.filter_pushes snap),
          (''rs_waku_rate_limited_total'', MetricsSnapshot.rate_limited snap)]"

section \<open>The cache as a bounded queue per topic\<close>

interpretation rest_queue: bounded_queue "\<lambda>_ _. False" queue_record CACHE_PER_TOPIC
  by unfold_locales (simp_all add: queue_record_def CACHE_PER_TOPIC_def)

datatype CacheOp = CacheRegister string | CacheRecord WakuMessage | CacheDrain string

definition cache_op :: "CacheOp \<Rightarrow> MessageCache \<Rightarrow> MessageCache" where
  "cache_op op c =
     (case op of
        CacheRegister ct \<Rightarrow> cache_register ct c
      | CacheRecord m \<Rightarrow> cache_record m c
      | CacheDrain ct \<Rightarrow> snd (cache_drain ct c))"

text \<open>What a client of one topic should be able to poll: everything since it registered or last polled.\<close>

definition unpolled :: "string \<Rightarrow> CacheOp \<Rightarrow> WakuMessage list option \<Rightarrow> WakuMessage list option" where
  "unpolled ct op s =
     (case op of
        CacheRegister t \<Rightarrow> if t = ct \<and> s = None then Some [] else s
      | CacheRecord m \<Rightarrow> if WakuMessage.content_topic m = ct then map_option (\<lambda>l. l @ [m]) s else s
      | CacheDrain t \<Rightarrow> if t = ct then map_option (\<lambda>_. []) s else s)"

lemma cache_refines:
  "fold cache_op ops MessageCache_new ct =
     map_option (\<lambda>l. drop (length l - CACHE_PER_TOPIC) l) (fold (unpolled ct) ops None)"
proof (induction ops rule: rev_induct)
  case Nil
  then show ?case by (simp add: MessageCache_new_def)
next
  case (snoc op ops)
  show ?case
  proof (cases op)
    case (CacheRecord m)
    then show ?thesis
      using snoc rest_queue.add_last [of m]
      by (cases "fold (unpolled ct) ops None")
        (auto simp: cache_op_def unpolled_def cache_record_def split: option.split)
  qed (use snoc in \<open>auto simp: cache_op_def unpolled_def cache_register_def cache_drain_def split: option.split\<close>)
qed

section \<open>Paging over REST\<close>

text \<open>A client that follows \<open>paginationCursor\<close>; the tables are those the server meets at each request.\<close>

fun rest_pages :: "RestEnv \<Rightarrow> engine \<Rightarrow> StoreParams \<Rightarrow> table list \<Rightarrow> StoreMessage list option" where
  "rest_pages env flt sp [] = None"
| "rest_pages env flt sp (t # ts) =
     (case rest_store_query env (Some (\<lambda>q. SqliteStore_query flt q t)) sp of
        Text _ _ \<Rightarrow> None
      | Json r \<Rightarrow>
          (case sr_pagination_cursor r of
             None \<Rightarrow> Some (sr_messages r)
           | Some c \<Rightarrow>
               map_option (\<lambda>rest. sr_messages r @ rest) (rest_pages env flt (sp\<lparr>sp_cursor := Some c\<rparr>) ts)))"

lemma params_query_cursor: "params_query (sp\<lparr>sp_cursor := x\<rparr>) (Some c) = StoreQuery_cursor c (params_query sp cur)"
  by (simp add: params_query_def StoreQuery_cursor_def)

lemma rest_pages_read_pages:
  assumes "\<And>b. hex_decode env (hex_encode env b) = Ok b"
  shows "case sp_cursor sp of None \<Rightarrow> cur = None | Some c \<Rightarrow> \<exists>h. parse_hash env c = Ok h \<and> cur = Some h \<Longrightarrow>
    read_pages flt (params_query sp cur) ts = Some (Ok ms) \<Longrightarrow>
    rest_pages env flt sp ts = Some (map (to_store_message env) ms)"
proof (induction ts arbitrary: sp cur ms)
  case (Cons t ts)
  then obtain res where res: "SqliteStore_query flt (params_query sp cur) t = Ok res"
    by (auto split: sum.splits)
  have resp: "rest_store_query env (Some (\<lambda>q. SqliteStore_query flt q t)) sp =
      Json \<lparr>sr_messages = map (to_store_message env) (QueryResult.messages res),
        sr_pagination_cursor = map_option (hex_encode env) (next_cursor res)\<rparr>"
    using Cons.prems(1) res by (auto simp: rest_store_query_def split: option.splits)
  show ?case
  proof (cases "next_cursor res")
    case None
    with Cons.prems res resp show ?thesis by simp
  next
    case (Some c)
    then have "parse_hash env (hex_encode env c) = Ok c"
      using query_cursor_len [OF res] assms by (simp add: parse_hash_def)
    moreover from Cons.prems(2) res Some obtain ms' where
      "read_pages flt (StoreQuery_cursor c (params_query sp cur)) ts = Some (Ok ms')"
      "ms = QueryResult.messages res @ ms'"
      by (auto simp: bind_result_Inr_iff)
    ultimately show ?thesis
      using Cons.IH [where sp = "sp\<lparr>sp_cursor := Some (hex_encode env c)\<rparr>" and cur = "Some c" and ms = ms'] resp Some
      by (simp add: params_query_cursor [where sp = sp and cur = cur])
  qed
qed simp

section \<open>Publishing through the node\<close>

text \<open>\<open>NodeHandle::publish\<close> against the driver: the command it sends, handled, and the reply it gets.\<close>

definition node_publish ::
  "'e NodeEnv \<Rightarrow> ('p, 'e) NodeState \<Rightarrow> ShardId \<Rightarrow> WakuMessage \<Rightarrow> (NodeError, MessageHash) result" where
  "node_publish nenv st sid m =
     (let cmd = fst (NodeHandle_publish sid m 0 True None) :: 'p Command;
          rx = List.map_filter (\<lambda>f. case f of Reply ch (ReplyHash r) \<Rightarrow> if ch = 0 then Some r else None | _ \<Rightarrow> None)
            (snd (handle_command nenv cmd st))
      in snd (NodeHandle_publish sid m 0 True (case rx of [] \<Rightarrow> None | r # _ \<Rightarrow> Some r) :: 'p Command \<times> _))"

section \<open>The same store over REST and over the store protocol\<close>

text \<open>The request of the store protocol with the parameters of a REST query, and a message of its response
  in JSON.\<close>

definition params_request :: "StoreParams \<Rightarrow> bytes option \<Rightarrow> StoreQueryRequest" where
  "params_request sp cur =
     \<lparr>StoreQueryRequest.request_id = [], include_data = unwrap_or (sp_include_data sp) True,
      pubsub_topic = sp_pubsub_topic sp,
      content_topics = unwrap_or (map_option (\<lambda>c. map trim (split_on (CHR '','') c)) (sp_content_topics sp)) [],
      time_start = start_time sp, time_end = end_time sp, message_hashes = [], pagination_cursor = cur,
      pagination_forward = unwrap_or (ascending sp) True, pagination_limit = sp_page_size sp\<rparr>"

definition key_value_json :: "RestEnv \<Rightarrow> WakuMessageKeyValue \<Rightarrow> StoreMessage" where
  "key_value_json env kv =
     \<lparr>sm_message_hash = hex_encode env (unwrap_or (WakuMessageKeyValue.message_hash kv) []),
      sm_message = map_option (from_message env) (WakuMessageKeyValue.message kv),
      sm_pubsub_topic = unwrap_or (WakuMessageKeyValue.pubsub_topic kv) []\<rparr>"

lemma key_value_json_stored: "key_value_json env (stored_to_key_value m) = to_store_message env m"
  by (simp add: key_value_json_def stored_to_key_value_def to_store_message_def)

lemma params_request_query:
  "(case cur of None \<Rightarrow> True | Some c \<Rightarrow> length c = 32) \<Longrightarrow> request_to_query (params_request sp cur) = params_query sp cur"
  by (cases cur) (simp_all add: request_to_query_def params_request_def params_query_def to_array32_def
      List.map_filter_simps)

lemma parse_hash_len: "parse_hash env s = Ok h \<Longrightarrow> length h = 32"
  by (auto simp: parse_hash_def split: if_splits)

section \<open>Properties\<close>

text \<open>C17: A REST client that follows the hex cursors of \<open>/store/v3/messages\<close> receives every stored message
  its parameters match, exactly once and in the requested order, and the walk ends.\<close>

theorem rest_store_paging:
  assumes "wf_table sha256 t" "\<forall>s. flt s = None" "\<forall>b. hex_decode env (hex_encode env b) = Ok b"
    and "unat (unwrap_or (sp_page_size sp) 20) < 2 ^ 63" "sp_cursor sp = None"
    and "length (filter (query_filter (params_query sp None)) t) < n"
  shows "rest_pages env flt sp (replicate n t) =
    Some (map (\<lambda>r. to_store_message env (stored (unwrap_or (sp_include_data sp) True) r))
      (order_by (unwrap_or (ascending sp) True) (filter (query_filter (params_query sp None)) t)))"
proof -
  let ?q = "params_query sp None"
  have q: "page_size ?q = unwrap_or (sp_page_size sp) 20" "StoreQuery.cursor ?q = None"
    "StoreQuery.include_data ?q = unwrap_or (sp_include_data sp) True" "forward ?q = unwrap_or (ascending sp) True"
    by (simp_all add: params_query_def)
  have "read_pages flt ?q (replicate n t) = Some (Ok (map (stored (StoreQuery.include_data ?q)) (matching ?q t)))"
    using read_pages_from [OF assms(1,2), of ?q 0 n] assms(4-) q
    by (simp add: pending_no_cursor cursor_row_def)
  from rest_pages_read_pages [OF _ _ this, of env] assms(3,5) show ?thesis by (simp add: comp_def q)
qed

text \<open>Polling: after any interleaving of registrations, received messages and polls of any topics, a
  poll of a content topic returns what was received on that topic since it was registered and last
  polled, in order, up to the last 100 messages, and nothing for a topic never registered.\<close>

lemma poll_returns_recent:
  "fst (cache_drain ct (fold cache_op ops MessageCache_new)) =
     (case fold (unpolled ct) ops None of None \<Rightarrow> [] | Some l \<Rightarrow> drop (length l - 100) l)"
  using cache_refines [of ops ct]
  by (cases "fold (unpolled ct) ops None") (simp_all add: cache_drain_def CACHE_PER_TOPIC_def)

text \<open>C15: The two front ends of a store are equivalent: whatever the store answers, a REST query returns the
  messages and the cursor that the store protocol serves for the same parameters, in JSON and hex,
  and its error text with status 500 when the protocol answers with status 500. They differ on a
  malformed cursor only, which REST refuses with status 400.\<close>

theorem rest_protocol_equivalence:
  "rest_store_query env (Some ask) sp =
     (case (case sp_cursor sp of None \<Rightarrow> Ok None | Some c \<Rightarrow> bind_result (parse_hash env c) (\<lambda>h. Ok (Some h))) of
        Err e \<Rightarrow> Text 400 e
      | Ok cur \<Rightarrow>
          let resp = serve ask (params_request sp cur)
          in if StoreQueryResponse.status_code resp = Some 200 then
               Json \<lparr>sr_messages = map (key_value_json env) (StoreQueryResponse.messages resp),
                     sr_pagination_cursor = map_option (hex_encode env) (StoreQueryResponse.pagination_cursor resp)\<rparr>
             else Text 500 (unwrap_or (StoreQueryResponse.status_desc resp) []))"
proof -
  have q: "request_to_query (params_request sp None) = params_query sp None"
    "length h = 32 \<Longrightarrow> request_to_query (params_request sp (Some h)) = params_query sp (Some h)" for h
    by (simp_all add: params_request_query)
  show ?thesis
    using q parse_hash_len [of env]
    by (auto simp: rest_store_query_def serve_def key_value_json_stored comp_def Let_def
        split: option.split sum.split)
qed

text \<open>Publishing over REST, through \<open>NodeHandle\<close> and the driver to gossipsub: a body that decodes, posted to
  a valid content topic, is published once, on the shard its content topic hashes to, and the
  response is the hex RFC-14 hash of exactly that message when gossipsub accepts it, and 503 with the
  error of gossipsub when it does not. The message ids of gossipsub are those of \<open>waku_message_id\<close>.\<close>

lemma rest_publish:
  assumes "ContentTopic_parse ct_str = Ok ct" "into_message env body ct_str = Ok m" "shard_count ps \<noteq> 0"
    and "digest_len (sha256_digest env)" "decode_message nenv (encode_message nenv m) = Ok m"
    and "\<forall>tp d mid. gossip_publish nenv tp d = Ok mid \<longrightarrow>
      mid = waku_message_id (sha256_digest env) (decode_message nenv) \<lparr>data = d, topic = tp\<rparr>"
  shows "\<exists>sid. autoshard (sha256_digest env) (NetworkPreset.cluster_id ps) ct (shard_count ps) = Some sid
    \<and> relay_publish env ps (node_publish nenv st) ct_str body =
      Some (case gossip_publish nenv (Waku_Core.pubsub_topic sid) (encode_message nenv m) of
              Ok _ \<Rightarrow> Text 200 (hex_encode env (deterministic_hash (sha256_digest env) (Waku_Core.pubsub_topic sid) m))
            | Err e \<Rightarrow> Text 503 (''command failed: '' @ e), [(sid, m)])"
proof -
  obtain sid where sid: "autoshard (sha256_digest env) (NetworkPreset.cluster_id ps) ct (shard_count ps) = Some sid"
    using assms(3) by (auto simp: autoshard_def Let_def)
  let ?tp = "Waku_Core.pubsub_topic sid" and ?d = "encode_message nenv m"
  have node: "node_publish nenv st sid m = map_err NE_Command (publish_reply (gossip_publish nenv ?tp ?d))"
    by (simp add: node_publish_def NodeHandle_publish_def handle_command_def await_reply_def shard_topic_def
        List.map_filter_simps Let_def)
  have "publish_response env (node_publish nenv st sid m) =
      (case gossip_publish nenv ?tp ?d of
         Ok _ \<Rightarrow> Text 200 (hex_encode env (deterministic_hash (sha256_digest env) ?tp m))
       | Err e \<Rightarrow> Text 503 (''command failed: '' @ e))"
  proof (cases "gossip_publish nenv ?tp ?d")
    case (Inr mid)
    then have "mid = waku_message_id (sha256_digest env) (decode_message nenv) \<lparr>data = ?d, topic = ?tp\<rparr>"
      using assms(6) by blast
    then have "mid = deterministic_hash (sha256_digest env) ?tp m"
      using assms(5) by (simp add: waku_message_id_def)
    moreover have "length mid = 32" using calculation assms(4) by (simp add: digest_len_def deterministic_hash_def)
    ultimately show ?thesis using Inr node by (simp add: publish_reply_def publish_response_def)
  qed (simp add: node publish_reply_def publish_response_def NodeError_to_string_def)
  then show ?thesis using sid assms(1,2) by (simp add: relay_publish_def)
qed

section \<open>A concrete server\<close>

definition ex_rest :: RestEnv where
  "ex_rest =
     \<lparr>b64_decode = (\<lambda>s. Ok (as_bytes s)), b64_encode = map (\<lambda>w. char_of (unat w)),
      hex_decode = (\<lambda>s. Ok (as_bytes s)), hex_encode = map (\<lambda>w. char_of (unat w)),
      sha256_digest = ex_digest, debug_str = id\<rparr>"

definition ex_params :: StoreParams where
  "ex_params =
     \<lparr>sp_pubsub_topic = None, sp_content_topics = None, start_time = None, end_time = None,
      sp_page_size = Some 1, ascending = None, sp_cursor = None, sp_include_data = None\<rparr>"

lemma ex_hex: "hex_decode ex_rest (hex_encode ex_rest b) = Ok b"
  by (simp add: ex_rest_def as_bytes_def comp_def of_char_of_u8)

theorem rest_store_paging_witness:
  "\<exists>ms. rest_pages ex_rest (\<lambda>_. None) ex_params (replicate 3 ex_table) = Some ms \<and> length ms = 2"
proof -
  have "query_filter (params_query ex_params None) r" for r
    by (simp add: query_filter_def params_query_def ex_params_def)
  then show ?thesis
    using rest_store_paging [OF ex_table_wf, of "\<lambda>_. None" ex_rest ex_params 3]
    by (simp add: ex_hex ex_table_eq) (simp add: ex_params_def)
qed

definition ex_body :: RestWakuMessage where
  "ex_body =
     \<lparr>rw_payload = ''hi'', rw_content_topic = [], rw_version = None, rw_timestamp = None, rw_meta = None,
      rw_ephemeral = None\<rparr>"

definition ex_decode :: "bytes \<Rightarrow> (string, WakuMessage) result" where
  "ex_decode b = Ok (WakuMessage_new ''/a/1/b/c'' b)"

definition ex_node :: "nat NodeEnv" where
  "ex_node = ex_env\<lparr>decode_message := ex_decode, encode_message := WakuMessage.payload,
     gossip_publish := \<lambda>tp d. Ok (waku_message_id ex_digest ex_decode \<lparr>data = d, topic = tp\<rparr>)\<rparr>"

lemma rest_publish_instance:
  "\<exists>sid m. relay_publish ex_rest TWN (node_publish ex_node (NodeState_init unrounded :: (nat, nat) NodeState))
     ''/a/1/b/c'' ex_body =
     Some (Text 200 (hex_encode ex_rest (deterministic_hash ex_digest (Waku_Core.pubsub_topic sid) m)) :: unit Response,
       [(sid, m)])"
proof -
  obtain ct where ct: "ContentTopic_parse ''/a/1/b/c'' = Ok ct" by (simp add: ContentTopic_parse_def)
  have m: "into_message ex_rest ex_body ''/a/1/b/c'' = Ok (WakuMessage_new ''/a/1/b/c'' (as_bytes ''hi''))"
    by (simp add: into_message_def ex_rest_def ex_body_def WakuMessage_new_def del: bind_result_Inr_iff)
  show ?thesis
    using rest_publish [OF ct m, of TWN ex_node "NodeState_init unrounded :: (nat, nat) NodeState"] ex_digest_len
    by (auto simp: TWN_def ex_rest_def ex_node_def ex_decode_def WakuMessage_new_def)
qed

end
