(* ===== verification/Wakunode.thy ===== *)
theory Wakunode
  imports Node_Discovery Rest_Api
begin

text \<open>
  The \<open>wakunode\<close> binary: \<open>FileConfig\<close> of \<open>config.rs\<close>, and of \<open>main.rs\<close> the command line, the resolution of
  the settings, the configuration handed to \<open>spawn\<close>, the key file and the feed of the REST cache. clap,
  toml, the parsers of addresses and keys and the file system are arguments; a file system is a map
  from paths to contents, and \<open>io\<close> tells which of its operations fail.
\<close>

section \<open>config.rs\<close>

record FileConfig =
  f_cluster_id :: "u16 option"
  f_shard :: "u16 list"
  f_tcp_port :: "u16 option"
  f_staticnode :: "string list"
  f_discv5_discovery :: "bool option"
  f_discv5_udp_port :: "u16 option"
  f_ext_ip :: "string option"
  f_discv5_bootstrap_node :: "string list"
  f_dns_discovery :: "bool option"
  f_dns_discovery_url :: "string list"
  f_store :: "bool option"
  f_store_path :: "string option"
  f_node_key_file :: "string option"
  f_rest_port :: "u16 option"
  f_max_connections :: "u32 option"
  f_ip_colocation_limit :: "nat option"

definition FileConfig_default :: FileConfig where
  "FileConfig_default =
     \<lparr>f_cluster_id = None, f_shard = [], f_tcp_port = None, f_staticnode = [], f_discv5_discovery = None,
      f_discv5_udp_port = None, f_ext_ip = None, f_discv5_bootstrap_node = [], f_dns_discovery = None,
      f_dns_discovery_url = [], f_store = None, f_store_path = None, f_node_key_file = None,
      f_rest_port = None, f_max_connections = None, f_ip_colocation_limit = None\<rparr>"

definition FileConfig_load ::
  "(string \<Rightarrow> (string, string) result) \<Rightarrow> (string \<Rightarrow> (string, FileConfig) result) \<Rightarrow> string option
     \<Rightarrow> (string, FileConfig) result" where
  "FileConfig_load read_to_string toml path =
     (case path of
        None \<Rightarrow> Ok FileConfig_default
      | Some p \<Rightarrow>
          bind_result (map_err (\<lambda>e. ''reading '' @ p @ '': '' @ e) (read_to_string p)) (\<lambda>content.
          map_err (\<lambda>e. ''parsing '' @ p @ '': '' @ e) (toml content)))"

section \<open>main.rs: settings\<close>

record Cli =
  c_config :: "string option"
  c_cluster_id :: "u16 option"
  c_shards :: "u16 list"
  c_tcp_port :: "u16 option"
  c_staticnodes :: "Multiaddr list"
  c_rln_relay :: bool
  c_discv5 :: bool
  c_discv5_udp_port :: "u16 option"
  c_ext_ip :: "nat option"
  c_bootstrap_enrs :: "string list"
  c_dns_discovery :: bool
  c_dns_discovery_urls :: "string list"
  c_store :: bool
  c_rest_port :: "u16 option"
  c_max_connections :: "u32 option"
  c_ip_colocation_limit :: "nat option"
  c_store_path :: "string option"
  c_node_key_file :: "string option"

record Settings =
  s_cluster_id :: u16
  s_tcp_port :: u16
  s_discv5_udp_port :: u16
  s_ext_ip :: nat
  s_max_connections :: u32
  s_ip_colocation_limit :: nat
  s_discv5 :: bool
  s_dns_discovery :: bool
  s_store_enabled :: bool
  s_store_path :: "string option"
  s_node_key_file :: "string option"
  s_rest_port :: "u16 option"
  s_shards :: "u16 list"
  s_staticnodes :: "Multiaddr list"
  s_bootstrap_enrs :: "string list"
  s_dns_discovery_urls :: "string list"

definition resolve_settings ::
  "(string \<Rightarrow> nat option) \<Rightarrow> (string \<Rightarrow> Multiaddr option) \<Rightarrow> Cli \<Rightarrow> FileConfig \<Rightarrow> Settings" where
  "resolve_settings parse_ip parse_addr cli file =
     (let shard_src = (if c_shards cli \<noteq> [] then c_shards cli else f_shard file)
      in \<lparr>s_cluster_id = unwrap_or (option_or (c_cluster_id cli) (f_cluster_id file)) (NetworkPreset.cluster_id TWN),
          s_tcp_port = unwrap_or (option_or (c_tcp_port cli) (f_tcp_port file)) 60000,
          s_discv5_udp_port = unwrap_or (option_or (c_discv5_udp_port cli) (f_discv5_udp_port file)) 9000,
          s_ext_ip = unwrap_or (option_or (c_ext_ip cli) (Option.bind (f_ext_ip file) parse_ip)) LOCALHOST,
          s_max_connections = unwrap_or (option_or (c_max_connections cli) (f_max_connections file)) 300,
          s_ip_colocation_limit = unwrap_or (option_or (c_ip_colocation_limit cli) (f_ip_colocation_limit file)) 20,
          s_discv5 = (c_discv5 cli \<or> unwrap_or (f_discv5_discovery file) False),
          s_dns_discovery = (c_dns_discovery cli \<or> unwrap_or (f_dns_discovery file) False),
          s_store_enabled = (c_store cli \<or> unwrap_or (f_store file) False),
          s_store_path = option_or (c_store_path cli) (f_store_path file),
          s_node_key_file = option_or (c_node_key_file cli) (f_node_key_file file),
          s_rest_port = option_or (c_rest_port cli) (f_rest_port file),
          s_shards = (if shard_src = [] then u16_upto (shard_count TWN) else shard_src),
          s_staticnodes = (if c_staticnodes cli \<noteq> [] then c_staticnodes cli
            else List.map_filter parse_addr (f_staticnode file)),
          s_bootstrap_enrs = (if c_bootstrap_enrs cli \<noteq> [] then c_bootstrap_enrs cli
            else f_discv5_bootstrap_node file),
          s_dns_discovery_urls = (if c_dns_discovery_urls cli \<noteq> [] then c_dns_discovery_urls cli
            else f_dns_discovery_url file)\<rparr>)"

section \<open>main.rs: the key file\<close>

datatype FsOp = FsRead string | FsWrite string

type_synonym files = "string \<rightharpoonup> string"

text \<open>Key pairs are secret keys; \<open>fresh\<close> is the one \<open>generate_secp256k1\<close> makes, \<open>secret_of\<close> its bytes.\<close>

definition load_or_create_key ::
  "RestEnv \<Rightarrow> (bytes \<Rightarrow> (string, 'k) result) \<Rightarrow> ('k \<Rightarrow> bytes) \<Rightarrow> (FsOp \<Rightarrow> string option) \<Rightarrow> 'k \<Rightarrow> string
     \<Rightarrow> files \<Rightarrow> (string, 'k) result \<times> files" where
  "load_or_create_key env try_from_bytes secret_of io fresh path fs =
     (case fs path of
        Some content \<Rightarrow>
          (case io (FsRead path) of
             Some e \<Rightarrow> (Err e, fs)
           | None \<Rightarrow> (bind_result (hex_decode env (trim content)) try_from_bytes, fs))
      | None \<Rightarrow>
          (case io (FsWrite path) of
             Some e \<Rightarrow> (Err e, fs)
           | None \<Rightarrow> (Ok fresh, fs(path \<mapsto> hex_encode env (secret_of fresh)))))"

section \<open>main.rs: the node configuration\<close>

definition discovery_settings :: "(string \<Rightarrow> (string, 'e) result) \<Rightarrow> Settings \<Rightarrow> 'e DiscoverySettings option" where
  "discovery_settings parse_enr st =
     (if s_discv5 st \<or> s_dns_discovery st \<or> s_bootstrap_enrs st \<noteq> [] then
        Some \<lparr>ds_udp_port = s_discv5_udp_port st, advertised_ip = s_ext_ip st,
              advertised_tcp_port = s_tcp_port st,
              ds_bootstrap = List.map_filter (\<lambda>s. result_ok (parse_enr s)) (s_bootstrap_enrs st),
              dns_bootstrap = (if s_dns_discovery st \<and> s_dns_discovery_urls st = []
                then [dns_discovery_enrtree TWN] else s_dns_discovery_urls st)\<rparr>
      else None)"

datatype StoreChoice = StoreFile string | StoreInMemory | NoStore

definition store_choice :: "Settings \<Rightarrow> StoreChoice" where
  "store_choice st =
     (case s_store_path st of
        Some p \<Rightarrow> StoreFile (''sqlite:'' @ p)
      | None \<Rightarrow> if s_store_enabled st \<or> s_rest_port st \<noteq> None then StoreInMemory else NoStore)"

definition main_config ::
  "(string \<Rightarrow> (string, 'e) result) \<Rightarrow> 'k \<Rightarrow> 's option \<Rightarrow> Settings \<Rightarrow> ('k, 's, 'e) NodeConfig" where
  "main_config parse_enr kp opened st =
     (with_cluster (s_cluster_id st) (s_shards st)
       (with_listen_addr [Ip4 0, Tcp (unat (s_tcp_port st))] (NodeConfig_new kp)))
     \<lparr>max_connections := s_max_connections st, ip_colocation_limit := s_ip_colocation_limit st,
      discovery := discovery_settings parse_enr st, nc_store := opened\<rparr>"

text \<open>The topics \<open>main\<close> subscribes to, and its reaction to an event.\<close>

definition main_subscriptions :: "Settings \<Rightarrow> ShardId list" where
  "main_subscriptions st = map (ShardId_new (s_cluster_id st)) (s_shards st)"

definition main_event :: "'p Event \<Rightarrow> MessageCache option \<Rightarrow> MessageCache option" where
  "main_event ev c =
     (case ev of MessageReceived _ m _ _ \<Rightarrow> map_option (cache_record m) c | _ \<Rightarrow> c)"

section \<open>Trimming\<close>

definition graphic :: "char \<Rightarrow> bool" where
  "graphic c \<longleftrightarrow> 32 < (of_char c :: nat) \<and> (of_char c :: nat) < 128"

lemma ws_len_graphic: "graphic c \<Longrightarrow> ws_len (c # s) = 0"
  by (cases s; cases "tl s") (auto simp: ws_len_def graphic_def Let_def)

lemma ws_len_all: "\<forall>c \<in> set s. graphic c \<Longrightarrow> ws_len s = 0"
  by (cases s) (simp_all add: ws_len_graphic, simp add: ws_len_def)

lemma ws_len_end_graphic:
  assumes "graphic c"
  shows "ws_len_end (s @ [c]) = 0"
proof -
  have 2: "ws_len [b, c] \<noteq> 2" for b using assms by (auto simp: ws_len_def graphic_def Let_def)
  have 3: "ws_len [a, b, c] \<noteq> 3" for a b using assms by (auto simp: ws_len_def graphic_def Let_def)
  show ?thesis
    using assms 2 3 ws_len_graphic [of c "[]"]
    by (cases s rule: rev_cases; cases "butlast s" rule: rev_cases) (auto simp: ws_len_end_def)
qed

lemma trim_graphic:
  assumes "\<forall>c \<in> set s. graphic c"
  shows "trim s = s"
proof (cases s rule: rev_cases)
  case (snoc t c)
  then have "trim_end s = s"
    using assms ws_len_end_graphic [of c t] by (subst trim_end.simps) simp
  moreover have "ws_len s = 0" by (rule ws_len_all [OF assms])
  then have "trim_start s = s" by (subst trim_start.simps) simp
  ultimately show ?thesis by (simp add: trim_def)
qed (simp add: trim_def trim_start.simps [of "[]"] trim_end.simps [of "[]"] ws_len_def ws_len_end_def)

section \<open>Properties\<close>

text \<open>The identity of a node is stable: when a first start creates the key file, every later start
  with the same file returns the same key, whatever key it would have generated and whatever
  happens to other files, and leaves the files as they are.\<close>

lemma node_key_persistent:
  assumes "\<forall>b. hex_decode env (hex_encode env b) = Ok b" "\<forall>b. \<forall>c \<in> set (hex_encode env b). graphic c"
    and "\<forall>k. try_from_bytes (secret_of k) = Ok k"
    and "fs path = None" "load_or_create_key env try_from_bytes secret_of io k path fs = (Ok k', fs')"
    and "fs'' path = fs' path" "io' (FsRead path) = None"
  shows "k' = k \<and> load_or_create_key env try_from_bytes secret_of io' fresh path fs'' = (Ok k, fs'')"
proof -
  have "k' = k" "fs' path = Some (hex_encode env (secret_of k))"
    using assms(4,5) by (auto simp: load_or_create_key_def split: option.splits)
  moreover have "trim (hex_encode env (secret_of k)) = hex_encode env (secret_of k)"
    using assms(2) by (intro trim_graphic) blast
  ultimately show ?thesis using assms(1,3,6,7) by (simp add: load_or_create_key_def)
qed

section \<open>A concrete key file\<close>

definition hex_val :: "char \<Rightarrow> nat" where
  "hex_val c = (let n = of_char c in if n < 58 then n - 48 else n - 87)"

fun unhex :: "string \<Rightarrow> (string, bytes) result" where
  "unhex (a # b # s) = bind_result (unhex s) (\<lambda>bs. Ok (word_of_nat (16 * hex_val a + hex_val b) # bs))"
| "unhex [] = Ok []"
| "unhex _ = Err ''odd length''"

definition ex_hexenv :: RestEnv where
  "ex_hexenv = ex_rest\<lparr>hex_decode := unhex, hex_encode := hash_hex\<rparr>"

lemma hex_digit_val: "n < 16 \<Longrightarrow> hex_val (hex_digit n) = n \<and> graphic (hex_digit n)"
  by (auto simp: hex_val_def hex_digit_def digit_char_def graphic_def Let_def)

lemma unhex_hash_hex: "unhex (hash_hex b) = Ok b"
proof (induction b)
  case (Cons w b)
  have "unat w div 16 < 16" using unat_u8_less [of w] by linarith
  then show ?case using Cons by (simp add: hash_hex_def hex_digit_val)
qed (simp add: hash_hex_def)

lemma graphic_hash_hex: "\<forall>c \<in> set (hash_hex b). graphic c"
proof (induction b)
  case (Cons w b)
  have "unat w div 16 < 16" using unat_u8_less [of w] by linarith
  then show ?case using Cons by (simp add: hash_hex_def hex_digit_val)
qed (simp add: hash_hex_def)

lemma node_key_persistent_instance:
  "load_or_create_key ex_hexenv Ok id (\<lambda>_. None) [9] ''k''
     (snd (load_or_create_key ex_hexenv Ok id (\<lambda>_. None) [1, 2] ''k'' Map.empty)) =
   (Ok [1, 2], [''k'' \<mapsto> hash_hex [1, 2]])"
proof -
  have 1: "load_or_create_key ex_hexenv Ok id (\<lambda>_. None) [1, 2] ''k'' Map.empty = (Ok [1, 2], [''k'' \<mapsto> hash_hex [1, 2]])"
    by (simp add: load_or_create_key_def ex_hexenv_def)
  have "\<forall>b. hex_decode ex_hexenv (hex_encode ex_hexenv b) = Ok b" "\<forall>b. \<forall>c \<in> set (hex_encode ex_hexenv b). graphic c"
    using unhex_hash_hex graphic_hash_hex by (simp_all add: ex_hexenv_def)
  from node_key_persistent [OF this _ _ 1, where fs'' = "[''k'' \<mapsto> hash_hex [1, 2]]" and io' = "\<lambda>_. None"
      and fresh = "[9]"] 1
  show ?thesis by simp
qed

end
