(* ===== verification/Node_Spawn.thy ===== *)
theory Node_Spawn
  imports Node_Discovery
begin

text \<open>
  Starting a node: \<open>build_swarm\<close>, \<open>spawn\<close> and \<open>keypair_to_combined\<close> of \<open>crates/waku-node/src/runtime.rs\<close>, with the
  \<open>build\<close> functions of the protocol crates. libp2p is the record \<open>SwarmOps\<close>, the key types \<open>KeyOps\<close>; what is
  handed to libp2p is kept as data. \<open>spawn\<close> returns its result and the tasks it has spawned.
\<close>

section \<open>Definitions\<close>

subsection \<open>The protocols\<close>

definition METADATA_PROTOCOL_ID :: string where "METADATA_PROTOCOL_ID = ''/vac/waku/metadata/1.0.0''"
definition STORE_QUERY_PROTOCOL_ID :: string where "STORE_QUERY_PROTOCOL_ID = ''/vac/waku/store-query/3.0.0''"
definition FILTER_SUBSCRIBE_PROTOCOL_ID :: string where
  "FILTER_SUBSCRIBE_PROTOCOL_ID = ''/vac/waku/filter-subscribe/2.0.0-beta1''"
definition FILTER_PUSH_PROTOCOL_ID :: string where "FILTER_PUSH_PROTOCOL_ID = ''/vac/waku/filter-push/2.0.0-beta1''"
definition LIGHTPUSH_PROTOCOL_ID :: string where "LIGHTPUSH_PROTOCOL_ID = ''/vac/waku/lightpush/3.0.0''"
definition PEER_EXCHANGE_PROTOCOL_ID :: string where
  "PEER_EXCHANGE_PROTOCOL_ID = ''/vac/waku/peer-exchange/2.0.0-alpha1''"

datatype ProtocolSupport = Inbound | Outbound | Full

datatype CodecName = MetadataCodec | StoreCodec | LightpushCodec | PeerExchangeCodec | SubscribeCodec | PushCodec

text \<open>The arguments of \<open>request_response::Behaviour::with_codec\<close>; the configuration is the default one.\<close>

record RequestResponse =
  rr_codec :: CodecName
  rr_protocols :: "(string \<times> ProtocolSupport) list"

definition metadata_build :: RequestResponse where
  "metadata_build = \<lparr>rr_codec = MetadataCodec, rr_protocols = [(METADATA_PROTOCOL_ID, Full)]\<rparr>"

definition store_query_build :: RequestResponse where
  "store_query_build = \<lparr>rr_codec = StoreCodec, rr_protocols = [(STORE_QUERY_PROTOCOL_ID, Full)]\<rparr>"

definition lightpush_build :: RequestResponse where
  "lightpush_build = \<lparr>rr_codec = LightpushCodec, rr_protocols = [(LIGHTPUSH_PROTOCOL_ID, Full)]\<rparr>"

definition peer_exchange_build :: RequestResponse where
  "peer_exchange_build = \<lparr>rr_codec = PeerExchangeCodec, rr_protocols = [(PEER_EXCHANGE_PROTOCOL_ID, Full)]\<rparr>"

definition build_subscribe :: RequestResponse where
  "build_subscribe = \<lparr>rr_codec = SubscribeCodec, rr_protocols = [(FILTER_SUBSCRIBE_PROTOCOL_ID, Full)]\<rparr>"

definition build_push :: RequestResponse where
  "build_push = \<lparr>rr_codec = PushCodec, rr_protocols = [(FILTER_PUSH_PROTOCOL_ID, Full)]\<rparr>"

subsection \<open>build_swarm\<close>

definition PKG_VERSION :: string where "PKG_VERSION = ''0.5.1''"

record Identify =
  protocol_version :: string
  agent_version :: string

record ConnectionLimits =
  max_established :: "u32 option"
  max_established_per_peer :: "u32 option"

record 'g WakuBehaviour =
  wb_relay :: 'g
  wb_identify :: Identify
  wb_metadata :: RequestResponse
  wb_store_query :: RequestResponse
  wb_lightpush :: RequestResponse
  wb_peer_exchange :: RequestResponse
  wb_filter_subscribe :: RequestResponse
  wb_filter_push :: RequestResponse
  wb_connection_limits :: ConnectionLimits

record ('k, 'g) Swarm =
  sw_key :: 'k
  sw_behaviour :: "'g WakuBehaviour"
  sw_idle_timeout_secs :: nat

record ('k, 'c, 'g, 'p) SwarmOps =
  with_tcp :: "'k \<Rightarrow> (string, unit) result"
  gossip_config :: "RelaySettings \<Rightarrow> (string, 'c) result"
  gossip_new :: "'c \<Rightarrow> (string, 'g) result"
  behaviour_error :: "string \<Rightarrow> string"
  key_peer_id :: "'k \<Rightarrow> 'p"
  listen_on :: "Multiaddr \<Rightarrow> (string, unit) result"

definition RelayError_to_string :: "RelayError \<Rightarrow> string" where
  "RelayError_to_string e =
     (case e of
        RelayError.Config m \<Rightarrow> ''gossipsub config invalid: '' @ m
      | RelayError.Build m \<Rightarrow> ''gossipsub behaviour init failed: '' @ m)"

definition build_swarm :: "('k, 'c, 'g, 'p) SwarmOps \<Rightarrow> ('k, 's, 'e) NodeConfig \<Rightarrow> (NodeError, ('k, 'g) Swarm) result" where
  "build_swarm ops cfg =
     bind_result (map_err NE_Build (with_tcp ops (keypair cfg))) (\<lambda>_.
     bind_result (map_err (\<lambda>e. NE_Build (behaviour_error ops (RelayError_to_string e)))
         (build_relay (gossip_config ops) (gossip_new ops))) (\<lambda>relay.
     Ok \<lparr>sw_key = keypair cfg,
         sw_behaviour =
           \<lparr>wb_relay = relay,
            wb_identify = \<lparr>protocol_version = ''ipfs/id/1.0.0'', agent_version = ''rs-waku/'' @ PKG_VERSION\<rparr>,
            wb_metadata = metadata_build, wb_store_query = store_query_build, wb_lightpush = lightpush_build,
            wb_peer_exchange = peer_exchange_build, wb_filter_subscribe = build_subscribe, wb_filter_push = build_push,
            wb_connection_limits =
              \<lparr>max_established = Some (max_connections cfg), max_established_per_peer = Some 4\<rparr>\<rparr>,
         sw_idle_timeout_secs = idle_timeout_secs cfg\<rparr>))"

subsection \<open>spawn\<close>

record ('k, 'sk, 'ck) KeyOps =
  try_into_secp256k1 :: "'k \<Rightarrow> (string, 'sk) result"
  secret_bytes :: "'sk \<Rightarrow> bytes"
  secp256k1_from_bytes :: "bytes \<Rightarrow> (string, 'ck) result"

definition keypair_to_combined :: "('k, 'sk, 'ck) KeyOps \<Rightarrow> 'k \<Rightarrow> (NodeError, 'ck) result" where
  "keypair_to_combined ko kp =
     bind_result (map_err (\<lambda>_. NE_Build ''node identity must be secp256k1 for discv5'') (try_into_secp256k1 ko kp)) (\<lambda>sk.
     map_err NE_Build (secp256k1_from_bytes ko (secret_bytes ko sk)))"

text \<open>The arguments of \<open>run\<close> that come from the configuration, and the spawned tasks.\<close>

record 's RunArgs =
  ra_cluster :: u32
  ra_meta :: WakuMetadata
  ra_store :: "'s option"
  ra_ip_limit :: nat

datatype ('s, 'd, 'e) Task = RunTask "'s RunArgs" | DiscoveryTask "'d Discovery" "'e list"

text \<open>
  The handle; the connected peers, the listen addresses and the counters it shares with the driver are
  fields of the state of \<open>run\<close>.
\<close>

record ('p, 's, 'e) NodeHandle =
  h_peer_id :: 'p
  h_discv5_enr :: "'e option"
  h_store :: "'s option"

definition spawn ::
  "('k, 'c, 'g, 'p) SwarmOps \<Rightarrow> ('k, 'sk, 'ck) KeyOps \<Rightarrow> ('e, 'ck, 'p) EnrOps \<Rightarrow> ('e, 'ck, 'd) Discv5Ops
     \<Rightarrow> ('vk, 'sg, 'e) DnsEnv \<Rightarrow> (DnsError, resolver) result \<Rightarrow> ('k, 's, 'e) NodeConfig
     \<Rightarrow> (NodeError, ('p, 's, 'e) NodeHandle) result \<times> ('s, 'd, 'e) Task list" where
  "spawn so ko ops d5 dns sys cfg =
     (case bind_result (build_swarm so cfg) (\<lambda>sw.
         bind_result (map_result (\<lambda>a. map_err NE_Listen (listen_on so a)) (nc_listen_addrs cfg)) (\<lambda>_. Ok sw)) of
        Err e \<Rightarrow> (Err e, [])
      | Ok sw \<Rightarrow>
          let driver = RunTask \<lparr>ra_cluster = ucast (nc_cluster_id cfg), ra_meta = local_metadata cfg,
                ra_store = nc_store cfg, ra_ip_limit = ip_colocation_limit cfg\<rparr>;
              handle = \<lparr>h_peer_id = key_peer_id so (sw_key sw), h_discv5_enr = None, h_store = nc_store cfg\<rparr>
          in (case spawn_discovery ops d5 dns sys (keypair_to_combined ko) cfg of
                Err e \<Rightarrow> (Err e, [driver])
              | Ok None \<Rightarrow> (Ok handle, [driver])
              | Ok (Some (dv, boot)) \<Rightarrow>
                  (Ok (handle\<lparr>h_discv5_enr := Some (Discovery_local_enr d5 dv)\<rparr>),
                   [driver, DiscoveryTask dv boot])))"

text \<open>The accessors of the handle; the last argument is the state of the driver.\<close>

definition NodeHandle_peer_id :: "('p, 's, 'e) NodeHandle \<Rightarrow> 'p" where
  "NodeHandle_peer_id h = h_peer_id h"

definition NodeHandle_metrics :: "('p, 'e) NodeState \<Rightarrow> Metrics" where
  "NodeHandle_metrics st = counters st"

definition NodeHandle_store :: "('p, 's, 'e) NodeHandle \<Rightarrow> 's option" where
  "NodeHandle_store h = h_store h"

definition NodeHandle_discv5_enr :: "('p, 's, 'e) NodeHandle \<Rightarrow> 'e option" where
  "NodeHandle_discv5_enr h = h_discv5_enr h"

definition NodeHandle_connected_peers :: "('p, 'e) NodeState \<Rightarrow> 'p set" where
  "NodeHandle_connected_peers st = connected st"

definition NodeHandle_shutdown :: "'p Command" where
  "NodeHandle_shutdown = CmdShutdown"

section \<open>Lemmas\<close>

text \<open>A discv5 service keeps the record it was made with until it is running.\<close>

definition keeps_record :: "('e, 'ck, 'd) Discv5Ops \<Rightarrow> bool" where
  "keeps_record d5 \<longleftrightarrow>
     (\<forall>e k ip port d. discv5_new d5 e k ip port = Ok d \<longrightarrow> discv5_local_enr d5 d = e)
     \<and> (\<forall>e d. discv5_local_enr d5 (snd (add_enr d5 e d)) = discv5_local_enr d5 d)
     \<and> (\<forall>d. discv5_local_enr d5 (snd (discv5_start d5 d)) = discv5_local_enr d5 d)"

lemma keeps_record_bootstrap:
  "keeps_record d5 \<Longrightarrow> discv5_local_enr d5 (fold (\<lambda>e d. snd (add_enr d5 e d)) es d) = discv5_local_enr d5 d"
  by (induction es arbitrary: d) (simp_all add: keeps_record_def)

lemma Discovery_new_record:
  assumes "Discovery_new ops d5 dcfg = Ok dv" "keeps_record d5"
  shows "build_waku_enr ops (unwrap_or (signing_key dcfg) (generate_key ops)) dcfg = Ok (discv5_local_enr d5 (service dv))
    \<and> own_cluster dv = DiscoveryConfig.cluster_id dcfg"
  using assms keeps_record_bootstrap [OF assms(2)]
  by (auto simp: Discovery_new_def Let_def keeps_record_def)

lemma spawn_discovery_Some:
  assumes "spawn_discovery ops d5 dns sys to_combined cfg = Ok (Some (dv, boot))" "discovery cfg = Some ds" "keeps_record d5"
  shows "\<exists>key dcfg. to_combined (keypair cfg) = Ok key
    \<and> build_waku_enr ops key dcfg = Ok (discv5_local_enr d5 (service dv)) \<and> own_cluster dv = nc_cluster_id cfg
    \<and> DiscoveryConfig.cluster_id dcfg = nc_cluster_id cfg \<and> DiscoveryConfig.shards dcfg = nc_shards cfg
    \<and> external_ip dcfg = Some (advertised_ip ds) \<and> tcp_port dcfg = Some (advertised_tcp_port ds)"
proof -
  obtain key where key: "to_combined (keypair cfg) = Ok key"
    using assms(1,2) by (auto simp: spawn_discovery_def)
  define boot' where "boot' = ds_bootstrap ds
      @ (if dns_bootstrap ds = [] then [] else resolve_dns_bootstrap dns sys (dns_bootstrap ds))"
  define dcfg where "dcfg = (DiscoveryConfig_with_cluster (nc_cluster_id cfg) (nc_shards cfg)
      (DiscoveryConfig_new (ds_udp_port ds)))\<lparr>signing_key := Some key, external_ip := Some (advertised_ip ds),
      tcp_port := Some (advertised_tcp_port ds), bootstrap := boot'\<rparr>"
  have "bind_result (map_err (\<lambda>e. NE_Build (DiscoveryError_to_string e)) (Discovery_new ops d5 dcfg)) (\<lambda>dv.
      case Discovery_start d5 dv of (r, dv') \<Rightarrow>
        bind_result (map_err (\<lambda>e. NE_Build (DiscoveryError_to_string e)) r) (\<lambda>_. Ok (Some (dv', boot')))) =
      Ok (Some (dv, boot))"
    using assms(1,2) key
    by (simp add: spawn_discovery_def Let_def dcfg_def boot'_def del: bind_result_Inr_iff)
  then obtain dv0 where dv0: "Discovery_new ops d5 dcfg = Ok dv0" "dv = snd (Discovery_start d5 dv0)"
    by (auto simp: case_prod_beta)
  have d: "signing_key dcfg = Some key" "DiscoveryConfig.cluster_id dcfg = nc_cluster_id cfg" "DiscoveryConfig.shards dcfg = nc_shards cfg"
    "external_ip dcfg = Some (advertised_ip ds)" "tcp_port dcfg = Some (advertised_tcp_port ds)"
    by (simp_all add: dcfg_def DiscoveryConfig_with_cluster_def)
  moreover have "discv5_local_enr d5 (service dv) = discv5_local_enr d5 (service dv0)" "own_cluster dv = own_cluster dv0"
    using assms(3) dv0(2) by (auto simp: Discovery_start_def keeps_record_def case_prod_beta)
  ultimately show ?thesis using Discovery_new_record [OF dv0(1) assms(3)] key by auto
qed

lemma spawn_Ok:
  assumes "spawn so ko ops d5 dns sys cfg = (Ok h, tasks)"
  shows "\<exists>dvb. spawn_discovery ops d5 dns sys (keypair_to_combined ko) cfg = Ok dvb
    \<and> map_result (\<lambda>a. map_err NE_Listen (listen_on so a)) (nc_listen_addrs cfg) \<in> range Ok
    \<and> h = \<lparr>h_peer_id = key_peer_id so (keypair cfg),
        h_discv5_enr = map_option (\<lambda>(dv, boot). discv5_local_enr d5 (service dv)) dvb, h_store = nc_store cfg\<rparr>
    \<and> tasks = RunTask \<lparr>ra_cluster = ucast (nc_cluster_id cfg), ra_meta = local_metadata cfg, ra_store = nc_store cfg,
        ra_ip_limit = ip_colocation_limit cfg\<rparr> # (case dvb of None \<Rightarrow> [] | Some (dv, boot) \<Rightarrow> [DiscoveryTask dv boot])"
  using assms
  by (auto simp: spawn_def build_swarm_def Let_def split: sum.splits option.splits prod.splits)

lemma map_result_Ok_all: "map_result f xs \<in> range Ok \<Longrightarrow> x \<in> set xs \<Longrightarrow> \<exists>y. f x = Ok y"
  by (induction xs) auto

section \<open>Properties\<close>

text \<open>C24: A node announces itself consistently: when \<open>spawn\<close> succeeds, it listens on every configured address, the
  driver answers metadata requests with the cluster it compares others against and with the
  configured shards, and when discovery is configured the record it publishes carries the same
  cluster and shards and resolves, at every other node, to the advertised address and the peer id of
  the handle.\<close>

theorem spawn_announces_itself:
  assumes "spawn so ko ops d5 dns sys cfg = (Ok h, tasks)" "enr_library ops pk" "keeps_record d5"
    and "\<forall>key. keypair_to_combined ko (keypair cfg) = Ok key \<longrightarrow>
      peer_id_from_key ops (pk key) = Ok (key_peer_id so (keypair cfg))"
  shows "\<exists>args rest. tasks = RunTask args # rest \<and> ra_cluster args = ucast (nc_cluster_id cfg)
    \<and> ra_meta args = \<lparr>WakuMetadata.cluster_id = Some (ra_cluster args), shards = map ucast (nc_shards cfg)\<rparr>
    \<and> (\<forall>a \<in> set (nc_listen_addrs cfg). listen_on so a = Ok ())
    \<and> (case discovery cfg of
         None \<Rightarrow> h_discv5_enr h = None \<and> rest = []
       | Some ds \<Rightarrow> \<exists>e dv boot. h_discv5_enr h = Some e \<and> rest = [DiscoveryTask dv boot] \<and> own_cluster dv = nc_cluster_id cfg
           \<and> enr_to_dialable ops e = Some
             \<lparr>dp_peer_id = h_peer_id h,
              dp_addrs = [[Ip4 (advertised_ip ds), Tcp (unat (advertised_tcp_port ds)), p2p_protocol ops (h_peer_id h)]],
              dp_shards = RelayShards_new (nc_cluster_id cfg) (nc_shards cfg), dp_enr = e\<rparr>)"
proof -
  obtain dvb where *: "spawn_discovery ops d5 dns sys (keypair_to_combined ko) cfg = Ok dvb"
    "map_result (\<lambda>a. map_err NE_Listen (listen_on so a)) (nc_listen_addrs cfg) \<in> range Ok"
    "h = \<lparr>h_peer_id = key_peer_id so (keypair cfg),
        h_discv5_enr = map_option (\<lambda>(dv, boot). discv5_local_enr d5 (service dv)) dvb, h_store = nc_store cfg\<rparr>"
    "tasks = RunTask \<lparr>ra_cluster = ucast (nc_cluster_id cfg), ra_meta = local_metadata cfg, ra_store = nc_store cfg,
        ra_ip_limit = ip_colocation_limit cfg\<rparr> # (case dvb of None \<Rightarrow> [] | Some (dv, boot) \<Rightarrow> [DiscoveryTask dv boot])"
    using spawn_Ok [OF assms(1)] by blast
  have listen: "\<forall>a \<in> set (nc_listen_addrs cfg). listen_on so a = Ok ()"
    using map_result_Ok_all [OF *(2)] by auto
  have dvb: "dvb = None \<longleftrightarrow> discovery cfg = None"
    using *(1) by (auto simp: spawn_discovery_def Let_def case_prod_beta split: option.splits)
  show ?thesis
  proof (cases "discovery cfg")
    case None
    then show ?thesis using * listen dvb by (simp add: local_metadata_def)
  next
    case (Some ds)
    then obtain dv boot where dv: "dvb = Some (dv, boot)" using dvb by fastforce
    let ?e = "discv5_local_enr d5 (service dv)"
    obtain key dcfg where k: "keypair_to_combined ko (keypair cfg) = Ok key" "build_waku_enr ops key dcfg = Ok ?e"
      "own_cluster dv = nc_cluster_id cfg" "DiscoveryConfig.cluster_id dcfg = nc_cluster_id cfg" "DiscoveryConfig.shards dcfg = nc_shards cfg"
      "external_ip dcfg = Some (advertised_ip ds)" "tcp_port dcfg = Some (advertised_tcp_port ds)"
      using spawn_discovery_Some [OF _ Some assms(3)] *(1) dv by blast
    show ?thesis
      using * listen Some dv k advertised_record_dialable [OF assms(2) k(2), of "h_peer_id h"] assms(4)
      by (simp add: local_metadata_def)
  qed
qed

text \<open>C40: The discv5 socket of a started node is bound to the loopback address, whatever address the node
  advertises: starting discovery needs, and uses, no service on any other address.\<close>

theorem discovery_binds_loopback:
  "spawn so ko ops (d5\<lparr>discv5_new := \<lambda>e k ip port. if ip = LOCALHOST then discv5_new d5 e k ip port else Err m\<rparr>) dns sys cfg =
   spawn so ko ops d5 dns sys cfg"
proof -
  let ?d5 = "d5\<lparr>discv5_new := \<lambda>e k ip port. if ip = LOCALHOST then discv5_new d5 e k ip port else Err m\<rparr>"
  have new: "Discovery_new ops ?d5 dcfg = Discovery_new ops d5 dcfg" if "listen_ip dcfg = LOCALHOST" for dcfg
    using that by (simp add: Discovery_new_def)
  have start: "Discovery_start ?d5 dv = Discovery_start d5 dv" for dv by (simp add: Discovery_start_def)
  have "spawn_discovery ops ?d5 dns sys (keypair_to_combined ko) cfg = spawn_discovery ops d5 dns sys (keypair_to_combined ko) cfg"
    unfolding spawn_discovery_def Let_def start
    by (subst new) (simp_all add: DiscoveryConfig_with_cluster_def DiscoveryConfig_new_def)
  then show ?thesis unfolding spawn_def by (simp cong: option.case_cong sum.case_cong)
qed

section \<open>A concrete start\<close>

definition ex_swarm :: "(nat, unit, unit, nat) SwarmOps" where
  "ex_swarm = \<lparr>with_tcp = (\<lambda>_. Ok ()), gossip_config = (\<lambda>_. Ok ()), gossip_new = (\<lambda>_. Ok ()), behaviour_error = id,
     key_peer_id = id, listen_on = (\<lambda>_. Ok ())\<rparr>"

definition ex_keys :: "(nat, nat, nat) KeyOps" where
  "ex_keys = \<lparr>try_into_secp256k1 = Ok, secret_bytes = (\<lambda>k. replicate k 1), secp256k1_from_bytes = (\<lambda>b. Ok (length b))\<rparr>"

definition ex_discv5 :: "(EnrBuilder \<times> nat, nat, EnrBuilder \<times> nat) Discv5Ops" where
  "ex_discv5 = \<lparr>discv5_new = (\<lambda>e _ _ _. Ok e), add_enr = (\<lambda>_ d. (Ok (), d)), discv5_start = (\<lambda>d. (Ok (), d)),
     discv5_local_enr = id, find_node_predicate = (\<lambda>_ _ _. Ok []), table_entries_enr = (\<lambda>_. [])\<rparr>"

definition ex_dns_env :: "(unit, unit, EnrBuilder \<times> nat) DnsEnv" where
  "ex_dns_env = \<lparr>to_uppercase = id, base32_decode = (\<lambda>_. Err []), base32_encode = (\<lambda>_. []), base64url_decode = (\<lambda>_. Err []),
     keccak256 = id, verifying_key = (\<lambda>_. Err []), signature_from_slice = (\<lambda>_. Err []),
     verify_prehash = (\<lambda>_ _ _. Err []), enr_from_str = (\<lambda>_. Err [])\<rparr>"

definition ex_config :: "(nat, unit, EnrBuilder \<times> nat) NodeConfig" where
  "ex_config = (with_cluster 2 [7] (NodeConfig_new 3))\<lparr>discovery := Some \<lparr>ds_udp_port = 9000, advertised_ip = 1,
     advertised_tcp_port = 60000, ds_bootstrap = [], dns_bootstrap = []\<rparr>\<rparr>"

theorem spawn_announces_itself_witness:
  "\<exists>h tasks e. spawn ex_swarm ex_keys ex_ops ex_discv5 ex_dns_env (Err Signature) ex_config = (Ok h, tasks)
     \<and> h_discv5_enr h = Some e
     \<and> map_option dp_addrs (enr_to_dialable ex_ops e) = Some [[Ip4 1, Tcp 60000, p2p_protocol ex_ops 3]]"
proof -
  have rec: "keeps_record ex_discv5" by (simp add: keeps_record_def ex_discv5_def)
  have key: "\<forall>key. keypair_to_combined ex_keys (keypair ex_config) = Ok key \<longrightarrow>
      peer_id_from_key ex_ops (replicate key 1) = Ok (key_peer_id ex_swarm (keypair ex_config))"
    by (simp add: keypair_to_combined_def ex_keys_def ex_ops_def ex_swarm_def)
  have "\<exists>b. to_indices_list (RelayShards_new 2 [7]) = Ok b"
    by (simp add: to_indices_list_Ok valid_indices_def length_RelayShards_new)
  then obtain h tasks where h: "spawn ex_swarm ex_keys ex_ops ex_discv5 ex_dns_env (Err Signature) ex_config = (Ok h, tasks)"
    by (auto simp: spawn_def build_swarm_def build_relay_def relay_config_def spawn_discovery_def Discovery_new_def
        Discovery_start_def build_waku_enr_def keypair_to_combined_def ex_swarm_def ex_keys_def ex_ops_def ex_discv5_def
        ex_config_def with_cluster_def NodeConfig_new_def DiscoveryConfig_with_cluster_def DiscoveryConfig_new_def Let_def)
  moreover have "h_peer_id h = 3"
    using spawn_Ok [OF h] by (auto simp: ex_swarm_def ex_config_def with_cluster_def NodeConfig_new_def)
  ultimately show ?thesis
    using spawn_announces_itself [OF h ex_enr_library rec key] by (auto simp: ex_config_def)
qed

end
