(* ===== verification/Rest_Server.thy ===== *)
theory Rest_Server
  imports Rest_Api Node_Spawn
begin

text \<open>
  The server of \<open>crates/waku-rest/src/lib.rs\<close>: the state its handlers share, the routes, and the handlers
  that only report on the node. The state of the driver, which the handle shares, is an argument; so are the
  printers of addresses, peer ids and node records.
\<close>

definition DEFAULT_REST_PORT :: u16 where
  "DEFAULT_REST_PORT = 8645"

record ('p, 's, 'e) AppState =
  as_node :: "('p, 's, 'e) NodeHandle"
  as_store :: "'s option"
  as_preset :: NetworkPreset
  as_version :: string
  as_cache :: MessageCache

definition AppState_new :: "('p, 's, 'e) NodeHandle \<Rightarrow> 's option \<Rightarrow> ('p, 's, 'e) AppState" where
  "AppState_new node opened =
     \<lparr>as_node = node, as_store = opened, as_preset = TWN, as_version = PKG_VERSION, as_cache = MessageCache_new\<rparr>"

datatype Method = Get | Post

datatype Handler =
  VersionHandler | InfoHandler | HealthHandler | RelaySubscribeHandler | RelayPublishHandler | RelayMessagesHandler
  | LightpushHandler | StoreQueryHandler | AdminPeersHandler | MetricsHandler

definition router :: "(string \<times> (Method \<times> Handler) list) list" where
  "router =
     [(''/debug/v1/version'', [(Get, VersionHandler)]),
      (''/debug/v1/info'', [(Get, InfoHandler)]),
      (''/health'', [(Get, HealthHandler)]),
      (''/relay/v1/auto/subscriptions'', [(Post, RelaySubscribeHandler)]),
      (''/relay/v1/auto/messages/{content_topic}'', [(Post, RelayPublishHandler), (Get, RelayMessagesHandler)]),
      (''/lightpush/v1/message'', [(Post, LightpushHandler)]),
      (''/store/v3/messages'', [(Get, StoreQueryHandler)]),
      (''/admin/v1/peers'', [(Get, AdminPeersHandler)]),
      (''/metrics'', [(Get, MetricsHandler)])]"

definition rest_version :: "('p, 's, 'e) AppState \<Rightarrow> 'a Response" where
  "rest_version s = Text 200 (as_version s)"

record HealthResponse =
  nodeHealth :: string
  connectedPeers :: nat

definition rest_health :: "('p, 'b) NodeState \<Rightarrow> HealthResponse Response" where
  "rest_health st = Json \<lparr>nodeHealth = ''Ready'', connectedPeers = card (NodeHandle_connected_peers st)\<rparr>"

record InfoResponse =
  ir_listen_addresses :: "string list"
  ir_enr_uri :: "string option"
  ir_peer_id :: string

definition rest_info ::
  "(Multiaddr \<Rightarrow> string) \<Rightarrow> ('e \<Rightarrow> string) \<Rightarrow> ('p \<Rightarrow> string) \<Rightarrow> ('p \<Rightarrow> Protocol) \<Rightarrow> ('p, 's, 'e) AppState
     \<Rightarrow> ('p, 'b) NodeState \<Rightarrow> InfoResponse Response" where
  "rest_info addr_str to_base64 peer_str p2p s st =
     Json \<lparr>ir_listen_addresses = map addr_str (NodeHandle_listen_addresses p2p (NodeHandle_peer_id (as_node s)) st),
           ir_enr_uri = map_option to_base64 (NodeHandle_discv5_enr (as_node s)),
           ir_peer_id = peer_str (NodeHandle_peer_id (as_node s))\<rparr>"

text \<open>\<open>GET /metrics\<close> over the state the handle shares; \<open>kept\<close> counts the messages of a store.\<close>

definition rest_metrics ::
  "(rat \<Rightarrow> rat) \<Rightarrow> ('s \<Rightarrow> (StoreError, u64) result) \<Rightarrow> ('p, 's, 'e) AppState \<Rightarrow> ('p, 'b) NodeState \<Rightarrow> (string \<times> rat) list" where
  "rest_metrics rnd kept s st =
     metrics_samples rnd (card (NodeHandle_connected_peers st)) (map_option kept (as_store s))
       (Metrics_snapshot (NodeHandle_metrics st))"

text \<open>\<open>bind\<close> is \<open>TcpListener::bind\<close> and \<open>axum_serve\<close> the server, which runs the routes until the process ends.\<close>

definition serve_rest ::
  "(string \<Rightarrow> (string, 'l) result) \<Rightarrow> ('l \<Rightarrow> (string \<times> (Method \<times> Handler) list) list \<Rightarrow> (string, unit) result) \<Rightarrow> string
     \<Rightarrow> (string, unit) result" where
  "serve_rest bind axum_serve addr = bind_result (bind addr) (\<lambda>listener. axum_serve listener router)"

end
