(* ===== verification/Wakunode_Main.thy ===== *)
theory Wakunode_Main
  imports Wakunode Rest_Server Node_Runs "HOL-Library.Sublist"
begin

text \<open>
  \<open>main\<close> of \<open>wakunode/src/main.rs\<close>. \<open>main_start\<close> is the part up to the started node. From there on the program
  is three tasks: the driver, \<open>main\<close> itself and the REST server, which share the event channel and the
  message cache. Their steps are the actions of \<open>Action\<close>, and a schedule is a list of actions.
\<close>

section \<open>Starting up\<close>

definition read_file :: "(FsOp \<Rightarrow> string option) \<Rightarrow> string \<Rightarrow> files \<Rightarrow> string \<Rightarrow> (string, string) result" where
  "read_file io not_found fs path =
     (case io (FsRead path) of
        Some e \<Rightarrow> Err e
      | None \<Rightarrow> (case fs path of None \<Rightarrow> Err not_found | Some content \<Rightarrow> Ok content))"

definition open_store ::
  "engine \<Rightarrow> (string \<Rightarrow> (string, string) result) \<Rightarrow> (string \<rightharpoonup> table) \<Rightarrow> StoreChoice \<Rightarrow> (StoreError, table option) result" where
  "open_store flt options dbs choice =
     (case choice of
        StoreFile url \<Rightarrow> bind_result (SqliteStore_connect flt options dbs url) (\<lambda>t. Ok (Some t))
      | StoreInMemory \<Rightarrow> bind_result (SqliteStore_in_memory flt) (\<lambda>t. Ok (Some t))
      | NoStore \<Rightarrow> Ok None)"

text \<open>
  What \<open>main\<close> does next: it waits for the replies to its commands, then for events and signals, and at the
  end for room to send \<open>Shutdown\<close>.
\<close>

datatype Phase =
  Subscribing "ShardId list" "Multiaddr list"
| Dialing "Multiaddr list"
| Looping
| Stopping
| Ended "(NodeError, unit) result"

fun startup :: "ShardId list \<Rightarrow> Multiaddr list \<Rightarrow> Phase" where
  "startup (s # ss) addrs = Subscribing (s # ss) addrs"
| "startup [] (a # addrs) = Dialing (a # addrs)"
| "startup [] [] = Looping"

text \<open>The commands in the channel are marked with whether \<open>main\<close> sent them.\<close>

record ('p, 'e) Process =
  pr_driver :: "('p, 'e) NodeState"
  pr_up :: bool
  pr_commands :: "(bool \<times> 'p Command) list"
  pr_events :: "'p Event list"
  pr_phase :: Phase
  pr_cache :: "MessageCache option"

definition Process_start ::
  "(rat \<Rightarrow> rat) \<Rightarrow> Settings \<Rightarrow> ('p, table, 'e) NodeHandle \<Rightarrow> table option \<Rightarrow> ('p, 'e) Process" where
  "Process_start rnd st node opened =
     \<lparr>pr_driver = NodeState_init rnd, pr_up = True, pr_commands = [], pr_events = [],
      pr_phase = startup (main_subscriptions st) (s_staticnodes st),
      pr_cache = map_option (\<lambda>_. as_cache (AppState_new node opened)) (s_rest_port st)\<rparr>"

record ('k, 'e) MainOps =
  mo_io :: "FsOp \<Rightarrow> string option"
  mo_not_found :: string
  mo_toml :: "string \<Rightarrow> (string, FileConfig) result"
  mo_parse_ip :: "string \<Rightarrow> nat option"
  mo_parse_addr :: "string \<Rightarrow> Multiaddr option"
  mo_parse_enr :: "string \<Rightarrow> (string, 'e) result"
  mo_rest :: RestEnv
  mo_key_from_bytes :: "bytes \<Rightarrow> (string, 'k) result"
  mo_key_bytes :: "'k \<Rightarrow> bytes"
  mo_fresh_key :: 'k
  mo_sql :: engine
  mo_sql_options :: "string \<Rightarrow> (string, string) result"
  mo_rnd :: "rat \<Rightarrow> rat"

text \<open>\<open>spawner\<close> is \<open>spawn\<close>; the result is the error \<open>main\<close> returns, or the running process.\<close>

definition main_start ::
  "('k, 'e) MainOps \<Rightarrow> (('k, table, 'e) NodeConfig \<Rightarrow> (NodeError, ('p, table, 'e) NodeHandle) result \<times> 't)
     \<Rightarrow> (string \<rightharpoonup> table) \<Rightarrow> Cli \<Rightarrow> files \<Rightarrow> (string, ('p, 'e) Process) result \<times> files" where
  "main_start mo spawner dbs cli fs =
     (case FileConfig_load (read_file (mo_io mo) (mo_not_found mo) fs) (mo_toml mo) (c_config cli) of
        Err e \<Rightarrow> (Err e, fs)
      | Ok file \<Rightarrow>
          let st = resolve_settings (mo_parse_ip mo) (mo_parse_addr mo) cli file;
              (key, fs') = (case s_node_key_file st of
                 None \<Rightarrow> (Ok (mo_fresh_key mo), fs)
               | Some path \<Rightarrow> load_or_create_key (mo_rest mo) (mo_key_from_bytes mo) (mo_key_bytes mo) (mo_io mo)
                   (mo_fresh_key mo) path fs)
          in (bind_result key (\<lambda>kp.
              bind_result (map_err StoreError_to_string (open_store (mo_sql mo) (mo_sql_options mo) dbs (store_choice st))) (\<lambda>opened.
              bind_result (map_err NodeError_to_string (fst (spawner (main_config (mo_parse_enr mo) kp opened st)))) (\<lambda>node.
              Ok (Process_start (mo_rnd mo) st node opened)))), fs'))"

section \<open>The running program\<close>

text \<open>The capacities of the channels.\<close>

definition COMMANDS_CAP :: nat where "COMMANDS_CAP = 64"

definition EVENTS_CAP :: nat where "EVENTS_CAP = 256"

text \<open>
  The steps: the driver handles an event or takes a command, or it dies; \<open>main\<close> sends the command it is
  at, sees the driver gone, receives an event, sees the event channel closed, or receives Ctrl-C or
  SIGTERM; a REST handler or the discovery task sends a command; a REST handler registers a topic or
  drains one. \<open>main\<close> holds a handle and the receiver until it ends, so until then the driver sees no closed
  channel, and no other task sends \<open>Shutdown\<close>. A panic of the driver happens while it runs, not while it
  waits. Signals are handled from the loop on. When \<open>main\<close> ends the
  process ends.
\<close>

datatype ('p, 'e) Action =
  DriverEvent "'e NodeEnv" "'p SwarmEvent"
| DriverCommand "'e NodeEnv"
| DriverDies
| ClientSend "'p Command"
| MainSend
| MainDriverGone
| MainEvent
| MainClosed
| MainSignal
| RestRegister string
| RestPoll string

datatype 'p Output =
  Did "'p Effect list"
| Served "'p Effect list"
| Polled string "RestWakuMessage list Response"
| Silent

definition emitted :: "'p Effect list \<Rightarrow> 'p Event list" where
  "emitted fx = List.map_filter (\<lambda>f. case f of Emit ev \<Rightarrow> Some ev | _ \<Rightarrow> None) fx"

definition unit_reply :: "nat \<Rightarrow> 'p Effect list \<Rightarrow> (string, unit) result option" where
  "unit_reply ch fx =
     (case List.map_filter (\<lambda>f. case f of Reply c (ReplyUnit r) \<Rightarrow> if c = ch then Some r else None | _ \<Rightarrow> None) fx of
        [] \<Rightarrow> None | r # _ \<Rightarrow> Some r)"

text \<open>The command \<open>main\<close> is at, with reply channel 0, and what it does with the result of the call.\<close>

definition main_command :: "Phase \<Rightarrow> 'p Command option" where
  "main_command ph =
     (case ph of
        Subscribing (s # _) _ \<Rightarrow> Some (fst (NodeHandle_subscribe s 0 True None))
      | Dialing (a # _) \<Rightarrow> Some (fst (NodeHandle_dial a 0 True None))
      | Stopping \<Rightarrow> Some NodeHandle_shutdown
      | _ \<Rightarrow> None)"

definition main_reply :: "(NodeError, unit) result \<Rightarrow> Phase \<Rightarrow> Phase" where
  "main_reply r ph =
     (case ph of
        Subscribing (s # ss) addrs \<Rightarrow> (case r of Ok _ \<Rightarrow> startup ss addrs | Err e \<Rightarrow> Ended (Err e))
      | Dialing (a # addrs) \<Rightarrow> startup [] addrs
      | Stopping \<Rightarrow> Ended (Ok ())
      | _ \<Rightarrow> ph)"

text \<open>
  \<open>pr_events\<close> holds the events that \<open>main\<close> has not received, with the one the driver waits to send when the
  channel is full: with more than \<open>EVENTS_CAP\<close> events the driver is inside \<open>evt_tx.send\<close> and takes no input.
\<close>

definition driver_ready :: "('p, 'e) Process \<Rightarrow> bool" where
  "driver_ready pr \<longleftrightarrow> pr_up pr \<and> length (pr_events pr) \<le> EVENTS_CAP"

definition driver_takes :: "'e NodeEnv \<Rightarrow> 'p Input \<Rightarrow> ('p, 'e) Process \<Rightarrow> ('p, 'e) Process \<times> 'p Effect list" where
  "driver_takes env inp pr =
     (case run_step env inp (pr_driver pr) of
        (ok, st, fx) \<Rightarrow> (pr\<lparr>pr_driver := st, pr_up := ok, pr_events := pr_events pr @ emitted fx\<rparr>, fx))"

definition has_room_for_command :: "('p, 'e) Process \<Rightarrow> bool" where
  "has_room_for_command pr \<longleftrightarrow> pr_up pr \<and> length (pr_commands pr) < COMMANDS_CAP"

definition has_ended :: "Phase \<Rightarrow> bool" where
  "has_ended ph = (case ph of Ended _ \<Rightarrow> True | _ \<Rightarrow> False)"

fun live_step ::
  "RestEnv \<Rightarrow> ('p, 'e) Action \<Rightarrow> ('p, 'e) Process \<Rightarrow> (('p, 'e) Process \<times> 'p Output) option" where
  "live_step renv (DriverEvent env ev) pr =
     (if driver_ready pr \<and> evt_open env
      then (case driver_takes env (Ev ev) pr of (pr', fx) \<Rightarrow> Some (pr', Did fx)) else None)"
| "live_step renv (DriverCommand env) pr =
     (case pr_commands pr of
        [] \<Rightarrow> None
      | (by_main, cmd) # cmds \<Rightarrow>
          if driver_ready pr then
            (case driver_takes env (Cmd cmd) (pr\<lparr>pr_commands := cmds\<rparr>) of (pr', fx) \<Rightarrow>
               if by_main
               then Some (pr'\<lparr>pr_phase := main_reply (await_reply True (unit_reply 0 fx)) (pr_phase pr)\<rparr>, Served fx)
               else Some (pr', Did fx))
          else None)"
| "live_step renv DriverDies pr =
     (if driver_ready pr then Some (pr\<lparr>pr_up := False, pr_commands := []\<rparr>, Silent) else None)"
| "live_step renv (ClientSend cmd) pr =
     (if has_room_for_command pr \<and> cmd \<noteq> CmdShutdown
      then Some (pr\<lparr>pr_commands := pr_commands pr @ [(False, cmd)]\<rparr>, Silent) else None)"
| "live_step renv MainSend pr =
     (case main_command (pr_phase pr) of
        None \<Rightarrow> None
      | Some cmd \<Rightarrow>
          if has_room_for_command pr \<and> \<not> list_ex fst (pr_commands pr)
          then Some (pr\<lparr>pr_commands := pr_commands pr @ [(True, cmd)],
                 pr_phase := if pr_phase pr = Stopping then Ended (Ok ()) else pr_phase pr\<rparr>, Silent)
          else None)"
| "live_step renv MainDriverGone pr =
     (if \<not> pr_up pr \<and> pr_phase pr \<noteq> Looping
      then Some (pr\<lparr>pr_phase := main_reply (await_reply False None) (pr_phase pr)\<rparr>, Silent) else None)"
| "live_step renv MainEvent pr =
     (case pr_events pr of
        [] \<Rightarrow> None
      | ev # evs \<Rightarrow>
          if pr_phase pr = Looping
          then Some (pr\<lparr>pr_events := evs, pr_cache := main_event ev (pr_cache pr)\<rparr>, Silent) else None)"
| "live_step renv MainClosed pr =
     (if pr_phase pr = Looping \<and> pr_events pr = [] \<and> \<not> pr_up pr
      then Some (pr\<lparr>pr_phase := Ended (Ok ())\<rparr>, Silent) else None)"
| "live_step renv MainSignal pr =
     (if pr_phase pr = Looping then Some (pr\<lparr>pr_phase := Stopping\<rparr>, Silent) else None)"
| "live_step renv (RestRegister ct) pr =
     map_option (\<lambda>c. (pr\<lparr>pr_cache := Some (cache_register ct c)\<rparr>, Silent)) (pr_cache pr)"
| "live_step renv (RestPoll ct) pr =
     map_option (\<lambda>c. case relay_messages_handler renv ct c of
       (resp, c') \<Rightarrow> (pr\<lparr>pr_cache := Some c'\<rparr>, Polled ct resp)) (pr_cache pr)"

definition proc_step ::
  "RestEnv \<Rightarrow> ('p, 'e) Action \<Rightarrow> ('p, 'e) Process \<Rightarrow> (('p, 'e) Process \<times> 'p Output) option" where
  "proc_step renv act pr = (if has_ended (pr_phase pr) then None else live_step renv act pr)"

fun proc_run ::
  "RestEnv \<Rightarrow> ('p, 'e) Action list \<Rightarrow> ('p, 'e) Process \<Rightarrow> (('p, 'e) Process \<times> 'p Output list) option" where
  "proc_run renv [] pr = Some (pr, [])"
| "proc_run renv (act # acts) pr =
     (case proc_step renv act pr of
        None \<Rightarrow> None
      | Some (pr', out) \<Rightarrow> map_option (\<lambda>(pr'', outs). (pr'', out # outs)) (proc_run renv acts pr'))"

section \<open>Steps of the driver\<close>

lemma emitted_simps [simp]:
  "emitted [] = []" "emitted (fx @ fy) = emitted fx @ emitted fy"
  "emitted (f # fx) = (case f of Emit ev \<Rightarrow> ev # emitted fx | _ \<Rightarrow> emitted fx)"
  by (auto simp: emitted_def List.map_filter_simps split: Effect.split)

lemma emitted_pushes [simp]: "emitted (map (\<lambda>(p, m). SendPush p m) xs) = []"
  by (induction xs) auto

lemma unit_reply_simps [simp]:
  "unit_reply ch [] = None"
  "unit_reply ch (Reply c (ReplyUnit r) # fx) = (if c = ch then Some r else unit_reply ch fx)"
  "unit_reply ch (GossipSubscribe tp # fx) = unit_reply ch fx" "unit_reply ch (Dial a # fx) = unit_reply ch fx"
  by (simp_all add: unit_reply_def List.map_filter_simps)

lemma emitted_command: "emitted (snd (handle_command env cmd st)) = []"
  by (cases cmd) (simp_all add: handle_command_def Let_def)

lemma run_step_command:
  "cmd \<noteq> CmdShutdown \<Longrightarrow> run_step env (Cmd cmd) st = (True, fst (handle_command env cmd st), snd (handle_command env cmd st))"
  by (cases cmd) (simp_all add: run_step_def case_prod_beta)

lemma emitted_le: "length (emitted (snd (snd (run_step env inp st)))) \<le> 1"
proof (cases inp)
  case (Ev ev)
  then show ?thesis
    by (cases ev)
      (auto simp: run_step_def handle_event_def resolved_defs emit_def on_new_listen_addr_def on_connection_established_def
        on_connection_closed_def on_relay_message_def handle_metadata_request_def handle_metadata_response_def
        on_store_request_def on_lightpush_request_def on_px_request_def on_filter_request_def on_filter_push_def
        serve_lightpush_def Let_def split: prod.split option.split sum.split)
next
  case (Cmd cmd)
  then show ?thesis
    using emitted_command [of env cmd st] by (cases "cmd = CmdShutdown") (simp_all add: run_step_command, simp add: run_step_def)
qed (simp add: run_step_def)

lemma takes_command:
  "cmd \<noteq> CmdShutdown \<Longrightarrow> driver_takes env (Cmd cmd) pr =
     (pr\<lparr>pr_driver := fst (handle_command env cmd (pr_driver pr)), pr_up := True\<rparr>, snd (handle_command env cmd (pr_driver pr)))"
  by (simp add: driver_takes_def run_step_command case_prod_beta emitted_command)

lemma takes_event:
  assumes "evt_open env" "length (pr_events pr) \<le> EVENTS_CAP" "driver_takes env (Ev ev) pr = (pr', fx)"
  shows "pr_up pr'" "pr_commands pr' = pr_commands pr" "pr_phase pr' = pr_phase pr" "pr_cache pr' = pr_cache pr"
    "pr_events pr' = pr_events pr @ emitted fx" "length (pr_events pr') \<le> Suc EVENTS_CAP"
  using assms run_step_continues [of env "Ev ev" "pr_driver pr"] emitted_le [of env "Ev ev" "pr_driver pr"]
  by (auto simp: driver_takes_def keeps_running_def case_prod_beta)

text \<open>The invariant of the channels: \<open>main\<close> has at most one command under way, and it is the one it is at.\<close>

definition channels_ok :: "('p, 'e) Process \<Rightarrow> bool" where
  "channels_ok pr \<longleftrightarrow>
     length (pr_commands pr) \<le> COMMANDS_CAP \<and> length (pr_events pr) \<le> Suc EVENTS_CAP
     \<and> (pr_up pr \<or> pr_commands pr = [])
     \<and> (\<not> has_ended (pr_phase pr) \<longrightarrow>
          length (filter fst (pr_commands pr)) \<le> 1
          \<and> (\<forall>(by_main, cmd) \<in> set (pr_commands pr). cmd \<noteq> CmdShutdown
               \<and> (by_main \<longrightarrow> main_command (pr_phase pr) = Some cmd)))"

lemma proc_step_SomeD:
  "proc_step renv act pr = Some x \<Longrightarrow> live_step renv act pr = Some x" "proc_step renv act pr = Some x \<Longrightarrow> \<not> has_ended (pr_phase pr)"
  by (auto simp: proc_step_def split: if_splits)

lemma channels_okD:
  assumes "channels_ok pr" "pr_commands pr = (b, cmd) # cmds" "\<not> has_ended (pr_phase pr)"
  shows "cmd \<noteq> CmdShutdown" "b \<Longrightarrow> main_command (pr_phase pr) = Some cmd \<and> \<not> list_ex fst cmds" "length (filter fst cmds) \<le> 1"
    "\<forall>(b, c) \<in> set cmds. c \<noteq> CmdShutdown \<and> (b \<longrightarrow> main_command (pr_phase pr) = Some c)" "pr_up pr" "length cmds \<le> COMMANDS_CAP"
  using assms by (cases b; simp add: channels_ok_def list_ex_iff filter_empty_conv)+

lemma command_step:
  assumes "live_step renv (DriverCommand env) pr = Some (pr', out)" "channels_ok pr" "\<not> has_ended (pr_phase pr)"
  obtains b cmd cmds where "pr_commands pr = (b, cmd) # cmds" "driver_ready pr"
    "pr' = pr\<lparr>pr_commands := cmds, pr_driver := fst (handle_command env cmd (pr_driver pr)), pr_up := True,
       pr_phase := if b then main_reply (await_reply True (unit_reply 0 (snd (handle_command env cmd (pr_driver pr))))) (pr_phase pr)
         else pr_phase pr\<rparr>"
    "out = (if b then Served else Did) (snd (handle_command env cmd (pr_driver pr)))"
proof -
  obtain b cmd cmds where q: "pr_commands pr = (b, cmd) # cmds" "driver_ready pr"
    using assms(1) by (auto split: list.splits if_splits)
  have "cmd \<noteq> CmdShutdown" using channels_okD(1) assms(2,3) q(1) by blast
  with that [OF q] q assms(1) show ?thesis by (cases b) (simp_all add: takes_command)
qed

lemma main_command_shutdown: "main_command ph = Some CmdShutdown \<longleftrightarrow> ph = Stopping"
  by (auto simp: main_command_def NodeHandle_subscribe_def NodeHandle_dial_def NodeHandle_shutdown_def
      split: Phase.splits list.splits)

lemma channels_ok_send:
  assumes "channels_ok pr" "\<not> has_ended (pr_phase pr)" "has_room_for_command pr" "cmd \<noteq> CmdShutdown"
    and "b \<Longrightarrow> main_command (pr_phase pr) = Some cmd \<and> \<not> list_ex fst (pr_commands pr)"
  shows "channels_ok (pr\<lparr>pr_commands := pr_commands pr @ [(b, cmd)]\<rparr>)"
  using assms by (cases b) (simp_all add: channels_ok_def has_room_for_command_def list_ex_iff filter_empty_conv)

lemma channels_ok_step:
  assumes "proc_step renv act pr = Some (pr', out)" "channels_ok pr"
  shows "channels_ok pr'"
proof -
  note step = proc_step_SomeD [OF assms(1)]
  show ?thesis
  proof (cases act)
    case (DriverEvent env ev)
    then have "evt_open env" "length (pr_events pr) \<le> EVENTS_CAP" "driver_takes env (Ev ev) pr = (pr', snd (driver_takes env (Ev ev) pr))"
      using step(1) by (auto simp: driver_ready_def case_prod_beta split: if_splits)
    note t = takes_event [OF this]
    show ?thesis using assms(2) t(6) unfolding channels_ok_def t(2,3) by (simp add: t(1))
  next
    case (DriverCommand env)
    show ?thesis
    proof (rule command_step [OF step(1) [unfolded DriverCommand] assms(2) step(2)])
      fix b cmd cmds
      assume q: "pr_commands pr = (b, cmd) # cmds"
        and "pr' = pr\<lparr>pr_commands := cmds, pr_driver := fst (handle_command env cmd (pr_driver pr)), pr_up := True,
          pr_phase := if b then main_reply (await_reply True (unit_reply 0 (snd (handle_command env cmd (pr_driver pr))))) (pr_phase pr)
            else pr_phase pr\<rparr>"
      then show ?thesis
        using assms(2) channels_okD [OF assms(2) q step(2)]
        by (cases b) (auto simp: channels_ok_def list_ex_iff filter_empty_conv)
    qed
  next
    case MainSend
    then obtain cmd where c: "main_command (pr_phase pr) = Some cmd" "has_room_for_command pr" "\<not> list_ex fst (pr_commands pr)"
      "pr' = pr\<lparr>pr_commands := pr_commands pr @ [(True, cmd)], pr_phase := if pr_phase pr = Stopping then Ended (Ok ()) else pr_phase pr\<rparr>"
      using step(1) by (auto split: option.splits if_splits)
    show ?thesis
    proof (cases "pr_phase pr = Stopping")
      case True
      then show ?thesis using assms(2) c by (simp add: channels_ok_def has_ended_def has_room_for_command_def)
    next
      case False
      then show ?thesis
        using channels_ok_send [OF assms(2) step(2) c(2), of cmd True] c main_command_shutdown [of "pr_phase pr"] by auto
    qed
  next
    case (ClientSend cmd)
    then show ?thesis using channels_ok_send [OF assms(2) step(2), of cmd False] step(1) by (auto split: if_splits)
  qed (use assms(2) step in \<open>auto simp: channels_ok_def driver_ready_def has_ended_def main_command_def case_prod_beta
      split: if_splits list.splits\<close>)
qed

lemma proc_run_ConsE:
  assumes "proc_run renv (act # acts) pr = Some (pr', outs)"
  obtains pr1 out outs1 where "proc_step renv act pr = Some (pr1, out)" "proc_run renv acts pr1 = Some (pr', outs1)"
    "outs = out # outs1"
  using assms by (auto split: option.splits)

lemma channels_ok_run: "proc_run renv acts pr = Some (pr', outs) \<Longrightarrow> channels_ok pr \<Longrightarrow> channels_ok pr'"
  by (induction acts arbitrary: pr outs) (auto elim!: proc_run_ConsE intro: channels_ok_step simp del: proc_run.simps(2) simp: proc_run.simps(1))

lemma channels_ok_start: "channels_ok (Process_start rnd st node opened)"
  by (simp add: channels_ok_def Process_start_def)

section \<open>The startup\<close>

text \<open>The topics that \<open>main\<close> has subscribed to, and the addresses it has had dialed.\<close>

definition subscribed :: "'p Output \<Rightarrow> string list" where
  "subscribed out =
     (case out of
        Served fx \<Rightarrow> if unit_reply 0 fx = Some (Ok ())
          then List.map_filter (\<lambda>f. case f of GossipSubscribe tp \<Rightarrow> Some tp | _ \<Rightarrow> None) fx else []
      | _ \<Rightarrow> [])"

definition dialed_by_main :: "'p Output \<Rightarrow> Multiaddr list" where
  "dialed_by_main out =
     (case out of
        Served fx \<Rightarrow> List.map_filter (\<lambda>f. case f of Dial a \<Rightarrow> Some a | _ \<Rightarrow> None) fx
      | _ \<Rightarrow> [])"

lemma subscribed_simps [simp]:
  "subscribed (Did fx) = []" "subscribed Silent = []" "subscribed (Polled t r) = []"
  "dialed_by_main (Did fx) = []" "dialed_by_main Silent = []" "dialed_by_main (Polled t r) = []"
  by (simp_all add: subscribed_def dialed_by_main_def)

definition startup_ok :: "string list \<Rightarrow> Multiaddr list \<Rightarrow> string list \<Rightarrow> Multiaddr list \<Rightarrow> bool \<Rightarrow> Phase \<Rightarrow> bool" where
  "startup_ok topics static subs dials up ph \<longleftrightarrow>
     (case ph of
        Subscribing rest addrs \<Rightarrow> rest \<noteq> [] \<and> subs @ map shard_topic rest = topics \<and> dials = [] \<and> addrs = static
      | Dialing rest \<Rightarrow> rest \<noteq> [] \<and> subs = topics \<and> prefix dials static \<and> (up \<longrightarrow> dials @ rest = static)
      | Looping \<Rightarrow> subs = topics \<and> prefix dials static \<and> (up \<longrightarrow> dials = static)
      | Stopping \<Rightarrow> subs = topics \<and> prefix dials static
      | Ended (Ok _) \<Rightarrow> subs = topics \<and> prefix dials static
      | Ended (Err _) \<Rightarrow> strict_prefix subs topics \<and> dials = [])"

lemma startup_ok_start:
  "subs @ map shard_topic ss = topics \<Longrightarrow> prefix dials static \<Longrightarrow> (ss \<noteq> [] \<Longrightarrow> dials = [] \<and> addrs = static)
    \<Longrightarrow> (up \<Longrightarrow> dials @ addrs = static) \<Longrightarrow> startup_ok topics static subs dials up (startup ss addrs)"
  by (cases "(ss, addrs)" rule: startup.cases) (auto simp: startup_ok_def)

text \<open>The phases in which \<open>main\<close> waits for a reply.\<close>

lemma startup_ok_cases:
  assumes "startup_ok topics static subs dials up ph" "ph \<noteq> Looping" "\<not> has_ended ph"
  obtains (subscribing) s ss where "ph = Subscribing (s # ss) static" "dials = []" "subs @ shard_topic s # map shard_topic ss = topics"
    | (dialing) a as where "ph = Dialing (a # as)" "subs = topics" "prefix dials static" "up \<Longrightarrow> dials @ a # as = static"
    | (stopping) "ph = Stopping" "subs = topics" "prefix dials static"
  using assms by (cases ph) (auto simp: startup_ok_def has_ended_def neq_Nil_conv)

lemma startup_ok_served:
  assumes "startup_ok topics static subs dials True ph" "main_command ph = Some cmd" "cmd \<noteq> CmdShutdown"
    and "fx = snd (handle_command env cmd st)"
  shows "startup_ok topics static (subs @ subscribed (Served fx)) (dials @ dialed_by_main (Served fx)) True
    (main_reply (await_reply True (unit_reply 0 fx)) ph)"
proof -
  have "ph \<noteq> Looping" "\<not> has_ended ph" using assms(2) by (auto simp: main_command_def has_ended_def split: Phase.splits)
  with assms(1) show ?thesis
  proof (cases rule: startup_ok_cases)
    case (subscribing s ss)
    then have fx: "fx = [GossipSubscribe (shard_topic s),
        Reply 0 (ReplyUnit (bind_result (gossip_subscribe env (shard_topic s)) (\<lambda>_. Ok ())))]"
      using assms(2,4) by (auto simp: main_command_def NodeHandle_subscribe_def handle_command_def Let_def)
    show ?thesis
    proof (cases "gossip_subscribe env (shard_topic s)")
      case (Inl e)
      have "strict_prefix subs topics" using subscribing(3) by (auto simp: strict_prefix_def)
      then show ?thesis
        using subscribing fx Inl
        by (simp add: main_reply_def await_reply_def startup_ok_def subscribed_def dialed_by_main_def List.map_filter_simps)
    next
      case (Inr x)
      have "startup_ok topics static (subs @ [shard_topic s]) [] True (startup ss static)"
        using subscribing by (intro startup_ok_start) auto
      then show ?thesis
        using subscribing fx Inr
        by (simp add: main_reply_def await_reply_def subscribed_def dialed_by_main_def List.map_filter_simps)
    qed
  next
    case (dialing a as)
    then have fx: "fx = [Dial a, Reply 0 (ReplyUnit (swarm_dial env a))]"
      using assms(2,4) by (auto simp: main_command_def NodeHandle_dial_def handle_command_def Let_def)
    have "startup_ok topics static subs (dials @ [a]) True (startup [] as)"
      using dialing by (intro startup_ok_start) (auto simp: prefix_def)
    then show ?thesis
      using dialing fx by (simp add: main_reply_def subscribed_def dialed_by_main_def List.map_filter_simps)
  next
    case stopping
    then show ?thesis using assms(2,3) by (simp add: main_command_def NodeHandle_shutdown_def)
  qed
qed

lemma startup_ok_gone:
  assumes "startup_ok topics static subs dials False ph" "ph \<noteq> Looping" "\<not> has_ended ph"
  shows "startup_ok topics static subs dials False (main_reply (await_reply False None) ph)"
  using assms
proof (cases rule: startup_ok_cases)
  case (dialing a as)
  then show ?thesis by (simp add: main_reply_def startup_ok_start)
qed (auto simp: main_reply_def await_reply_def startup_ok_def strict_prefix_def)

lemma startup_ok_step:
  assumes "proc_step renv act pr = Some (pr', out)" "channels_ok pr"
    and "startup_ok topics static subs dials (pr_up pr) (pr_phase pr)"
  shows "startup_ok topics static (subs @ subscribed out) (dials @ dialed_by_main out) (pr_up pr') (pr_phase pr')"
proof -
  note step = proc_step_SomeD [OF assms(1)]
  show ?thesis
  proof (cases act)
    case (DriverEvent env ev)
    then obtain fx where "evt_open env" "driver_ready pr" "driver_takes env (Ev ev) pr = (pr', fx)" "out = Did fx"
      using step(1) by (auto split: if_splits prod.splits)
    then show ?thesis using takes_event(1,3) [of env pr ev pr' fx] assms(3) by (simp add: driver_ready_def)
  next
    case (DriverCommand env)
    show ?thesis
    proof (rule command_step [OF step(1) [unfolded DriverCommand] assms(2) step(2)])
      fix b cmd cmds
      assume q: "pr_commands pr = (b, cmd) # cmds" "driver_ready pr"
        and pr': "pr' = pr\<lparr>pr_commands := cmds, pr_driver := fst (handle_command env cmd (pr_driver pr)), pr_up := True,
          pr_phase := if b then main_reply (await_reply True (unit_reply 0 (snd (handle_command env cmd (pr_driver pr))))) (pr_phase pr)
            else pr_phase pr\<rparr>"
        and out: "out = (if b then Served else Did) (snd (handle_command env cmd (pr_driver pr)))"
      show ?thesis
        using startup_ok_served [OF _ _ _ refl, of topics static subs dials "pr_phase pr" cmd env "pr_driver pr"]
          channels_okD(1,2) [OF assms(2) q(1) step(2)] assms(3) q(2)
        by (simp add: pr' out driver_ready_def)
    qed
  next
    case MainDriverGone
    then show ?thesis
      using startup_ok_gone [of topics static subs dials "pr_phase pr"] step assms(3) by (auto split: if_splits)
  qed (use assms(3) step in \<open>auto simp: startup_ok_def case_prod_beta split: if_splits list.splits option.splits Phase.splits sum.splits\<close>)
qed

lemma startup_ok_run:
  assumes "proc_run renv acts pr = Some (pr', outs)" "channels_ok pr" "startup_ok topics static subs dials (pr_up pr) (pr_phase pr)"
  shows "startup_ok topics static (subs @ concat (map subscribed outs)) (dials @ concat (map dialed_by_main outs))
    (pr_up pr') (pr_phase pr')"
  using assms
proof (induction acts arbitrary: pr subs dials outs)
  case (Cons act acts)
  from Cons.prems(1) show ?case
  proof (rule proc_run_ConsE)
    fix pr1 out outs1
    assume *: "proc_step renv act pr = Some (pr1, out)" "proc_run renv acts pr1 = Some (pr', outs1)" "outs = out # outs1"
    from Cons.IH [OF *(2) channels_ok_step [OF *(1) Cons.prems(2)] startup_ok_step [OF *(1) Cons.prems(2,3)]] *(3)
    show ?thesis by simp
  qed
qed simp

lemma main_start_Ok:
  assumes "main_start mo spawner dbs cli fs = (Ok pr, fs')"
  obtains fc node opened where
    "FileConfig_load (read_file (mo_io mo) (mo_not_found mo) fs) (mo_toml mo) (c_config cli) = Ok fc"
    "pr = Process_start (mo_rnd mo) (resolve_settings (mo_parse_ip mo) (mo_parse_addr mo) cli fc) node opened"
  using assms by (auto simp: main_start_def Let_def case_prod_beta split: sum.splits)

section \<open>Properties\<close>

text \<open>C18: The startup of the program, in any interleaving of the driver, \<open>main\<close>, the REST server and the discovery
  task: the process subscribes to the topics of exactly the configured shards, in order, and only when
  the subscription to every one of them has succeeded dials the static nodes and goes on to its event
  loop; a subscription that fails ends the program with an error before any static node is dialed,
  while a failing dial changes nothing. A signal ends it without an error.\<close>

theorem main_startup:
  assumes "main_start mo (spawn so ko ops d5 dns sys) dbs cli fs = (Ok pr, fs')"
    and "proc_run renv acts pr = Some (pr', outs)"
    and "subs = concat (map subscribed outs)" "dials = concat (map dialed_by_main outs)"
  shows "\<exists>file st. FileConfig_load (read_file (mo_io mo) (mo_not_found mo) fs) (mo_toml mo) (c_config cli) = Ok file
    \<and> st = resolve_settings (mo_parse_ip mo) (mo_parse_addr mo) cli file
    \<and> (let topics = map (\<lambda>s. shard_topic (ShardId_new (s_cluster_id st) s)) (s_shards st); static = s_staticnodes st
       in case pr_phase pr' of
            Subscribing rest _ \<Rightarrow> subs @ map shard_topic rest = topics \<and> dials = []
          | Dialing rest \<Rightarrow> subs = topics \<and> prefix dials static \<and> (pr_up pr' \<longrightarrow> dials @ rest = static)
          | Looping \<Rightarrow> subs = topics \<and> prefix dials static \<and> (pr_up pr' \<longrightarrow> dials = static)
          | Stopping \<Rightarrow> subs = topics \<and> prefix dials static
          | Ended (Ok _) \<Rightarrow> subs = topics \<and> prefix dials static
          | Ended (Err _) \<Rightarrow> strict_prefix subs topics \<and> dials = [])"
proof (rule main_start_Ok [OF assms(1)])
  fix fc node opened
  let ?st = "resolve_settings (mo_parse_ip mo) (mo_parse_addr mo) cli fc"
  let ?topics = "map shard_topic (main_subscriptions ?st)"
  assume fc: "FileConfig_load (read_file (mo_io mo) (mo_not_found mo) fs) (mo_toml mo) (c_config cli) = Ok fc"
    and pr: "pr = Process_start (mo_rnd mo) ?st node opened"
  have "startup_ok ?topics (s_staticnodes ?st) [] [] True (startup (main_subscriptions ?st) (s_staticnodes ?st))"
    by (rule startup_ok_start) auto
  then have "startup_ok ?topics (s_staticnodes ?st) subs dials (pr_up pr') (pr_phase pr')"
    using startup_ok_run [OF assms(2) channels_ok_start [of "mo_rnd mo" ?st node opened, folded pr], of ?topics "s_staticnodes ?st" "[]" "[]"]
      assms(3,4) by (simp add: pr Process_start_def)
  then show ?thesis
    using fc by (auto simp: startup_ok_def main_subscriptions_def comp_def Let_def split: Phase.splits sum.splits)
qed

section \<open>A concrete program\<close>

text \<open>A node on shard 0 with no configuration file, key file, store or REST server.\<close>

definition ex_cli :: Cli where
  "ex_cli = \<lparr>c_config = None, c_cluster_id = None, c_shards = [0], c_tcp_port = None, c_staticnodes = [[Ip4 9, Tcp 1]],
     c_rln_relay = False, c_discv5 = False, c_discv5_udp_port = None, c_ext_ip = None, c_bootstrap_enrs = [],
     c_dns_discovery = False, c_dns_discovery_urls = [], c_store = False, c_rest_port = None, c_max_connections = None,
     c_ip_colocation_limit = None, c_store_path = None, c_node_key_file = None\<rparr>"

definition ex_main :: "(nat, EnrBuilder \<times> nat) MainOps" where
  "ex_main = \<lparr>mo_io = (\<lambda>_. None), mo_not_found = [], mo_toml = (\<lambda>_. Err []), mo_parse_ip = (\<lambda>_. None),
     mo_parse_addr = (\<lambda>_. None), mo_parse_enr = (\<lambda>_. Err []), mo_rest = ex_rest, mo_key_from_bytes = (\<lambda>b. Ok (length b)),
     mo_key_bytes = (\<lambda>k. replicate k 1), mo_fresh_key = 3, mo_sql = (\<lambda>_. None), mo_sql_options = Ok, mo_rnd = unrounded\<rparr>"

abbreviation ex_spawn ::
  "(nat, table, EnrBuilder \<times> nat) NodeConfig \<Rightarrow> (NodeError, (nat, table, EnrBuilder \<times> nat) NodeHandle) result
     \<times> (table, EnrBuilder \<times> nat, EnrBuilder \<times> nat) Task list" where
  "ex_spawn \<equiv> spawn ex_swarm ex_keys ex_ops ex_discv5 ex_dns_env (Err Signature)"

definition ex_started :: "(nat, EnrBuilder \<times> nat) Process" where
  "ex_started = \<lparr>pr_driver = NodeState_init unrounded, pr_up = True, pr_commands = [], pr_events = [],
     pr_phase = startup [ShardId_new 1 0] [[Ip4 9, Tcp 1]], pr_cache = None\<rparr>"

lemma ex_main_start: "main_start ex_main ex_spawn Map.empty ex_cli Map.empty = (Ok ex_started, Map.empty)"
  by (simp add: main_start_def FileConfig_load_def ex_cli_def ex_main_def resolve_settings_def option_or_def unwrap_or_def
      FileConfig_default_def open_store_def store_choice_def main_config_def discovery_settings_def spawn_def build_swarm_def
      build_relay_def relay_config_def spawn_discovery_def with_cluster_def with_listen_addr_def NodeConfig_new_def
      ex_swarm_def Process_start_def main_subscriptions_def TWN_def Let_def ex_started_def)

text \<open>A gossipsub that accepts every subscription.\<close>

definition ex_ready :: "(EnrBuilder \<times> nat) NodeEnv" where
  "ex_ready =
     \<lparr>local_cluster = 1, local_meta = \<lparr>WakuMetadata.cluster_id = Some 1, shards = [0]\<rparr>, node_store = None, ip_limit = 0,
      evt_open = True, now_instant = 0, now_nanos = 0, rx_nanos = 0, f64_rnd = unrounded, digest = ex_digest,
      decode_message = (\<lambda>_. Err []), encode_message = (\<lambda>_. []), gossip_subscribe = (\<lambda>_. Ok True),
      gossip_publish = (\<lambda>_ d. Ok d), mesh_peers = (\<lambda>_. 0), swarm_dial = (\<lambda>_. Ok ()), fresh_id = 0, enr_to_bytes = (\<lambda>_. [])\<rparr>"

theorem main_startup_witness:
  "\<exists>pr fs' pr' outs. main_start ex_main ex_spawn Map.empty ex_cli Map.empty = (Ok pr, fs')
    \<and> proc_run ex_rest [MainSend, DriverCommand ex_ready, MainSend, DriverCommand ex_ready] pr = Some (pr', outs) \<and> pr_phase pr' = Looping
    \<and> concat (map subscribed outs) = [shard_topic (ShardId_new 1 0)] \<and> concat (map dialed_by_main outs) = [[Ip4 9, Tcp 1]]"
proof -
  have "\<exists>pr' outs. proc_run ex_rest [MainSend, DriverCommand ex_ready, MainSend, DriverCommand ex_ready] ex_started = Some (pr', outs)
      \<and> pr_phase pr' = Looping \<and> pr_up pr'"
    by (simp add: ex_started_def proc_step_def has_ended_def main_command_def NodeHandle_subscribe_def NodeHandle_dial_def
        has_room_for_command_def COMMANDS_CAP_def driver_ready_def takes_command handle_command_def ex_ready_def
        main_reply_def await_reply_def Let_def)
  then obtain pr' outs where
    r: "proc_run ex_rest [MainSend, DriverCommand ex_ready, MainSend, DriverCommand ex_ready] ex_started = Some (pr', outs)"
      "pr_phase pr' = Looping" "pr_up pr'" by blast
  from main_startup [OF ex_main_start r(1) refl refl] r ex_main_start show ?thesis
    by (auto simp: FileConfig_load_def ex_cli_def ex_main_def resolve_settings_def Let_def FileConfig_default_def
        option_or_def unwrap_or_def TWN_def)
qed

end
