(* ===== verification/Rest_Delivery.thy ===== *)
theory Rest_Delivery
  imports Wakunode_Main
begin

text \<open>
  Relay messages on their way to a REST client: from the driver through the event channel to \<open>main\<close>, which
  records them in the message cache, from where the polls of the client take them.
\<close>

section \<open>Messages on their way to a REST client\<close>

text \<open>The relay messages of a topic among the inputs the driver accepts, and among the events in the channel.\<close>

definition accepted :: "string \<Rightarrow> ('p, 'e) Action \<Rightarrow> WakuMessage option" where
  "accepted ct act =
     (case act of
        DriverEvent env (RelayMessage _ _ gm) \<Rightarrow>
          (case (ShardId_parse (topic gm), decode_message env (data gm)) of
             (Ok _, Ok m) \<Rightarrow> if fresh_message (now_nanos env) m \<and> WakuMessage.content_topic m = ct then Some m else None
           | _ \<Rightarrow> None)
      | _ \<Rightarrow> None)"

definition on_topic :: "string \<Rightarrow> 'p Event list \<Rightarrow> WakuMessage list" where
  "on_topic ct evs =
     List.map_filter (\<lambda>ev. case ev of
        MessageReceived _ m _ _ \<Rightarrow> if WakuMessage.content_topic m = ct then Some m else None | _ \<Rightarrow> None) evs"

lemma on_topic_simps [simp]:
  "on_topic ct [] = []" "on_topic ct (evs @ evs') = on_topic ct evs @ on_topic ct evs'"
  "on_topic ct (MessageReceived sid m mid p # evs) =
     (if WakuMessage.content_topic m = ct then m # on_topic ct evs else on_topic ct evs)"
  by (simp_all add: on_topic_def List.map_filter_simps)

definition clock_of :: "('p, 'e) Action \<Rightarrow> bool" where
  "clock_of act = (case act of DriverEvent env _ \<Rightarrow> clock_ok (now_nanos env) | _ \<Rightarrow> True)"

lemma emitted_relay:
  assumes "clock_ok (now_nanos env)" "evt_open env"
  shows "on_topic ct (emitted (snd (snd (on_relay_message env src mid gm st)))) =
    (case accepted ct (DriverEvent env (RelayMessage src mid gm)) of None \<Rightarrow> [] | Some m \<Rightarrow> [m])"
  using assms relay_verdict_eq [OF assms(1)]
  by (simp add: on_relay_message_def accepted_def emit_def Let_def case_prod_beta split: sum.split)

lemma emitted_other:
  assumes "\<nexists>src mid gm. ev = RelayMessage src mid gm"
  shows "on_topic ct (emitted (snd (snd (run_step env (Ev ev) st)))) = []"
  using assms
  by (cases ev)
    (auto simp: run_step_def handle_event_def resolved_defs emit_def on_new_listen_addr_def on_connection_established_def
      on_connection_closed_def handle_metadata_request_def handle_metadata_response_def on_store_request_def
      on_lightpush_request_def on_px_request_def on_filter_request_def on_filter_push_def serve_lightpush_def Let_def
      on_topic_def List.map_filter_simps split: prod.split option.split sum.split)

lemma emitted_event:
  assumes "clock_of (DriverEvent env ev)" "evt_open env"
  shows "on_topic ct (emitted (snd (snd (run_step env (Ev ev) st)))) =
    (case accepted ct (DriverEvent env ev) of None \<Rightarrow> [] | Some m \<Rightarrow> [m])"
proof (cases "\<exists>src mid gm. ev = RelayMessage src mid gm")
  case True
  then show ?thesis
    using emitted_relay [of env ct] assms by (auto simp: run_step_def handle_event_def clock_of_def)
next
  case False
  then have "accepted ct (DriverEvent env ev) = None" by (auto simp: accepted_def split: SwarmEvent.split)
  then show ?thesis using emitted_other [OF False] by simp
qed

definition polled :: "string \<Rightarrow> 'p Output \<Rightarrow> RestWakuMessage list" where
  "polled ct out = (case out of Polled t (Json ms) \<Rightarrow> if t = ct then ms else [] | _ \<Rightarrow> [])"

text \<open>The client polls in time: when \<open>main\<close> records an event the queue of the topic is not full.\<close>

definition has_room :: "string \<Rightarrow> ('p, 'e) Action \<Rightarrow> ('p, 'e) Process \<Rightarrow> bool" where
  "has_room ct act pr =
     (case act of
        MainEvent \<Rightarrow> (case pr_cache pr of
          Some c \<Rightarrow> (case c ct of Some q \<Rightarrow> length q < CACHE_PER_TOPIC | None \<Rightarrow> True) | None \<Rightarrow> True)
      | _ \<Rightarrow> True)"

fun in_time :: "RestEnv \<Rightarrow> string \<Rightarrow> ('p, 'e) Action list \<Rightarrow> ('p, 'e) Process \<Rightarrow> bool" where
  "in_time renv ct [] pr = True"
| "in_time renv ct (act # acts) pr =
     (has_room ct act pr \<and> (case proc_step renv act pr of None \<Rightarrow> True | Some (pr', _) \<Rightarrow> in_time renv ct acts pr'))"

lemma queue_record_room: "length q < CACHE_PER_TOPIC \<Longrightarrow> queue_record m q = q @ [m]"
  by (simp add: queue_record_def)

lemma subseq_queue_record: "subseq (queue_record m q) (q @ [m])"
  by (cases q) (auto simp: queue_record_def)

text \<open>The account of a topic: what is in its queue and what is on the way there.\<close>

definition in_transit :: "RestEnv \<Rightarrow> string \<Rightarrow> ('p, 'e) Process \<Rightarrow> RestWakuMessage list option" where
  "in_transit renv ct pr =
     Option.bind (pr_cache pr) (\<lambda>c.
       map_option (\<lambda>q. map (from_message renv) (q @ on_topic ct (pr_events pr))) (c ct))"

lemma delivery_event:
  assumes "pr_events pr = ev # evs" "pr_cache pr = Some c" "c ct = Some q"
    and "pr' = pr\<lparr>pr_events := evs, pr_cache := main_event ev (pr_cache pr)\<rparr>"
  shows "\<exists>ms. in_transit renv ct pr' = Some ms
    \<and> subseq ms (map (from_message renv) (q @ on_topic ct (pr_events pr)))
    \<and> (length q < CACHE_PER_TOPIC \<longrightarrow> ms = map (from_message renv) (q @ on_topic ct (pr_events pr)))"
proof (cases "\<exists>sid m mid p. ev = MessageReceived sid m mid p \<and> WakuMessage.content_topic m = ct")
  case True
  then obtain sid m mid p where ev: "ev = MessageReceived sid m mid p" "WakuMessage.content_topic m = ct" by blast
  have "subseq (map (from_message renv) (queue_record m q @ on_topic ct evs)) (map (from_message renv) ((q @ [m]) @ on_topic ct evs))"
    by (intro subseq_map list_emb_append_mono subseq_queue_record) auto
  then show ?thesis
    using assms ev by (auto simp: in_transit_def main_event_def cache_record_def queue_record_room)
next
  case False
  then have "on_topic ct (ev # evs) = on_topic ct evs"
    by (cases ev) (auto simp: on_topic_def List.map_filter_simps)
  moreover have "\<exists>c'. main_event ev (Some c) = Some c' \<and> c' ct = Some q"
    using False assms(3) by (cases ev) (auto simp: main_event_def cache_record_def split: option.split)
  ultimately show ?thesis using assms by (auto simp: in_transit_def)
qed

lemma takes_any_command:
  "pr_cache (fst (driver_takes env (Cmd cmd) pr)) = pr_cache pr" "pr_events (fst (driver_takes env (Cmd cmd) pr)) = pr_events pr"
  by (cases "cmd = CmdShutdown"; simp add: takes_command; simp add: driver_takes_def run_step_def)+

lemma delivery_step:
  assumes "proc_step renv act pr = Some (pr', out)" "in_transit renv ct pr = Some ms" "clock_of act"
    and "arrived = ms @ (case accepted ct act of None \<Rightarrow> [] | Some m \<Rightarrow> [from_message renv m])"
  shows "\<exists>ms'. in_transit renv ct pr' = Some ms' \<and> subseq (polled ct out @ ms') arrived
    \<and> (has_room ct act pr \<longrightarrow> polled ct out @ ms' = arrived)"
proof -
  note step = proc_step_SomeD [OF assms(1)]
  obtain c q where c: "pr_cache pr = Some c" "c ct = Some q" "ms = map (from_message renv) (q @ on_topic ct (pr_events pr))"
    using assms(2) by (auto simp: in_transit_def bind_eq_Some_conv)
  show ?thesis
  proof (cases act)
    case (DriverEvent env ev)
    then have e: "evt_open env" "length (pr_events pr) \<le> EVENTS_CAP"
      and t: "driver_takes env (Ev ev) pr = (pr', snd (driver_takes env (Ev ev) pr))" "polled ct out = []"
      using step(1) by (auto simp: driver_ready_def case_prod_beta polled_def split: if_splits)
    have "snd (driver_takes env (Ev ev) pr) = snd (snd (run_step env (Ev ev) (pr_driver pr)))"
      by (simp add: driver_takes_def case_prod_beta)
    then have "on_topic ct (pr_events pr') = on_topic ct (pr_events pr) @ (case accepted ct act of None \<Rightarrow> [] | Some m \<Rightarrow> [m])"
      using takes_event(5) [OF e t(1)] emitted_event [of env ev ct "pr_driver pr"] e(1) assms(3) DriverEvent by simp
    then show ?thesis
      using takes_event(4) [OF e t(1)] c t(2) assms(4) by (simp add: in_transit_def split: option.split)
  next
    case (DriverCommand env)
    then have "pr_cache pr' = pr_cache pr" "pr_events pr' = pr_events pr" "polled ct out = []"
      using step(1) by (auto simp: polled_def takes_any_command case_prod_beta split: list.splits if_splits)
    then show ?thesis using c assms(4) DriverCommand by (simp add: in_transit_def accepted_def)
  next
    case MainEvent
    then obtain ev evs where e: "pr_events pr = ev # evs" "pr' = pr\<lparr>pr_events := evs, pr_cache := main_event ev (pr_cache pr)\<rparr>"
      "out = Silent" using step(1) by (auto split: list.splits if_splits)
    from delivery_event [OF e(1) c(1,2) e(2), of renv] assms(4) c MainEvent e(3) show ?thesis
      by (auto simp: polled_def accepted_def has_room_def)
  qed (use assms(4) c step(1) in \<open>auto simp: in_transit_def polled_def accepted_def cache_register_def relay_messages_handler_def
      cache_drain_def split: if_splits option.splits\<close>)
qed

text \<open>C4: Relay messages reach a REST client exactly once and in order, end to end: in any schedule of the
  driver, \<open>main\<close> and the REST server, what the client's polls of a registered topic return, followed by
  what is still on its way, is a subsequence of what was on its way at the start followed by the
  accepted relay messages of the topic; and when the client polls before a hundred of them are
  waiting, nothing is missing.\<close>

theorem rest_delivery:
  assumes "proc_run renv acts pr = Some (pr', outs)" "in_transit renv ct pr = Some ms" "\<forall>act \<in> set acts. clock_of act"
    and "arrived = ms @ map (from_message renv) (List.map_filter (accepted ct) acts)"
  shows "\<exists>ms'. in_transit renv ct pr' = Some ms' \<and> subseq (concat (map (polled ct) outs) @ ms') arrived
    \<and> (in_time renv ct acts pr \<longrightarrow> concat (map (polled ct) outs) @ ms' = arrived)"
  using assms
proof (induction acts arbitrary: pr ms outs arrived)
  case (Cons act acts)
  obtain pr1 out outs1 where *: "proc_step renv act pr = Some (pr1, out)" "proc_run renv acts pr1 = Some (pr', outs1)"
    "outs = out # outs1" using proc_run_ConsE [OF Cons.prems(1)] .
  let ?acc = "map (from_message renv) (List.map_filter (accepted ct) acts)"
    and ?m = "case accepted ct act of None \<Rightarrow> [] | Some m \<Rightarrow> [from_message renv m]"
  obtain ms1 where 1: "in_transit renv ct pr1 = Some ms1" "subseq (polled ct out @ ms1) (ms @ ?m)"
    "has_room ct act pr \<longrightarrow> polled ct out @ ms1 = ms @ ?m"
    using delivery_step [OF *(1) Cons.prems(2) _ refl] Cons.prems(3) by auto
  obtain ms' where 2: "in_transit renv ct pr' = Some ms'" "subseq (concat (map (polled ct) outs1) @ ms') (ms1 @ ?acc)"
    "in_time renv ct acts pr1 \<longrightarrow> concat (map (polled ct) outs1) @ ms' = ms1 @ ?acc"
    using Cons.IH [OF *(2) 1(1) _ refl] Cons.prems(3) by auto
  have arrived: "arrived = (ms @ ?m) @ ?acc"
    using Cons.prems(4) by (simp add: List.map_filter_simps split: option.split)
  have "subseq (polled ct out @ concat (map (polled ct) outs1) @ ms') (polled ct out @ ms1 @ ?acc)"
    using 2(2) by (simp add: subseq_append')
  also have "subseq (polled ct out @ ms1 @ ?acc) arrived"
    using list_emb_append_mono [OF 1(2), of ?acc ?acc] by (simp add: arrived)
  finally have sub: "subseq (concat (map (polled ct) outs) @ ms') arrived" using *(3) by simp
  have "concat (map (polled ct) outs) @ ms' = arrived" if "in_time renv ct (act # acts) pr"
    using that 1(3) 2(3) *(1,3) by (simp add: arrived)
  with 2(1) sub show ?case by blast
qed (simp add: List.map_filter_simps)

section \<open>A concrete delivery\<close>

definition ex_process :: "(nat, nat) Process" where
  "ex_process = \<lparr>pr_driver = NodeState_init unrounded, pr_up = True, pr_commands = [], pr_events = [], pr_phase = Looping,
     pr_cache = Some [WakuMessage.content_topic (ex_message 1) \<mapsto> []]\<rparr>"

abbreviation ex_topic :: string where
  "ex_topic \<equiv> WakuMessage.content_topic (ex_message 1)"

abbreviation ex_schedule :: "(nat, nat) Action list" where
  "ex_schedule \<equiv> [DriverEvent ex_env (RelayMessage 7 [] ex_relayed), MainEvent, RestPoll ex_topic]"

lemma ex_emitted:
  "\<exists>st fx. run_step ex_env (Ev (RelayMessage (7 :: nat) [] ex_relayed)) (NodeState_init unrounded) = (True, st, fx)
    \<and> emitted fx = [MessageReceived (ShardId_new 1 0) (ex_message 1)
        (deterministic_hash (digest ex_env) (topic ex_relayed) (ex_message 1)) 7]"
  using ex_relayed_ok relay_verdict_eq [OF ex_relayed_ok(3), of "ex_message 1"]
  by (simp add: run_step_def handle_event_def on_relay_message_def emit_def Let_def case_prod_beta ex_env_def)

theorem rest_delivery_witness:
  "\<exists>pr' outs. proc_run ex_rest ex_schedule ex_process = Some (pr', outs)
    \<and> concat (map (polled ex_topic) outs) = [from_message ex_rest (ex_message 1)]"
proof -
  obtain st fx where fx: "run_step ex_env (Ev (RelayMessage (7 :: nat) [] ex_relayed)) (NodeState_init unrounded) = (True, st, fx)"
    "emitted fx = [MessageReceived (ShardId_new 1 0) (ex_message 1)
        (deterministic_hash (digest ex_env) (topic ex_relayed) (ex_message 1)) 7]"
    using ex_emitted by blast
  define pr1 where "pr1 = ex_process\<lparr>pr_driver := st, pr_events := emitted fx\<rparr>"
  have k: "evt_open ex_env" by (simp add: ex_env_def)
  have 1: "proc_step ex_rest (DriverEvent ex_env (RelayMessage 7 [] ex_relayed)) ex_process = Some (pr1, Did fx)"
    using fx k by (simp add: proc_step_def has_ended_def driver_takes_def ex_process_def driver_ready_def pr1_def)
  have 2: "proc_step ex_rest MainEvent pr1 = Some (pr1\<lparr>pr_events := [], pr_cache := Some [ex_topic \<mapsto> [ex_message 1]]\<rparr>, Silent)"
    using fx(2) by (simp add: pr1_def proc_step_def has_ended_def ex_process_def main_event_def cache_record_def queue_record_def)
  have 3: "proc_step ex_rest (RestPoll ex_topic) (pr1\<lparr>pr_events := [], pr_cache := Some [ex_topic \<mapsto> [ex_message 1]]\<rparr>) =
      Some (pr1\<lparr>pr_events := [], pr_cache := Some [ex_topic \<mapsto> []]\<rparr>, Polled ex_topic (Json [from_message ex_rest (ex_message 1)]))"
    by (simp add: pr1_def proc_step_def has_ended_def ex_process_def relay_messages_handler_def cache_drain_def)
  have r: "proc_run ex_rest ex_schedule ex_process = Some (pr1\<lparr>pr_events := [], pr_cache := Some [ex_topic \<mapsto> []]\<rparr>,
      [Did fx, Silent, Polled ex_topic (Json [from_message ex_rest (ex_message 1)])])"
    by (simp add: 1 2 3)
  have t: "in_transit ex_rest ex_topic (pr1\<lparr>pr_events := [], pr_cache := Some [ex_topic \<mapsto> []]\<rparr>) = Some []"
    by (simp add: in_transit_def)
  have room: "pr_cache pr1 = Some [ex_topic \<mapsto> []]" "0 < CACHE_PER_TOPIC"
    by (simp_all add: pr1_def ex_process_def CACHE_PER_TOPIC_def)
  have "in_time ex_rest ex_topic ex_schedule ex_process"
    using room by (simp add: 1 2 3 has_room_def)
  moreover have "in_transit ex_rest ex_topic ex_process = Some []" by (simp add: in_transit_def ex_process_def)
  moreover have "\<forall>act \<in> set ex_schedule. clock_of act" using ex_relayed_ok(3) by (simp add: clock_of_def)
  moreover have "List.map_filter (accepted ex_topic) ex_schedule = [ex_message 1]"
    using ex_relayed_ok by (simp add: List.map_filter_simps accepted_def)
  ultimately show ?thesis using rest_delivery [OF r, of ex_topic "[]"] r t by simp
qed

end
