(* ===== verification/Main_Progress.thy ===== *)
theory Main_Progress
  imports Wakunode_Main
begin

text \<open>
  When \<open>main\<close> can go on: the driver and \<open>main\<close> wait for each other over two bounded channels, the events and
  the commands. The theory says from which states of the program the startup and the shutdown can finish.
\<close>

section \<open>Reachable states\<close>

definition reaches :: "RestEnv \<Rightarrow> ('p, 'e) Process \<Rightarrow> ('p, 'e) Process \<Rightarrow> bool" where
  "reaches renv pr pr' \<longleftrightarrow> (\<exists>acts outs. proc_run renv acts pr = Some (pr', outs))"

lemma reaches_refl: "reaches renv pr pr"
  unfolding reaches_def by (rule exI [of _ "[]"]) simp

lemma reaches_step: "proc_step renv act pr = Some (pr1, out) \<Longrightarrow> reaches renv pr1 pr' \<Longrightarrow> reaches renv pr pr'"
  unfolding reaches_def
proof (elim exE)
  fix acts outs
  assume "proc_step renv act pr = Some (pr1, out)" "proc_run renv acts pr1 = Some (pr', outs)"
  then show "\<exists>acts outs. proc_run renv acts pr = Some (pr', outs)" by (intro exI [of _ "act # acts"]) simp
qed

lemma reaches_induct [consumes 1, case_names step]:
  assumes "reaches renv pr pr'" "P pr" "\<And>act pr pr1 out. P pr \<Longrightarrow> proc_step renv act pr = Some (pr1, out) \<Longrightarrow> P pr1"
  shows "P pr'"
proof -
  obtain acts outs where "proc_run renv acts pr = Some (pr', outs)" using assms(1) by (auto simp: reaches_def)
  then show ?thesis
    using assms(2) by (induction acts arbitrary: pr outs) (auto elim!: proc_run_ConsE intro: assms(3) simp del: proc_run.simps(2))
qed

lemma reaches_trans: "reaches renv pr pr1 \<Longrightarrow> reaches renv pr1 pr2 \<Longrightarrow> reaches renv pr pr2"
proof -
  assume 2: "reaches renv pr1 pr2"
  have "reaches renv pr pr2" if "proc_run renv acts pr = Some (pr1, outs)" for acts outs
    using that
  proof (induction acts arbitrary: pr outs)
    case (Cons act acts)
    from Cons.prems show ?case by (rule proc_run_ConsE) (use Cons.IH reaches_step in blast)
  qed (use 2 in simp)
  then show "reaches renv pr pr1 \<Longrightarrow> ?thesis" by (auto simp: reaches_def [of renv pr pr1])
qed

lemma reachable_phase:
  assumes "main_start mo spawner dbs cli fs = (Ok pr0, fs')" "proc_run renv acts pr0 = Some (pr, outs)"
    and "pr_phase pr \<noteq> Looping" "\<not> has_ended (pr_phase pr)"
  shows "channels_ok pr \<and> ((\<exists>ss addrs. pr_phase pr = startup ss addrs) \<or> pr_phase pr = Stopping)"
proof (rule main_start_Ok [OF assms(1)])
  fix fc node opened
  let ?st = "resolve_settings (mo_parse_ip mo) (mo_parse_addr mo) cli fc"
  let ?topics = "map shard_topic (main_subscriptions ?st)"
  assume pr0: "pr0 = Process_start (mo_rnd mo) ?st node opened"
  have ok0: "channels_ok pr0" unfolding pr0 by (rule channels_ok_start)
  have "startup_ok ?topics (s_staticnodes ?st) [] [] (pr_up pr0) (pr_phase pr0)"
    unfolding pr0 Process_start_def by (simp, rule startup_ok_start) auto
  from startup_ok_run [OF assms(2) ok0 this] assms(3,4)
  have "(\<exists>ss addrs. pr_phase pr = startup ss addrs) \<or> pr_phase pr = Stopping"
    by (cases rule: startup_ok_cases) (metis startup.simps(1), metis startup.simps(2), simp)
  then show ?thesis using channels_ok_run [OF assms(2) ok0] by simp
qed

section \<open>Waiting for each other\<close>

definition stuck :: "('p, 'e) Process \<Rightarrow> bool" where
  "stuck pr \<longleftrightarrow> pr_up pr \<and> EVENTS_CAP < length (pr_events pr) \<and> pr_phase pr \<noteq> Looping \<and> \<not> has_ended (pr_phase pr)
     \<and> (pr_phase pr = Stopping \<longrightarrow> COMMANDS_CAP \<le> length (pr_commands pr))"

lemma stuck_step:
  assumes "stuck pr" "proc_step renv act pr = Some (pr', out)"
  shows "stuck pr' \<and> pr_phase pr' = pr_phase pr"
proof -
  have "live_step renv act pr = Some (pr', out)" by (rule proc_step_SomeD [OF assms(2)])
  then show ?thesis
    using assms(1)
    by (cases act) (auto simp: stuck_def driver_ready_def has_room_for_command_def case_prod_beta
        split: if_splits list.splits option.splits)
qed

lemma stuck_forever:
  assumes "reaches renv pr pr'" "stuck pr"
  shows "pr_phase pr' = pr_phase pr"
proof -
  have "stuck pr' \<and> pr_phase pr' = pr_phase pr"
    using assms(1) by (rule reaches_induct) (use assms(2) stuck_step in \<open>simp, metis\<close>)
  then show ?thesis ..
qed

section \<open>Finishing\<close>

text \<open>A driver with room for events, and a \<open>main\<close> that starts up or stops.\<close>

definition moving :: "('p, 'e) Process \<Rightarrow> bool" where
  "moving pr \<longleftrightarrow> driver_ready pr \<and> channels_ok pr \<and> ((\<exists>ss addrs. pr_phase pr = startup ss addrs) \<or> pr_phase pr = Stopping)"

lemma startup_not_ended: "\<not> has_ended (startup ss addrs)" "startup ss addrs \<noteq> Stopping"
  by (cases "(ss, addrs)" rule: startup.cases; simp add: has_ended_def)+

lemma moving_not_ended: "moving pr \<Longrightarrow> \<not> has_ended (pr_phase pr)"
  by (auto simp: moving_def startup_not_ended) (simp add: has_ended_def)

lemma reply_startup:
  assumes "main_command (startup ss addrs) = Some cmd" "\<forall>tp. gossip_subscribe env tp = Ok True"
  shows "\<exists>ss' addrs'. main_reply (await_reply True (unit_reply 0 (snd (handle_command env cmd st)))) (startup ss addrs) = startup ss' addrs'
    \<and> length ss' + length addrs' < length ss + length addrs"
proof (cases "(ss, addrs)" rule: startup.cases)
  case (1 s ss' addrs')
  then show ?thesis
    using assms
    by (intro exI [of _ ss'] exI [of _ addrs'])
      (auto simp: main_command_def NodeHandle_subscribe_def handle_command_def Let_def main_reply_def await_reply_def)
next
  case (2 a addrs')
  then show ?thesis
    using assms by (intro exI [of _ "[]"] exI [of _ addrs']) (auto simp: main_command_def main_reply_def)
qed (use assms in \<open>simp add: main_command_def\<close>)

text \<open>The work left: the commands in the channel, and two steps for every command of \<open>main\<close> not yet sent.\<close>

lemma serve_one:
  assumes "moving pr" "pr_commands pr = (b, cmd) # cmds" "\<forall>tp. gossip_subscribe env tp = Ok True"
  shows "\<exists>pr1 out. proc_step renv (DriverCommand env) pr = Some (pr1, out) \<and> moving pr1 \<and> pr_commands pr1 = cmds
    \<and> (pr_phase pr1 = Stopping \<longleftrightarrow> pr_phase pr = Stopping)
    \<and> (pr_phase pr = startup ss addrs \<longrightarrow> (\<exists>ss' addrs'. pr_phase pr1 = startup ss' addrs'
        \<and> (if b then length ss' + length addrs' < length ss + length addrs else ss' = ss \<and> addrs' = addrs)))"
proof -
  have n: "\<not> has_ended (pr_phase pr)" using moving_not_ended assms(1) .
  have ok: "channels_ok pr" "driver_ready pr" using assms(1) by (simp_all add: moving_def)
  note c = channels_okD [OF ok(1) assms(2) n]
  have ns: "b \<Longrightarrow> pr_phase pr \<noteq> Stopping" using c(1,2) by (auto simp: main_command_def NodeHandle_shutdown_def)
  define ph' where "ph' = (if b then main_reply (await_reply True (unit_reply 0 (snd (handle_command env cmd (pr_driver pr))))) (pr_phase pr)
      else pr_phase pr)"
  let ?pr1 = "pr\<lparr>pr_commands := cmds, pr_driver := fst (handle_command env cmd (pr_driver pr)), pr_up := True, pr_phase := ph'\<rparr>"
  have "\<exists>out. proc_step renv (DriverCommand env) pr = Some (?pr1, out)"
    using n ok(2) assms(2) by (auto simp: proc_step_def takes_command [OF c(1)] ph'_def)
  then obtain out where step: "proc_step renv (DriverCommand env) pr = Some (?pr1, out)" by blast
  then have ok1: "channels_ok ?pr1" "driver_ready ?pr1"
    using channels_ok_step ok by (auto simp: driver_ready_def)
  have ph: "\<exists>ss' addrs'. ph' = startup ss' addrs'
      \<and> (if b then length ss' + length addrs' < length ss + length addrs else ss' = ss \<and> addrs' = addrs)"
    if "pr_phase pr = startup ss addrs" for ss addrs
    using that c(2) reply_startup [OF _ assms(3), of ss addrs cmd "pr_driver pr"] by (cases b) (auto simp: ph'_def)
  have kind: "(\<exists>ss addrs. ph' = startup ss addrs) \<and> pr_phase pr \<noteq> Stopping \<or> ph' = Stopping \<and> pr_phase pr = Stopping"
  proof (cases "pr_phase pr = Stopping")
    case False
    then obtain ss addrs where "pr_phase pr = startup ss addrs" using assms(1) by (auto simp: moving_def)
    with ph False show ?thesis by blast
  qed (use ns in \<open>auto simp: ph'_def\<close>)
  then have "moving ?pr1" unfolding moving_def using ok1 by simp blast
  moreover have "ph' = Stopping \<longleftrightarrow> pr_phase pr = Stopping" using kind startup_not_ended(2) by metis
  ultimately show ?thesis using step ph by (intro exI [of _ ?pr1] exI [of _ out]) simp
qed

lemma send_one:
  fixes pr :: "('p, 'e) Process"
  assumes "moving pr" "pr_commands pr = []" "pr_phase pr = startup ss addrs" "startup ss addrs \<noteq> Looping"
  obtains cmd where "proc_step renv MainSend pr = Some (pr\<lparr>pr_commands := [(True, cmd)]\<rparr>, Silent)"
    "moving (pr\<lparr>pr_commands := [(True, cmd)]\<rparr>)"
proof -
  obtain cmd :: "'p Command" where cmd: "main_command (pr_phase pr) = Some cmd"
    using assms(3,4) by (cases "(ss, addrs)" rule: startup.cases) (auto simp: main_command_def)
  have step: "proc_step renv MainSend pr = Some (pr\<lparr>pr_commands := [(True, cmd)]\<rparr>, Silent)"
    using assms cmd moving_not_ended [OF assms(1)] startup_not_ended(2) [of ss addrs]
    by (simp add: proc_step_def has_room_for_command_def moving_def driver_ready_def COMMANDS_CAP_def)
  then have "moving (pr\<lparr>pr_commands := [(True, cmd)]\<rparr>)"
    using assms(1) channels_ok_step [OF step] by (auto simp: moving_def driver_ready_def)
  with step that show ?thesis by blast
qed

lemma stopping_sends:
  assumes "pr_phase pr = Stopping" "channels_ok pr" "pr_up pr" "length (pr_commands pr) < COMMANDS_CAP"
  shows "proc_step renv MainSend pr =
    Some (pr\<lparr>pr_commands := pr_commands pr @ [(True, CmdShutdown)], pr_phase := Ended (Ok ())\<rparr>, Silent)"
proof -
  have "\<not> list_ex fst (pr_commands pr)"
    using assms(1,2) by (fastforce simp: channels_ok_def has_ended_def main_command_def NodeHandle_shutdown_def list_ex_iff)
  then show ?thesis
    using assms by (simp add: proc_step_def has_ended_def main_command_def NodeHandle_shutdown_def has_room_for_command_def)
qed

lemma drain:
  fixes pr :: "('p, 'e) Process" and env :: "'e NodeEnv"
  assumes "moving pr" "\<forall>tp. gossip_subscribe env tp = Ok True"
  shows "\<exists>pr1. reaches renv pr pr1 \<and> moving pr1 \<and> pr_commands pr1 = [] \<and> (pr_phase pr1 = Stopping \<longleftrightarrow> pr_phase pr = Stopping)"
  using assms(1)
proof (induction "pr_commands pr" arbitrary: pr)
  case Nil
  then show ?case using reaches_refl by (intro exI [of _ pr]) auto
next
  case (Cons c cmds)
  obtain b cmd where c: "pr_commands pr = (b, cmd) # cmds" using Cons.hyps(2) by (metis surj_pair)
  obtain pr1 out where 1: "proc_step renv (DriverCommand env) pr = Some (pr1, out)" "moving pr1" "pr_commands pr1 = cmds"
    "pr_phase pr1 = Stopping \<longleftrightarrow> pr_phase pr = Stopping"
    using serve_one [OF Cons.prems c assms(2)] by blast
  then show ?case using Cons.hyps(1) [of pr1] reaches_step by metis
qed

lemma startup_finishes:
  fixes pr :: "('p, 'e) Process" and env :: "'e NodeEnv"
  assumes "moving pr" "pr_commands pr = []" "pr_phase pr = startup ss addrs" "\<forall>tp. gossip_subscribe env tp = Ok True"
  shows "\<exists>pr'. reaches renv pr pr' \<and> pr_phase pr' = Looping"
  using assms(1-3)
proof (induction "length ss + length addrs" arbitrary: pr ss addrs rule: less_induct)
  case less
  show ?case
  proof (cases "startup ss addrs = Looping")
    case True
    then show ?thesis using less.prems(3) reaches_refl by auto
  next
    case False
    obtain cmd where send: "proc_step renv MainSend pr = Some (pr\<lparr>pr_commands := [(True, cmd)]\<rparr>, Silent)"
      "moving (pr\<lparr>pr_commands := [(True, cmd)]\<rparr>)" using send_one [OF less.prems False] .
    obtain pr1 out ss' addrs' where
      serve: "proc_step renv (DriverCommand env) (pr\<lparr>pr_commands := [(True, cmd)]\<rparr>) = Some (pr1, out)" "moving pr1" "pr_commands pr1 = []"
        "pr_phase pr1 = startup ss' addrs'" "length ss' + length addrs' < length ss + length addrs"
      using serve_one [OF send(2) _ assms(4), of True cmd "[]" renv ss addrs] less.prems(3) by auto
    from less.hyps [OF serve(5,2-4)] show ?thesis using reaches_step [OF send(1) reaches_step [OF serve(1)]] by blast
  qed
qed

section \<open>Properties\<close>

text \<open>C34: When the program can come up and go down: while \<open>main\<close> waits for replies at the start, or for room to send
  \<open>Shutdown\<close> at the end, it receives no events. In every reachable state of a program whose driver lives, it
  can finish the startup exactly if no more than 256 events are waiting, so that the driver still
  takes commands; and it can finish the shutdown exactly if that holds or if fewer than 64 commands are
  waiting. Otherwise it hangs in every schedule.\<close>

theorem main_progress:
  fixes pr :: "('p, 'e) Process"
  assumes "main_start mo (spawn so ko ops d5 dns sys) dbs cli fs = (Ok pr0, fs')" "reaches renv pr0 pr"
    and "pr_up pr" "pr_phase pr \<noteq> Looping" "\<not> has_ended (pr_phase pr)"
  shows "(\<exists>pr'. reaches renv pr pr' \<and> pr_phase pr' = (if pr_phase pr = Stopping then Ended (Ok ()) else Looping))
    \<longleftrightarrow> length (pr_events pr) \<le> 256 \<or> pr_phase pr = Stopping \<and> length (pr_commands pr) < 64"
  (is "?goes \<longleftrightarrow> ?free")
proof
  assume ?goes
  then have "\<not> stuck pr"
    using stuck_forever [of renv pr] assms(4,5) by (auto simp: has_ended_def split: if_splits)
  then show ?free using assms(3-5) by (auto simp: stuck_def EVENTS_CAP_def COMMANDS_CAP_def)
next
  assume free: ?free
  obtain acts outs where run: "proc_run renv acts pr0 = Some (pr, outs)" using assms(2) by (auto simp: reaches_def)
  have ok: "channels_ok pr" and ph: "(\<exists>ss addrs. pr_phase pr = startup ss addrs) \<or> pr_phase pr = Stopping"
    using reachable_phase [OF assms(1) run assms(4,5)] by auto
  obtain env :: "'e NodeEnv" where env: "\<forall>tp. gossip_subscribe env tp = Ok True"
    using that [of "undefined\<lparr>gossip_subscribe := \<lambda>_. Ok True\<rparr>"] by simp
  have stop: "\<exists>pr'. reaches renv s pr' \<and> pr_phase pr' = Ended (Ok ())"
    if "pr_phase s = Stopping" "channels_ok s" "pr_up s" "length (pr_commands s) < COMMANDS_CAP" for s :: "('p, 'e) Process"
    by (rule exI, rule conjI, rule reaches_step [OF stopping_sends [OF that] reaches_refl]) simp
  show ?goes
  proof (cases "length (pr_events pr) \<le> 256")
    case True
    then have "moving pr" using ok ph assms(3) by (simp add: moving_def driver_ready_def EVENTS_CAP_def)
    from drain [OF this env, of renv] obtain pr1 where
      1: "reaches renv pr pr1" "moving pr1" "pr_commands pr1 = []" "pr_phase pr1 = Stopping \<longleftrightarrow> pr_phase pr = Stopping" by blast
    then have "\<exists>pr'. reaches renv pr1 pr' \<and> pr_phase pr' = (if pr_phase pr = Stopping then Ended (Ok ()) else Looping)"
      using startup_finishes [OF 1(2,3) _ env] stop [of pr1] by (auto simp: moving_def driver_ready_def COMMANDS_CAP_def)
    then show ?thesis using reaches_trans 1(1) by blast
  next
    case False
    then show ?thesis using free stop [OF _ ok assms(3)] by (auto simp: COMMANDS_CAP_def)
  qed
qed

section \<open>A startup that hangs\<close>

lemma listening_step:
  fixes pr :: "('p, 'e) Process" and env :: "'e NodeEnv"
  assumes "driver_ready pr" "\<not> has_ended (pr_phase pr)" "evt_open env"
  shows "\<exists>pr1 out. proc_step renv (DriverEvent env (NewListenAddr a)) pr = Some (pr1, out) \<and> pr_up pr1 \<and> pr_phase pr1 = pr_phase pr
    \<and> length (pr_events pr1) = Suc (length (pr_events pr))"
  using assms
  by (simp add: proc_step_def driver_takes_def run_step_def handle_event_def on_new_listen_addr_def emit_def)

lemma listening_steps:
  fixes pr :: "('p, 'e) Process" and env :: "'e NodeEnv"
  assumes "pr_up pr" "\<not> has_ended (pr_phase pr)" "evt_open env" "length (pr_events pr) + n \<le> Suc EVENTS_CAP"
  shows "\<exists>pr1. reaches renv pr pr1 \<and> pr_up pr1 \<and> pr_phase pr1 = pr_phase pr \<and> length (pr_events pr1) = length (pr_events pr) + n"
  using assms(1,2,4)
proof (induction n arbitrary: pr)
  case 0
  then show ?case using reaches_refl by (intro exI [of _ pr]) simp
next
  case (Suc n)
  have "driver_ready pr" using Suc.prems by (simp add: driver_ready_def)
  from listening_step [OF this Suc.prems(2) assms(3)] obtain pr1 out where
    1: "proc_step renv (DriverEvent env (NewListenAddr [])) pr = Some (pr1, out)" "pr_up pr1" "pr_phase pr1 = pr_phase pr"
      "length (pr_events pr1) = Suc (length (pr_events pr))" by blast
  obtain pr2 where 2: "reaches renv pr1 pr2" "pr_up pr2" "pr_phase pr2 = pr_phase pr1" "length (pr_events pr2) = length (pr_events pr1) + n"
    using Suc.IH [of pr1] Suc.prems 1 by auto
  show ?case using reaches_step [OF 1(1) 2(1)] 2 1 by (intro exI [of _ pr2]) simp
qed

theorem main_progress_witness:
  "\<exists>pr. reaches ex_rest ex_started pr \<and> (\<nexists>pr'. reaches ex_rest pr pr' \<and> pr_phase pr' = Looping)"
proof -
  have s: "pr_up ex_started" "pr_phase ex_started = Subscribing [ShardId_new 1 0] [[Ip4 9, Tcp 1]]" "length (pr_events ex_started) = 0"
    by (simp_all add: ex_started_def)
  have n: "\<not> has_ended (pr_phase ex_started)" by (simp add: s has_ended_def)
  have "evt_open ex_ready" by (simp add: ex_ready_def)
  from listening_steps [OF s(1) n this, of 257 ex_rest] obtain pr where
    pr: "reaches ex_rest ex_started pr" "pr_up pr" "pr_phase pr = pr_phase ex_started" "length (pr_events pr) = 257"
    by (auto simp: s EVENTS_CAP_def)
  have "\<nexists>pr'. reaches ex_rest pr pr' \<and> pr_phase pr' = Looping"
    using main_progress [OF ex_main_start pr(1,2)] pr(3,4) s(2) n by simp
  with pr(1) show ?thesis by blast
qed

end
