(* ===== verification/Spec2Isabelle.thy ===== *)
theory Spec2Isabelle
  imports Relay_Shards Waku_Metadata Waku_Lightpush Waku_Peer_Exchange Filter_Registry Store_Query
    Relay_Validation Rate_Limit Node_Runs Rln_Relay Waku_Network Node_Invariant Dns_Resolver Rest_Delivery Main_Progress
begin

text \<open>
  A verification development for rs-waku, a node of the Waku messaging network written in Rust.

  \<^bold>\<open>The program.\<close> A node relays messages over gossipsub on shard topics (\<open>crates/waku-relay\<close>), checks and
  archives them in SQLite (\<open>crates/waku-store\<close>), serves the archive to other nodes (the store
  protocol), pushes them to light clients (\<open>crates/waku-filter\<close>), publishes for light clients
  (\<open>crates/waku-lightpush\<close>), exchanges node records (\<open>crates/waku-peer-exchange\<close>) and network metadata
  (\<open>crates/waku-metadata\<close>), and finds peers by discv5 and DNS (\<open>crates/waku-discv5\<close>, \<open>crates/waku-enr\<close>).
  \<open>crates/waku-node\<close> drives all protocols from one event loop, \<open>crates/waku-rest\<close> is an HTTP front end,
  \<open>crates/waku-rln\<close> holds the rate-limiting proofs, \<open>crates/waku-core\<close> the shared types, and \<open>wakunode\<close> is the
  binary that configures and starts a node.

  \<^bold>\<open>Conventions.\<close> Definitions have the names of the source, with the type as a prefix for methods
  (\<open>RateLimiter::new\<close> is \<open>RateLimiter_new\<close>). Structs are records, enums datatypes, machine integers words
  (signed ones read with \<open>sint\<close>), \<open>String\<close> the list of its bytes as characters, \<open>Result\<close> a sum with
  \<open>bind_result\<close> for \<open>?\<close>, a panic \<^const>\<open>None\<close>. Arithmetic is that of the release build and wraps around.
  A \<open>HashMap\<close> is a map, or an association list where its size or iteration matters. Methods that
  change state return the new state; what the event loop asks of libp2p, of its channels and of the
  database tasks is a list of effects, in order. Third-party code is an argument, often a record of
  functions (\<open>Zerokit\<close>, \<open>DnsEnv\<close>, \<open>EnrOps\<close>, \<open>Discv5Ops\<close>, \<open>SwarmOps\<close>, \<open>KeyOps\<close>, \<open>RestEnv\<close>, \<open>MainOps\<close>, \<open>NodeEnv\<close>),
  and what is relied on of it is a hypothesis of the theorem; each such theorem is applied to a
  concrete instance.

  \<^bold>\<open>Theories.\<close>
  \<^item> \<open>Waku_Prelude\<close>, \<open>Rust_Text\<close>, \<open>Rust_Utf8\<close>: machine types, results, strings, bytes, white space, and
    \<open>String::from_utf8_lossy\<close>, whose result is valid and which changes nothing that is valid.
  \<^item> \<open>Rust_F64\<close>: the rounding of \<open>f64\<close> arithmetic, as an instance of the locale \<open>binary64\<close> its clients use.
  \<^item> \<open>Waku_Core\<close> (\<open>waku-core\<close>): content topics, shards, autosharding, the message hash. Parsers are
    characterised on every input; the hash is binding for messages of equal layout, and messages
    of different layouts can have the same hash.
  \<^item> \<open>Relay_Shards\<close> (\<open>waku-enr\<close>): both encodings of a shard set, as instances of one codec locale.
  \<^item> \<open>Lp_Frame\<close>: length-prefixed frames and varints; the locale \<open>lp_framing\<close> gives the round trip of the
    codecs in \<open>Waku_Metadata\<close>, \<open>Waku_Lightpush\<close>, \<open>Waku_Peer_Exchange\<close>, \<open>Waku_Filter\<close> and \<open>Store_Query\<close>.
  \<^item> \<open>Message_Store\<close>, \<open>Sqlite_Store\<close>, \<open>Store_Query\<close> (\<open>waku-store\<close>): the trait as the locale \<open>message_store\<close>, its
    SQLite implementation as an instance (a table is a list of rows, a statement an operation on it,
    and \<open>flt\<close> the faults of the engine), and the protocol. For page
    sizes below \<open>2 ^ 63\<close>, paging an unchanged table ends and returns every match once and in order; while
    rows are inserted, it ends if there are more requests than matches, with every match of the first table
    once. What is served is
    authentic; retention keeps the newest rows, for capacities below \<open>2 ^ 63\<close>.
  \<^item> \<open>Relay_Validation\<close> (\<open>waku-relay\<close>): the verdict on a message and gossipsub's message id.
  \<^item> \<open>Rate_Limit\<close>, \<open>Filter_Registry\<close>, \<open>Node_Connections\<close>, \<open>Peer_Book\<close>, \<open>Node_Metrics\<close>: the parts of the event
    loop's state. Token buckets bound bursts, for any rounding like that of \<open>f64\<close>, and in the arithmetic of \<open>f64\<close>
    the requests in a window; the registry refines what each client asked for; the connection guard has
    a step relation against the connections that are open; queues of bounded length are the locale \<open>bounded_queue\<close>.
  \<^item> \<open>Node_Runtime\<close> (\<open>waku-node/src/runtime.rs\<close>): \<open>handle_event\<close>, \<open>handle_command\<close>, \<open>run\<close> and \<open>NodeHandle\<close>.
    \<open>Node_Relay\<close> says what happens to a relay message on every branch, with the clock arithmetic at
    64 bits; \<open>Node_Requests\<close> shows through the locale \<open>request_table\<close>, instantiated for the four pending
    tables, that a caller gets the first response to its request, once the network resolves it, and no
    channel is answered twice. \<open>Node_Runs\<close> derives the effects, the filter registry and the archive of a
    run from its steps; \<open>Node_Invariant\<close> shows that every input keeps the state well formed: finite tables, one
    registry entry per peer, counts within the limit, buckets within their capacity.
  \<^item> \<open>Waku_Network\<close>: many nodes, each a run of the event loop, over a network that delivers in any order, loses
    and repeats messages. The inductive predicate \<open>network\<close> says which histories are possible; what libp2p
    promises, that an event attributed to an honest peer is one that peer caused, is the guard
    \<open>delivered\<close>, and other peers may send anything. Replies of remote peers, light pushes, peer exchanges, filter
    pushes and the metadata handshake are traced back to the step of the peer that caused them; \<open>history\<close> adds
    what the discovery tasks learnt, which fixes the peer book a peer exchange is answered from.
  \<^item> \<open>Node_Spawn\<close> (\<open>build_swarm\<close>, \<open>spawn\<close> and the \<open>build\<close> functions of the protocol crates): what a node announces
    about itself agrees with its configuration.
  \<^item> \<open>Rln_Relay\<close> (\<open>waku-rln\<close>): the nullifier log as an instance of \<open>first_write_log\<close>; a rate-limit slot admits
    one message up to collisions of the hash to the field, and a double signal reveals the secret of its sender.
  \<^item> \<open>Dns_Tree\<close>, \<open>Dns_Resolver\<close>, \<open>Discv5\<close>, \<open>Node_Discovery\<close> (\<open>waku-discv5\<close> and the discovery task of \<open>waku-node\<close>):
    the walk over a signed node list ends, returns exactly the records of the hash-linked tree that the
    theory defines apart from the walk, and resists tampering; the live resolver returns the
    published strings; records a node publishes are what others dial; peers are dialled once.
  \<^item> \<open>Rest_Api\<close>, \<open>Rest_Server\<close> (\<open>waku-rest\<close>): the handlers, the routes and the shared state. Publishing, polling and
    paging over REST; the store endpoint answers like the store protocol.
  \<^item> \<open>Wakunode\<close>, \<open>Wakunode_Main\<close> (\<open>wakunode\<close>): the settings, the key file and \<open>main\<close>. After the start the program
    is the driver, \<open>main\<close>, the REST server and the discovery task, which share a channel of commands, a
    channel of events and the message cache. \<open>live_step\<close> is one step of one of them, a schedule a list of
    steps, and the theorems hold for every schedule: the order of the startup here, when the startup
    and the shutdown can finish in \<open>Main_Progress\<close>, and in \<open>Rest_Delivery\<close> the delivery of relay messages to REST
    clients, once, in order, and without loss when the client polls in time.
  \<^item> This theory: properties of the composed node, over runs of the event loop, up to a message that is
    posted to the REST interface of one node and fetched from the archive of another.

  \<^bold>\<open>Bounds.\<close> Every function terminates and none has fuel. The walk over a node list carries the budget of
  the source (5000 records). Clients that follow cursors take the list of tables they meet, and the
  paging theorems say how many requests are enough: one more than there are matches at the last of them. A run of the
  event loop is a list of inputs, a schedule of the program a list of actions, a history of the network
  a derivation of \<open>network\<close>; the theorems hold for all of them. The channels hold 64 commands
  and 256 events, as in the source.

  \<^bold>\<open>Limits of the code.\<close> Some theorems show where it does less than it means to: the limit of connections
  per address can be exceeded (\<open>Node_Connections\<close>), a capacity from \<open>2 ^ 63\<close> deletes every row and the
  largest page size returns nothing (\<open>Sqlite_Store\<close>), a request all of whose hashes are malformed is
  answered as one for every message (\<open>Store_Query\<close>), the message hash does not mark where fields end
  (\<open>Waku_Core\<close>), discv5 always listens on the loopback address (\<open>Node_Spawn\<close>), and the startup and
  the shutdown can hang when the event channel is full (\<open>Main_Progress\<close>).

  \<^bold>\<open>Not modelled.\<close> libp2p, gossipsub, discv5, tokio, SQLite's engine, axum and serde (how requests are matched to
  the routes and bodies to JSON), the text format of the metrics, clap, toml and logging are third-party
  code. The protobuf encodings are derived by \<open>prost\<close> and are arguments. \<open>crates/waku-sds\<close> is an empty stub. Tests are
  not modelled. The \<open>f64\<close> model has finite numbers only: overflow is outside the range of the limiter's settings.
  Every other operation of the sources has its definition.
\<close>

section \<open>Properties across components\<close>

text \<open>C2: From the network to the archive and back: in any run of the driver, a relayed message that the node
  accepts and that is not ephemeral can afterwards be fetched by its RFC-14 hash over the store
  protocol, unchanged and exactly once, in whatever order the spawned writes complete, provided
  no other archived message has the same hash.\<close>

theorem relayed_message_retrievable:
  assumes "\<forall>i \<in> set inputs. keeps_running i" "(env, Ev (RelayMessage src mid gm)) \<in> set inputs"
    and "ShardId_parse (topic gm) = Ok sid" "decode_message env (data gm) = Ok m"
    and "clock_ok (now_nanos env)" "fresh_message (now_nanos env) m"
    and "node_store env \<noteq> None" "WakuMessage.ephemeral m \<noteq> Some True"
    and "set puts = set (List.map_filter spawn_put_of (snd (run inputs st)))"
    and "\<forall>(pt, m', rx) \<in> set puts. deterministic_hash sha256 pt m' = deterministic_hash sha256 (topic gm) m \<longrightarrow>
      pt = topic gm \<and> m' = m"
    and "digest_len sha256" "wf_table sha256 t"
    and "deterministic_hash sha256 (topic gm) m \<notin> MessageRow.message_hash ` set t"
  shows "serve_pages (\<lambda>_. None) (hash_request (deterministic_hash sha256 (topic gm) m))
      (replicate 2 (archive sha256 puts t)) =
    Some [\<lparr>WakuMessageKeyValue.message_hash = Some (deterministic_hash sha256 (topic gm) m),
           message = Some m, pubsub_topic = Some (topic gm)\<rparr>]"
  using archived_served [OF _ assms(11,12) refl assms(10,13)] accepted_put [OF assms(1-8), of st] assms(9) by blast

text \<open>C1: From one node to another, end to end: a client that posts a message to the REST interface of one node
  and is answered with status 200 can fetch exactly that message, once, by the hash in the answer,
  from the archive of any other node to which gossipsub delivers what the first one published, if that
  node keeps running, takes the message as fresh and has no other message with the same hash, and
  the message is not ephemeral. The message is on the shard its content topic hashes to.\<close>

theorem published_message_fetchable:
  assumes "relay_publish renv ps (node_publish nenv st) ct_str body = Some (Text 200 answer :: 'r Response, calls)" "shard_count ps \<noteq> 0"
    and "\<forall>b. hex_decode renv (hex_encode renv b) = Ok b" "sha256 = sha256_digest renv" "digest_len sha256"
    and "\<forall>(sid, m) \<in> set calls. decode_message nenv (encode_message nenv m) = Ok m" "decode_message env = decode_message nenv"
    and "\<forall>tp d mid. gossip_publish nenv tp d = Ok mid \<longrightarrow> mid = waku_message_id sha256 (decode_message nenv) \<lparr>data = d, topic = tp\<rparr>"
    and "\<forall>i \<in> set inputs. keeps_running i"
    and "\<forall>(sid, m) \<in> set calls. (env, Ev (RelayMessage src mid \<lparr>data = encode_message nenv m, topic = shard_topic sid\<rparr>)) \<in> set inputs
      \<and> fresh_message (now_nanos env) m \<and> WakuMessage.ephemeral m \<noteq> Some True"
    and "clock_ok (now_nanos env)" "node_store env \<noteq> None"
    and "set puts = set (List.map_filter spawn_put_of (snd (run inputs st')))"
    and "inj_on (\<lambda>(pt, m). deterministic_hash sha256 pt m) ((\<lambda>(pt, m, rx). (pt, m)) ` set puts)"
    and "wf_table sha256 t" "\<forall>h. hex_decode renv answer = Ok h \<longrightarrow> h \<notin> MessageRow.message_hash ` set t"
  shows "\<exists>h sid m ct. hex_decode renv answer = Ok h \<and> ContentTopic_parse ct_str = Ok ct \<and> into_message renv body ct_str = Ok m
    \<and> autoshard sha256 (NetworkPreset.cluster_id ps) ct (shard_count ps) = Some sid
    \<and> serve_pages (\<lambda>_. None) (hash_request h) (replicate 2 (archive sha256 puts t)) =
      Some [\<lparr>WakuMessageKeyValue.message_hash = Some h, message = Some m, pubsub_topic = Some (shard_topic sid)\<rparr>]"
proof -
  obtain ct m sid where ct: "ContentTopic_parse ct_str = Ok ct" "into_message renv body ct_str = Ok m"
    and sid: "autoshard sha256 (NetworkPreset.cluster_id ps) ct (shard_count ps) = Some sid" and calls: "calls = [(sid, m)]"
    using assms(1) unfolding assms(4) by (auto simp: relay_publish_def split: sum.splits option.splits)
  have m: "decode_message nenv (encode_message nenv m) = Ok m" using assms(6) by (simp add: calls)
  let ?tp = "Waku_Core.pubsub_topic sid" and ?h = "deterministic_hash sha256 (Waku_Core.pubsub_topic sid) m"
  have "relay_publish renv ps (node_publish nenv st) ct_str body =
      Some (case gossip_publish nenv ?tp (encode_message nenv m) of
              Ok _ \<Rightarrow> Text 200 (hex_encode renv ?h) | Err e \<Rightarrow> (Text 503 (''command failed: '' @ e) :: 'r Response), [(sid, m)])"
    using rest_publish [OF ct assms(2), of nenv st] assms(4,5,8) m sid by auto
  then have h: "hex_decode renv answer = Ok ?h" using assms(1,3) by (auto split: sum.splits)
  have "(env, Ev (RelayMessage src mid \<lparr>data = encode_message nenv m, topic = ?tp\<rparr>)) \<in> set inputs"
    "fresh_message (now_nanos env) m" "WakuMessage.ephemeral m \<noteq> Some True"
    using assms(10) by (simp_all add: calls shard_topic_def)
  from accepted_put [OF assms(9) this(1) _ _ assms(11) this(2) assms(12) this(3), of sid st'] m assms(7)
  have put: "(?tp, m, rx_nanos env) \<in> set puts" by (simp add: ShardId_parse_pubsub_topic assms(13))
  have "\<forall>(pt, m', rx) \<in> set puts. deterministic_hash sha256 pt m' = ?h \<longrightarrow> pt = ?tp \<and> m' = m"
    using inj_onD [OF assms(14)] put by (fastforce simp: image_iff)
  from archived_served [OF put assms(5,15) refl this] assms(16) h ct sid show ?thesis
    by (auto simp: shard_topic_def)
qed

text \<open>C3: Filter delivery by the whole node: after any run of the driver from the start, with requests of any
  protocols interleaved, an accepted relay message is pushed to exactly the peers whose own
  subscribe and unsubscribe requests leave them a matching subscription, to each of them once, and
  every push carries that message and its topic.\<close>

theorem node_filter_delivery:
  assumes "\<forall>i \<in> set inputs. keeps_running i"
    and "ShardId_parse (topic gm) = Ok sid" "decode_message env (data gm) = Ok m"
    and "clock_ok (now_nanos env)" "fresh_message (now_nanos env) m"
    and "fx = snd (snd (on_relay_message env src mid gm (fst (run inputs (NodeState_init rnd)))))"
    and "pushes = List.map_filter push_of fx"
  shows "distinct (map fst pushes)
    \<and> set (map fst pushes) =
        {p. \<exists>s \<in> set (client_subs p (List.map_filter filter_request_of inputs)).
          FilterSub_matches s (topic gm) (WakuMessage.content_topic m)}
    \<and> set (map snd pushes) \<subseteq> {\<lparr>waku_message = Some m, MessagePush.pubsub_topic = Some (topic gm)\<rparr>}"
proof -
  let ?st = "fst (run inputs (NodeState_init rnd))"
  have f: "filters ?st = registry_after (List.map_filter filter_request_of inputs)" by (rule filters_run [OF assms(1)])
  obtain ps n where ps: "push_filter_matches (filters ?st) (topic gm) m = (ps, n)" by fastforce
  have "pushes = ps"
    using assms(2,3) ps relay_verdict_eq [OF assms(4), of m] assms(5)
    unfolding assms(6,7)
    by (auto simp: on_relay_message_def emit_def Let_def List.map_filter_simps push_of_pushes split: prod.split)
  moreover have "distinct (map fst ps)
      \<and> set (map fst ps) = {p. \<exists>s \<in> set (client_subs p (List.map_filter filter_request_of inputs)).
          FilterSub_matches s (topic gm) (WakuMessage.content_topic m)}
      \<and> map snd ps = replicate n \<lparr>waku_message = Some m, MessagePush.pubsub_topic = Some (topic gm)\<rparr>"
    using filter_push_exact [of "List.map_filter filter_request_of inputs" "topic gm" m] ps f
    by (simp only: case_prod_conv)
  moreover have "set (replicate n x) \<subseteq> {x}" for x :: MessagePush by (simp add: set_replicate_conv_if)
  ultimately show ?thesis by (simp only: set_map [symmetric])
qed

section \<open>Concrete runs of the node\<close>

theorem relayed_message_retrievable_witness:
  "serve_pages (\<lambda>_. None) (hash_request (deterministic_hash ex_digest (topic ex_relayed) (ex_message 1)))
     (replicate 2 (archive ex_digest [(topic ex_relayed, ex_message 1, rx_nanos ex_env)] [])) =
   Some [\<lparr>WakuMessageKeyValue.message_hash = Some (deterministic_hash ex_digest (topic ex_relayed) (ex_message 1)),
     message = Some (ex_message 1), pubsub_topic = Some (topic ex_relayed)\<rparr>]"
proof (rule relayed_message_retrievable [where inputs = "[(ex_env, Ev (RelayMessage (7 :: nat) [] ex_relayed))]" and
      st = "NodeState_init unrounded" and puts = "[(topic ex_relayed, ex_message 1, rx_nanos ex_env)]"])
  have "relay_verdict (now_nanos ex_env) (ex_message 1) = Accept"
    using relay_verdict_eq [OF ex_relayed_ok(3), of "ex_message 1"] ex_relayed_ok(4) by simp
  then show "set [(topic ex_relayed, ex_message 1, rx_nanos ex_env)] = set (List.map_filter spawn_put_of
      (snd (run [(ex_env, Ev (RelayMessage (7 :: nat) [] ex_relayed))] (NodeState_init unrounded))))"
    using ex_relayed_ok
    by (simp add: run_step_def handle_event_def on_relay_message_def emit_def Let_def push_filter_matches_def
        NodeState_init_def List.map_filter_simps spawn_put_of_def split: prod.split)
qed (use ex_relayed_ok ex_digest_len in \<open>auto simp: keeps_running_def ex_env_def\<close>)

theorem published_message_fetchable_witness:
  "\<exists>sid h m. serve_pages (\<lambda>_. None) (hash_request h) (replicate 2 (archive ex_digest (List.map_filter spawn_put_of
      (snd (run [(ex_node, Ev (RelayMessage (7 :: nat) [] \<lparr>data = as_bytes ''hi'', topic = shard_topic sid\<rparr>))]
        (NodeState_init unrounded)))) [])) =
    Some [\<lparr>WakuMessageKeyValue.message_hash = Some h, message = Some m, pubsub_topic = Some (shard_topic sid)\<rparr>]"
proof -
  obtain ct where ct: "ContentTopic_parse ''/a/1/b/c'' = Ok ct" by (simp add: ContentTopic_parse_def)
  let ?m = "WakuMessage_new ''/a/1/b/c'' (as_bytes ''hi'')" and ?st = "NodeState_init unrounded :: (nat, nat) NodeState"
  have m: "into_message ex_rest ex_body ''/a/1/b/c'' = Ok ?m"
    by (simp add: into_message_def ex_rest_def ex_body_def WakuMessage_new_def del: bind_result_Inr_iff)
  obtain sid where r: "relay_publish ex_rest TWN (node_publish ex_node ?st) ''/a/1/b/c'' ex_body =
      Some (Text 200 (hex_encode ex_rest (deterministic_hash ex_digest (Waku_Core.pubsub_topic sid) ?m)) :: unit Response, [(sid, ?m)])"
    and sid: "autoshard ex_digest (NetworkPreset.cluster_id TWN) ct (shard_count TWN) = Some sid"
    using rest_publish [OF ct m, of TWN ex_node ?st] ex_digest_len
    by (auto simp: TWN_def ex_rest_def ex_node_def ex_decode_def WakuMessage_new_def)
  let ?gm = "\<lparr>data = as_bytes ''hi'', topic = shard_topic sid\<rparr>"
  have e: "sha256_digest ex_rest = ex_digest" "decode_message ex_node (as_bytes ''hi'') = Ok ?m" "encode_message ex_node ?m = as_bytes ''hi''"
    "clock_ok (now_nanos ex_node)" "node_store ex_node \<noteq> None" "fresh_message (now_nanos ex_node) ?m" "WakuMessage.ephemeral ?m = None"
    "evt_open ex_node"
    by (simp_all add: ex_rest_def ex_node_def ex_env_def ex_decode_def clock_ok_def fresh_message_def WakuMessage_new_def)
  have g: "\<forall>tp d mid. gossip_publish ex_node tp d = Ok mid \<longrightarrow>
      mid = waku_message_id ex_digest (decode_message ex_node) \<lparr>data = d, topic = tp\<rparr>"
    by (simp add: ex_node_def)
  let ?inputs = "[(ex_node, Ev (RelayMessage (7 :: nat) [] ?gm))]"
  have puts: "List.map_filter spawn_put_of (snd (run ?inputs ?st)) = [(shard_topic sid, ?m, rx_nanos ex_node)]"
    using e relay_verdict_eq [OF e(4), of ?m]
    by (simp add: run_step_def handle_event_def on_relay_message_def emit_def Let_def push_filter_matches_def
        NodeState_init_def List.map_filter_simps spawn_put_of_def shard_topic_def ShardId_parse_pubsub_topic split: prod.split)
  have "\<exists>h sid' m ct. hex_decode ex_rest (hex_encode ex_rest (deterministic_hash ex_digest (Waku_Core.pubsub_topic sid) ?m)) = Ok h
      \<and> ContentTopic_parse ''/a/1/b/c'' = Ok ct \<and> into_message ex_rest ex_body ''/a/1/b/c'' = Ok m
      \<and> autoshard ex_digest (NetworkPreset.cluster_id TWN) ct (shard_count TWN) = Some sid'
      \<and> serve_pages (\<lambda>_. None) (hash_request h) (replicate 2 (archive ex_digest (List.map_filter spawn_put_of (snd (run ?inputs ?st))) [])) =
        Some [\<lparr>WakuMessageKeyValue.message_hash = Some h, message = Some m, pubsub_topic = Some (shard_topic sid')\<rparr>]"
    by (rule published_message_fetchable [OF r, where env = ex_node and inputs = ?inputs and src = 7 and mid = "[]" and st' = ?st])
      (use e g ex_digest_len ex_hex in \<open>simp_all add: TWN_def keeps_running_def puts del: run.simps\<close>)
  then show ?thesis using ct sid by (metis option.inject sum.inject(2))
qed

definition ex_subscribe :: FilterSubscribeRequest where
  "ex_subscribe = \<lparr>FilterSubscribeRequest.request_id = [], filter_subscribe_type = SUBSCRIBE, pubsub_topic = None,
     content_topics = []\<rparr>"

theorem node_filter_delivery_witness:
  "\<exists>push. (5 :: nat, push) \<in> set (List.map_filter push_of (snd (snd (on_relay_message ex_env 7 [] ex_relayed
     (fst (run [(ex_env, Ev (FilterRequest 5 0 ex_subscribe))] (NodeState_init unrounded)))))))"
proof -
  let ?inputs = "[(ex_env, Ev (FilterRequest (5 :: nat) 0 ex_subscribe))]"
  have "\<forall>i \<in> set ?inputs. keeps_running i" by (simp add: keeps_running_def ex_env_def)
  from node_filter_delivery [OF this ex_relayed_ok(1-4) refl refl, of 7 "[]" unrounded]
  have "set (map fst (List.map_filter push_of (snd (snd (on_relay_message ex_env 7 [] ex_relayed
      (fst (run ?inputs (NodeState_init unrounded)))))))) =
      {p. \<exists>s \<in> set (client_subs p (List.map_filter filter_request_of ?inputs)).
        FilterSub_matches s (topic ex_relayed) (WakuMessage.content_topic (ex_message 1))}" by blast
  moreover have "5 \<in> \<dots>"
    by (simp add: filter_request_of_def List.map_filter_simps client_subs_def client_request_def ex_subscribe_def
        FilterSub_matches_def request_sub_def)
  ultimately have "5 \<in> fst ` set (List.map_filter push_of (snd (snd (on_relay_message ex_env 7 [] ex_relayed
      (fst (run ?inputs (NodeState_init unrounded)))))))" by (simp only: set_map [symmetric])
  then show ?thesis by (elim imageE) (metis prod.collapse)
qed

end
